(* ===== verification/Prelude.thy ===== *)
theory Prelude
  imports Main "HOL-Library.Word"
begin

text \<open>
  Types, results and arithmetic shared by every component: the machine integers of the Rust
  sources as words of their width, Rust's checked and saturating operations, the outcome of a
  fallible call (\<open>Err\<close> for an error value that is returned, \<open>Panic\<close> for an \<open>unwrap\<close>, \<open>expect\<close>,
  \<open>assert!\<close> or index that aborts), and the facts about them that the component proofs use.
  Plain \<open>+\<close>, \<open>-\<close> and \<open>*\<close> of the sources are the wrapping operations of words, as in the release
  profile, where overflow checks are off.
\<close>

section \<open>Machine integers\<close>

type_synonym u8 = "8 word"
type_synonym u16 = "16 word"
type_synonym u32 = "32 word"
type_synonym u64 = "64 word"
type_synonym u128 = "128 word"

text \<open>A signed 64-bit integer is kept as its two's complement word and read with \<open>sint\<close>.\<close>

type_synonym i64 = "64 word"

type_synonym pubkey = "256 word"
type_synonym hash = "256 word"
type_synonym slot = u64
type_synonym epoch = u64
type_synonym bytes = "u8 list"

definition checked_add :: "'a::len word \<Rightarrow> 'a word \<Rightarrow> 'a word option" where
  "checked_add a b = (if unat a + unat b < 2 ^ LENGTH('a) then Some (a + b) else None)"

definition checked_sub :: "'a::len word \<Rightarrow> 'a word \<Rightarrow> 'a word option" where
  "checked_sub a b = (if b \<le> a then Some (a - b) else None)"

definition saturating_add :: "'a::len word \<Rightarrow> 'a word \<Rightarrow> 'a word" where
  "saturating_add a b = (if unat a + unat b < 2 ^ LENGTH('a) then a + b else - 1)"

definition saturating_sub :: "'a::len word \<Rightarrow> 'a word \<Rightarrow> 'a word" where
  "saturating_sub a b = (if b \<le> a then a - b else 0)"

named_theorems u64_simps \<open>reading word arithmetic as arithmetic on natural numbers\<close>

lemma unat_le_iff [u64_simps]: "a \<le> b \<longleftrightarrow> unat a \<le> unat b" for a b :: "'a::len word"
  by (rule word_le_nat_alt)

lemma unat_less_iff [u64_simps]: "a < b \<longleftrightarrow> unat a < unat b" for a b :: "'a::len word"
  by (rule word_less_nat_alt)

lemma unat_eq_iff [u64_simps]: "a = b \<longleftrightarrow> unat a = unat b" for a b :: "'a::len word"
  by (rule word_unat_eq_iff)

lemma unat_add_exact:
  "unat a + unat b < 2 ^ LENGTH('a) \<Longrightarrow> unat (a + b) = unat a + unat b" for a b :: "'a::len word"
  by (rule unat_add_lem [THEN iffD1])

lemma unat_mult_exact:
  "unat a * unat b < 2 ^ LENGTH('a) \<Longrightarrow> unat (a * b) = unat a * unat b" for a b :: "'a::len word"
  by (rule unat_mult_lem [THEN iffD1])

lemma unat_sub_exact: "b \<le> a \<Longrightarrow> unat (a - b) = unat a - unat b" for a b :: "'a::len word"
  by (rule unat_sub)

lemma unat_lt2p_u64 [simp]: "unat (a :: u64) < 18446744073709551616"
  using unsigned_less [of a, where ?'a = nat] by simp

lemma unat_succ: "w \<noteq> - 1 \<Longrightarrow> unat (w + 1) = unat w + 1" for w :: "'a::len word"
proof -
  assume "w \<noteq> - 1"
  then have "unat w \<noteq> unat (- 1 :: 'a word)" by (simp add: word_unat_eq_iff)
  then have "unat w \<noteq> 2 ^ LENGTH('a) - 1" by (simp add: unsigned_minus_1_eq_mask mask_eq_exp_minus_1)
  moreover have "unat w < 2 ^ LENGTH('a)" by (rule unsigned_less)
  ultimately have "unat w + 1 < 2 ^ LENGTH('a)" by linarith
  then show ?thesis using unat_add_exact [of w 1] by simp
qed

lemma unat_ucast_u8 [simp]: "unat (ucast (b :: u8) :: u64) = unat b"
proof -
  have "unat b < 2 ^ 8" using unsigned_less [of b, where ?'a = nat] by simp
  then show ?thesis by (simp add: unsigned_ucast_eq take_bit_nat_eq_self)
qed

lemma checked_add_Some_iff:
  "checked_add a b = Some c \<longleftrightarrow> unat a + unat b < 2 ^ LENGTH('a) \<and> c = a + b"
  for a b :: "'a::len word"
  by (auto simp: checked_add_def)

lemma checked_sub_Some_iff: "checked_sub a b = Some c \<longleftrightarrow> b \<le> a \<and> c = a - b"
  by (auto simp: checked_sub_def)

lemma unat_saturating_sub: "unat (saturating_sub a b) = unat a - unat b"
  by (auto simp: saturating_sub_def unat_sub_exact word_le_nat_alt)

lemma saturating_sub_le: "saturating_sub a b \<le> a"
  by (simp add: word_le_nat_alt unat_saturating_sub)

lemma unat_saturating_add:
  "unat (saturating_add a b) = min (unat a + unat b) (2 ^ LENGTH('a) - 1)"
  for a b :: "'a::len word"
  by (auto simp: saturating_add_def unat_add_exact unsigned_minus_1_eq_mask mask_eq_exp_minus_1 min_def)

text \<open>Signed 64-bit values that come from small unsigned ones.\<close>

lemma sint_diff_small:
  fixes a b :: i64
  assumes "unat a < 2 ^ 63" and "unat b < 2 ^ 63"
  shows "sint (a - b) = int (unat a) - int (unat b)"
proof -
  have "a - b = word_of_int (int (unat a) - int (unat b))" by simp
  moreover have "int (unat a) < int (2 ^ 63)" "int (unat b) < int (2 ^ 63)"
    using assms by (simp_all only: of_nat_less_iff)
  then have "- (2 ^ 63) \<le> int (unat a) - int (unat b)" "int (unat a) - int (unat b) < 2 ^ 63"
    unfolding of_nat_power of_nat_numeral by linarith+
  ultimately show ?thesis
    by (simp only: sint_sbintrunc') (simp add: signed_take_bit_int_eq_self)
qed

lemma unat_max: "unat (max a b) = max (unat a) (unat b)" for a b :: "'a::len word"
  by (simp add: max_def word_le_nat_alt)

lemma unat_min: "unat (min a b) = min (unat a) (unat b)" for a b :: "'a::len word"
  by (simp add: min_def word_le_nat_alt)

text \<open>A percentage of an amount, and the rest.\<close>

lemma percent_split:
  fixes x :: u64 and p :: u8
  assumes "unat x * unat p < 2 ^ 64" and "p \<le> 100"
  shows "unat (x * ucast p div 100) = unat x * unat p div 100"
    and "unat (x - x * ucast p div 100) + unat (x * ucast p div 100) = unat x"
proof -
  from assms(1) have "unat (x * ucast p) = unat x * unat p" by (subst unat_mult_exact) simp_all
  then show part: "unat (x * ucast p div 100) = unat x * unat p div 100" by (simp add: unat_div)
  have "unat p \<le> 100" using assms(2) by (simp add: word_le_nat_alt)
  then have "unat x * unat p \<le> unat x * 100" by (rule mult_le_mono2)
  then have "unat x * unat p div 100 \<le> unat x * 100 div 100" by (rule div_le_mono)
  then have "x * ucast p div 100 \<le> x" unfolding word_le_nat_alt part by simp
  then show "unat (x - x * ucast p div 100) + unat (x * ucast p div 100) = unat x"
    by (simp add: unat_sub_exact word_le_nat_alt)
qed

section \<open>Bits of a natural number\<close>

text \<open>
  \<open>bit_length n\<close> is the number of binary digits of \<open>n\<close>; Rust's \<open>next_power_of_two\<close> (which wraps to
  0 in the release profile) and \<open>trailing_zeros\<close> are defined from it.
\<close>

fun bit_length :: "nat \<Rightarrow> nat" where
  "bit_length n = (if n = 0 then 0 else Suc (bit_length (n div 2)))"

declare bit_length.simps [simp del]

lemma bit_length_0 [simp]: "bit_length 0 = 0"
  by (simp add: bit_length.simps)

lemma bit_length_pos: "0 < n \<Longrightarrow> bit_length n = Suc (bit_length (n div 2))"
  by (simp add: bit_length.simps)

lemma bit_length_upper: "n < 2 ^ bit_length n"
proof (induction n rule: bit_length.induct)
  case (1 n)
  show ?case
  proof (cases "n = 0")
    case False
    with "1.IH" have "n div 2 < 2 ^ bit_length (n div 2)" by simp
    with False show ?thesis by (simp add: bit_length_pos)
  qed simp
qed

lemma bit_length_lower: "0 < n \<Longrightarrow> 2 ^ (bit_length n - 1) \<le> n"
proof (induction n rule: bit_length.induct)
  case (1 n)
  show ?case
  proof (cases "n = 1")
    case True
    then show ?thesis by (simp add: bit_length_pos)
  next
    case False
    with "1.prems" have "0 < n div 2" by auto
    with "1.IH" "1.prems" have "2 ^ (bit_length (n div 2) - 1) \<le> n div 2" by simp
    moreover have "bit_length (n div 2) = Suc (bit_length (n div 2) - 1)"
      using \<open>0 < n div 2\<close> by (simp add: bit_length_pos)
    ultimately have "2 ^ bit_length (n div 2) \<le> 2 * (n div 2)"
      by (metis mult_le_mono2 power_Suc)
    with "1.prems" show ?thesis by (simp add: bit_length_pos)
  qed
qed

lemma bit_length_unique: "2 ^ k \<le> n \<Longrightarrow> n < 2 ^ Suc k \<Longrightarrow> bit_length n = Suc k"
proof (induction k arbitrary: n)
  case 0
  then have "n = 1" by simp
  then show ?case by (simp add: bit_length_pos)
next
  case (Suc k)
  then have "2 ^ k \<le> n div 2" and "n div 2 < 2 ^ Suc k" by auto
  then have "bit_length (n div 2) = Suc k" by (rule Suc.IH)
  moreover have "0 < n" using \<open>2 ^ k \<le> n div 2\<close> by (cases n) auto
  ultimately show ?case by (simp add: bit_length_pos)
qed

lemma bit_length_mono: "m \<le> n \<Longrightarrow> bit_length m \<le> bit_length n"
proof (induction n arbitrary: m rule: bit_length.induct)
  case (1 n)
  show ?case
  proof (cases "m = 0")
    case False
    with "1.prems" have "n \<noteq> 0" "m div 2 \<le> n div 2" by (auto intro: div_le_mono)
    with "1.IH" False show ?thesis by (simp add: bit_length_pos)
  qed simp
qed

lemma bit_length_le: "n < 2 ^ k \<Longrightarrow> bit_length n \<le> k"
proof (rule ccontr)
  assume "n < 2 ^ k" "\<not> bit_length n \<le> k"
  then have "0 < n" and "k \<le> bit_length n - 1" by (auto intro!: Nat.gr0I)
  then have "(2::nat) ^ k \<le> 2 ^ (bit_length n - 1)" by (intro power_increasing) auto
  also have "\<dots> \<le> n" using \<open>0 < n\<close> by (rule bit_length_lower)
  finally show False using \<open>n < 2 ^ k\<close> by simp
qed

definition next_power_of_two :: "u64 \<Rightarrow> u64" where
  "next_power_of_two w = 2 ^ bit_length (unat w - 1)"

fun trailing_zeros_nat :: "nat \<Rightarrow> nat" where
  "trailing_zeros_nat n = (if n = 0 \<or> odd n then 0 else Suc (trailing_zeros_nat (n div 2)))"

declare trailing_zeros_nat.simps [simp del]

definition trailing_zeros :: "u64 \<Rightarrow> nat" where
  "trailing_zeros w = (if w = 0 then 64 else trailing_zeros_nat (unat w))"

lemma trailing_zeros_nat_power: "trailing_zeros_nat (2 ^ k) = k"
proof (induction k)
  case 0
  show ?case by (simp add: trailing_zeros_nat.simps)
next
  case (Suc k)
  then show ?case by (subst trailing_zeros_nat.simps) simp
qed

lemma unat_power_two: "k < 64 \<Longrightarrow> unat (2 ^ k :: u64) = 2 ^ k"
proof -
  assume "k < 64"
  then have "(2::nat) ^ k < 2 ^ 64" by (intro power_strict_increasing) simp_all
  then have "unat (of_nat (2 ^ k) :: u64) = 2 ^ k" by (subst unat_of_nat) simp
  then show ?thesis by simp
qed

lemma trailing_zeros_power: "k < 64 \<Longrightarrow> trailing_zeros (2 ^ k) = k"
proof -
  assume k: "k < 64"
  then have "unat (2 ^ k :: u64) = 2 ^ k" by (rule unat_power_two)
  moreover from this have "(2 ^ k :: u64) \<noteq> 0" by (metis power_not_zero unat_0 zero_neq_numeral)
  ultimately show ?thesis by (simp add: trailing_zeros_def trailing_zeros_nat_power)
qed

section \<open>Results\<close>

text \<open>
  A call that returns \<open>Result<T, E>\<close> and may panic has type \<open>'e failure + 'a\<close>. \<open>and_then\<close> is the
  \<open>?\<close> operator: the first failure ends the function.
\<close>

datatype 'e failure = Err 'e | Panic

type_synonym ('e, 'a) outcome = "'e failure + 'a"

definition and_then :: "'e + 'a \<Rightarrow> ('a \<Rightarrow> 'e + 'b) \<Rightarrow> 'e + 'b" where
  "and_then m f = (case m of Inl e \<Rightarrow> Inl e | Inr x \<Rightarrow> f x)"

definition ensure :: "bool \<Rightarrow> 'e \<Rightarrow> 'e + unit" where
  "ensure b e = (if b then Inr () else Inl e)"

definition ok_or :: "'a option \<Rightarrow> 'e \<Rightarrow> 'e + 'a" where
  "ok_or m e = (case m of None \<Rightarrow> Inl e | Some x \<Rightarrow> Inr x)"

definition is_ok :: "'e + 'a \<Rightarrow> bool" where
  "is_ok m = (case m of Inl _ \<Rightarrow> False | Inr _ \<Rightarrow> True)"

named_theorems result_simps \<open>evaluation and inversion of results\<close>

lemma and_then_simps [simp, result_simps]:
  "and_then (Inl e) f = Inl e" "and_then (Inr x) f = f x"
  by (simp_all add: and_then_def)

lemma and_then_Inr_iff [result_simps]:
  "and_then m f = Inr y \<longleftrightarrow> (\<exists>x. m = Inr x \<and> f x = Inr y)"
  by (cases m) auto

lemma ensure_Inr_iff [simp, result_simps]: "ensure b e = Inr u \<longleftrightarrow> b"
  by (simp add: ensure_def)

lemma ensure_Inl_iff [result_simps]: "ensure b e = Inl e' \<longleftrightarrow> \<not> b \<and> e' = e"
  by (auto simp: ensure_def)

lemma ensure_True [simp]: "ensure True e = Inr ()"
  by (simp add: ensure_def)

lemma ensure_False [simp]: "ensure False e = Inl e"
  by (simp add: ensure_def)

lemma ok_or_Inr_iff [simp, result_simps]: "ok_or m e = Inr x \<longleftrightarrow> m = Some x"
  by (cases m) (auto simp: ok_or_def)

lemma ok_or_simps [simp]: "ok_or None e = Inl e" "ok_or (Some x) e = Inr x"
  by (simp_all add: ok_or_def)

lemma is_ok_iff: "is_ok m \<longleftrightarrow> (\<exists>x. m = Inr x)"
  by (cases m) (auto simp: is_ok_def)

text \<open>A loop that runs a fallible body over a list, stopping at the first failure.\<close>

fun fold_result :: "('a \<Rightarrow> 's \<Rightarrow> 'e + 's) \<Rightarrow> 'a list \<Rightarrow> 's \<Rightarrow> 'e + 's" where
  "fold_result f [] s = Inr s"
| "fold_result f (x # xs) s = and_then (f x s) (fold_result f xs)"

lemma fold_result_invariant:
  assumes "fold_result f xs s = Inr s'" and "P s"
    and "\<And>x s s'. x \<in> set xs \<Longrightarrow> f x s = Inr s' \<Longrightarrow> P s \<Longrightarrow> P s'"
  shows "P s'"
  using assms
proof (induction xs arbitrary: s)
  case (Cons x xs)
  from Cons.prems(1) obtain t where t: "f x s = Inr t" "fold_result f xs t = Inr s'"
    by (auto simp: and_then_Inr_iff)
  from t(1) Cons.prems(2) have "P t" using Cons.prems(3) [of x s t] by simp
  with t(2) show ?case using Cons.prems(3) by (intro Cons.IH [of t]) auto
qed simp

end
