(* ===== verification/Codec.thy ===== *)
theory Codec
  imports Prelude
begin

unbundle bit_operations_syntax

text \<open>
  The interface to serialisation. The sources encode values with serde and bincode, which are not
  part of the repository, so every definition that reads or writes encoded data takes the encoder
  and the decoder as arguments. The locale \<open>codec\<close> states what the sources rely on: decoding an
  encoding gives the value back and leaves the bytes that follow it (bincode's \<open>deserialize\<close>
  accepts trailing bytes, which is how a fixed-size account holds a shorter value). The combinators
  below build codecs of the shapes the model's types have, so that every hypothesis \<open>codec enc dec\<close>
  has an instance at those types.
\<close>

section \<open>The contract\<close>

type_synonym 'a enc = "'a \<Rightarrow> bytes"
type_synonym 'a dec = "bytes \<Rightarrow> ('a \<times> bytes) option"

locale codec =
  fixes enc :: "'a enc" and dec :: "'a dec"
  assumes dec_enc: "dec (enc x @ rest) = Some (x, rest)"
begin

lemma dec_enc_exact: "dec (enc x) = Some (x, [])"
  using dec_enc [of x "[]"] by simp

lemma enc_prefix_unique: "enc x @ r = enc y @ s \<Longrightarrow> x = y \<and> r = s"
  by (metis dec_enc option.inject prod.inject)

lemma enc_inject: "enc x = enc y \<longleftrightarrow> x = y"
  using enc_prefix_unique [of x "[]" y "[]"] by auto

end

text \<open>A sequence of encoded elements, as read back one by one.\<close>

fun dec_n :: "'a dec \<Rightarrow> nat \<Rightarrow> 'a list dec" where
  "dec_n dec 0 bs = Some ([], bs)"
| "dec_n dec (Suc n) bs =
     (case dec bs of None \<Rightarrow> None
      | Some (x, r) \<Rightarrow> (case dec_n dec n r of None \<Rightarrow> None | Some (xs, r') \<Rightarrow> Some (x # xs, r')))"

context codec
begin

lemma dec_n_concat: "dec_n dec (length xs) (concat (map enc xs) @ rest) = Some (xs, rest)"
  by (induction xs) (simp_all add: dec_enc)

end

text \<open>The encoder and the decoder of a type, as one argument.\<close>

record 'a serde =
  ser :: "'a \<Rightarrow> bytes"
  de :: "bytes \<Rightarrow> ('a \<times> bytes) option"

abbreviation serde_ok :: "'a serde \<Rightarrow> bool" where
  "serde_ok C \<equiv> codec (ser C) (de C)"

section \<open>Codecs of the model's shapes\<close>

text \<open>Little-endian words: \<open>enc_le n\<close> writes the \<open>n\<close> low bytes of a word.\<close>

fun enc_le :: "nat \<Rightarrow> 'a::len word \<Rightarrow> bytes" where
  "enc_le 0 w = []"
| "enc_le (Suc n) w = ucast w # enc_le n (drop_bit 8 w)"

fun dec_le :: "nat \<Rightarrow> 'a::len word dec" where
  "dec_le 0 bs = Some (0, bs)"
| "dec_le (Suc n) [] = None"
| "dec_le (Suc n) (b # bs) =
     (case dec_le n bs of None \<Rightarrow> None | Some (w, r) \<Rightarrow> Some (ucast b OR push_bit 8 w, r))"

lemma length_enc_le [simp]: "length (enc_le n w) = n"
  by (induction n arbitrary: w) simp_all

lemma take_bit_8_split:
  "ucast (ucast w :: u8) OR push_bit 8 (take_bit n (drop_bit 8 w)) = take_bit (8 + n) w"
  for w :: "'a::len word"
  by (rule bit_word_eqI)
    (auto simp: bit_or_iff bit_push_bit_iff bit_take_bit_iff bit_drop_bit_eq bit_ucast_iff
      intro: bit_imp_le_length)

lemma dec_le_enc_le: "dec_le n (enc_le n w @ rest) = Some (take_bit (8 * n) w, rest)"
proof (induction n arbitrary: w)
  case (Suc n)
  show ?case by (simp add: Suc.IH take_bit_8_split)
qed simp

lemma codec_le: "8 * n = LENGTH('a) \<Longrightarrow> codec (enc_le n :: 'a::len word enc) (dec_le n)"
  by unfold_locales (simp add: dec_le_enc_le take_bit_word_eq_self)

interpretation u8_codec: codec "enc_le 1 :: u8 enc" "dec_le 1"
  by (rule codec_le) simp

interpretation u64_codec: codec "enc_le 8 :: u64 enc" "dec_le 8"
  by (rule codec_le) simp

definition enc_pair :: "'a enc \<Rightarrow> 'b enc \<Rightarrow> ('a \<times> 'b) enc" where
  "enc_pair ea eb p = ea (fst p) @ eb (snd p)"

definition dec_pair :: "'a dec \<Rightarrow> 'b dec \<Rightarrow> ('a \<times> 'b) dec" where
  "dec_pair da db bs =
     (case da bs of None \<Rightarrow> None
      | Some (x, r) \<Rightarrow> (case db r of None \<Rightarrow> None | Some (y, r') \<Rightarrow> Some ((x, y), r')))"

lemma codec_pair: "codec ea da \<Longrightarrow> codec eb db \<Longrightarrow> codec (enc_pair ea eb) (dec_pair da db)"
  by (simp add: codec_def enc_pair_def dec_pair_def)

definition enc_bool :: "bool enc" where
  "enc_bool b = [if b then 1 else 0]"

fun dec_bool :: "bool dec" where
  "dec_bool [] = None"
| "dec_bool (b # bs) = (if b = 0 then Some (False, bs) else if b = 1 then Some (True, bs) else None)"

lemma codec_bool: "codec enc_bool dec_bool"
  by unfold_locales (simp add: enc_bool_def)

definition enc_option :: "'a enc \<Rightarrow> 'a option enc" where
  "enc_option e m = (case m of None \<Rightarrow> [0] | Some x \<Rightarrow> 1 # e x)"

fun dec_option :: "'a dec \<Rightarrow> 'a option dec" where
  "dec_option d [] = None"
| "dec_option d (b # bs) =
     (if b = 0 then Some (None, bs)
      else if b = 1 then (case d bs of None \<Rightarrow> None | Some (x, r) \<Rightarrow> Some (Some x, r)) else None)"

lemma codec_option: "codec e d \<Longrightarrow> codec (enc_option e) (dec_option d)"
  by (auto simp: codec_def enc_option_def split: option.splits)

text \<open>A value of one type seen through a pair of inverse functions as a value of another.\<close>

definition enc_via :: "('b \<Rightarrow> 'a) \<Rightarrow> 'a enc \<Rightarrow> 'b enc" where
  "enc_via f e x = e (f x)"

definition dec_via :: "('a \<Rightarrow> 'b) \<Rightarrow> 'a dec \<Rightarrow> 'b dec" where
  "dec_via g d bs = (case d bs of None \<Rightarrow> None | Some (x, r) \<Rightarrow> Some (g x, r))"

lemma codec_via: "codec e d \<Longrightarrow> (\<And>x. g (f x) = x) \<Longrightarrow> codec (enc_via f e) (dec_via g d)"
  by (simp add: codec_def enc_via_def dec_via_def)

text \<open>
  A list is written with a marker before every element and a closing one. (bincode writes a count
  first, which for unbounded lists is not injective at a fixed width.)
\<close>

fun enc_list :: "'a enc \<Rightarrow> 'a list enc" where
  "enc_list e [] = [0]"
| "enc_list e (x # xs) = 1 # e x @ enc_list e xs"

fun dec_list_fuel :: "nat \<Rightarrow> 'a dec \<Rightarrow> 'a list dec" where
  "dec_list_fuel 0 d bs = None"
| "dec_list_fuel (Suc n) d [] = None"
| "dec_list_fuel (Suc n) d (b # bs) =
     (if b = 0 then Some ([], bs)
      else (case d bs of None \<Rightarrow> None
            | Some (x, r) \<Rightarrow> (case dec_list_fuel n d r of None \<Rightarrow> None
                             | Some (xs, r') \<Rightarrow> Some (x # xs, r'))))"

definition dec_list :: "'a dec \<Rightarrow> 'a list dec" where
  "dec_list d bs = dec_list_fuel (length bs) d bs"

lemma length_enc_list: "length xs < length (enc_list e xs)"
  by (induction xs) auto

lemma dec_list_fuel_enc:
  assumes "codec e d" and "length xs < n"
  shows "dec_list_fuel n d (enc_list e xs @ rest) = Some (xs, rest)"
  using assms(2)
proof (induction xs arbitrary: n)
  case Nil
  then show ?case by (cases n) auto
next
  case (Cons x xs)
  then obtain m where m: "n = Suc m" "length xs < m" by (cases n) auto
  from Cons.IH [OF m(2)] codec.dec_enc [OF assms(1)] show ?case by (simp add: m(1))
qed

lemma codec_list: "codec e d \<Longrightarrow> codec (enc_list e) (dec_list d)"
proof (unfold_locales, goal_cases)
  case (1 xs rest)
  have "length xs < length (enc_list e xs @ rest)"
    using length_enc_list [of xs e] by simp
  then show ?case using dec_list_fuel_enc [OF 1(1)] by (simp add: dec_list_def)
qed

lemmas codec_intros = codec_pair codec_bool codec_option codec_list codec_le

definition enc_nat :: "nat enc" where
  "enc_nat = enc_via (\<lambda>n. replicate n True) (enc_list enc_bool)"

definition dec_nat :: "nat dec" where
  "dec_nat = dec_via length (dec_list dec_bool)"

lemma codec_nat: "codec enc_nat dec_nat"
  unfolding enc_nat_def dec_nat_def by (intro codec_via codec_intros) simp

text \<open>A tagged union of two cases.\<close>

definition enc_sum :: "'a enc \<Rightarrow> 'b enc \<Rightarrow> ('a + 'b) enc" where
  "enc_sum ea eb m = (case m of Inl x \<Rightarrow> 0 # ea x | Inr y \<Rightarrow> 1 # eb y)"

fun dec_sum :: "'a dec \<Rightarrow> 'b dec \<Rightarrow> ('a + 'b) dec" where
  "dec_sum da db [] = None"
| "dec_sum da db (t # bs) =
     (if t = 0 then map_option (\<lambda>(x, r). (Inl x, r)) (da bs)
      else map_option (\<lambda>(y, r). (Inr y, r)) (db bs))"

lemma codec_sum: "codec ea da \<Longrightarrow> codec eb db \<Longrightarrow> codec (enc_sum ea eb) (dec_sum da db)"
  by (auto simp: codec_def enc_sum_def split: sum.splits)

abbreviation enc_u8 :: "u8 enc" where "enc_u8 \<equiv> enc_le 1"
abbreviation dec_u8 :: "u8 dec" where "dec_u8 \<equiv> dec_le 1"
abbreviation enc_u32 :: "u32 enc" where "enc_u32 \<equiv> enc_le 4"
abbreviation dec_u32 :: "u32 dec" where "dec_u32 \<equiv> dec_le 4"
abbreviation enc_u64 :: "u64 enc" where "enc_u64 \<equiv> enc_le 8"
abbreviation dec_u64 :: "u64 dec" where "dec_u64 \<equiv> dec_le 8"
abbreviation enc_key :: "pubkey enc" where "enc_key \<equiv> enc_le 32"
abbreviation dec_key :: "pubkey dec" where "dec_key \<equiv> dec_le 32"

lemma codec_words: "codec enc_u8 dec_u8" "codec enc_u32 dec_u32" "codec enc_u64 dec_u64" "codec enc_key dec_key"
  by (rule codec_le; simp)+

lemmas codec_rules = codec_words codec_nat codec_bool codec_option codec_list codec_sum codec_pair

text \<open>The 32 bytes of a key, most significant first.\<close>

definition pubkey_bytes :: "pubkey \<Rightarrow> bytes" where
  "pubkey_bytes k = rev (enc_le 32 k)"

definition pubkey_of_bytes :: "bytes \<Rightarrow> pubkey" where
  "pubkey_of_bytes bs = (case dec_le 32 (rev bs) of None \<Rightarrow> 0 | Some (k, _) \<Rightarrow> k)"

end
