(* ===== verification/ShortVec.thy ===== *)
theory ShortVec
  imports Codec
begin

unbundle bit_operations_syntax

text \<open>
  The compact length encoding of \<open>sdk/program/src/short_vec.rs\<close>: a \<open>u16\<close> as one to three bytes of
  seven bits each, the vectors that start with such a length, and the two decoders (the serde
  visitor and \<open>decode_len\<close>). The element serialiser of a vector is a parameter.
\<close>

section \<open>Encoding a \<open>u16\<close>\<close>

lemma unat_drop_bit_7_less: "drop_bit 7 r \<noteq> 0 \<Longrightarrow> unat (drop_bit 7 r) < unat r" for r :: u16
proof -
  assume nz: "drop_bit 7 r \<noteq> 0"
  have eq: "unat (drop_bit 7 r) = unat r div 128" by (simp add: drop_bit_eq_div unat_div)
  from nz have "unat r div 128 \<noteq> 0" unfolding eq [symmetric] unat_eq_zero .
  then show ?thesis unfolding eq by simp
qed

function short_u16_serialize :: "u16 \<Rightarrow> bytes" where
  "short_u16_serialize rem_len =
     (let elem = ucast (rem_len AND 0x7f) :: u8;
          rem_len' = drop_bit 7 rem_len
      in if rem_len' = 0 then [elem] else (elem OR 0x80) # short_u16_serialize rem_len')"
  by pat_completeness auto
termination
  by (relation "measure unat") (simp_all add: unat_drop_bit_7_less)

declare short_u16_serialize.simps [simp del]

section \<open>Decoding\<close>

datatype visit_result = Done u64 nat | More u64 nat | VisitErr

definition visit_byte :: "u8 \<Rightarrow> u64 \<Rightarrow> nat \<Rightarrow> visit_result" where
  "visit_byte elem len sz =
     (let len' = len OR push_bit (sz * 7) (ucast elem AND 0x7f);
          sz' = sz + 1;
          more = (ucast elem AND 0x80 = (0x80 :: u64))
      in if sz' > 2 + 1 then VisitErr
         else if more then More len' sz'
         else Done len' sz')"

text \<open>
  \<open>ShortLenVisitor::visit_seq\<close> reads at most three elements (the tuple length that
  \<open>Deserialize for ShortU16\<close> passes); \<open>remaining\<close> counts what is left of them.
\<close>

fun short_u16_visit_seq :: "nat \<Rightarrow> u64 \<Rightarrow> nat \<Rightarrow> u16 dec" where
  "short_u16_visit_seq 0 len sz bs = None"
| "short_u16_visit_seq (Suc remaining) len sz [] = None"
| "short_u16_visit_seq (Suc remaining) len sz (elem # bs) =
     (case visit_byte elem len sz of
        Done l _ \<Rightarrow> Some (ucast l, bs)
      | More l s \<Rightarrow> short_u16_visit_seq remaining l s bs
      | VisitErr \<Rightarrow> None)"

definition short_u16_deserialize :: "u16 dec" where
  "short_u16_deserialize = short_u16_visit_seq 3 0 0"

fun decode_len_loop :: "u64 \<Rightarrow> nat \<Rightarrow> bytes \<Rightarrow> (u64 \<times> nat) option" where
  "decode_len_loop len sz [] = None"
| "decode_len_loop len sz (byte # bs) =
     (case visit_byte byte len sz of
        More l s \<Rightarrow> decode_len_loop l s bs
      | Done l s \<Rightarrow> Some (l, s)
      | VisitErr \<Rightarrow> None)"

definition decode_len :: "bytes \<Rightarrow> (u64 \<times> nat) option" where
  "decode_len bs = decode_len_loop 0 0 bs"

section \<open>One byte\<close>

lemma bit_128: "bit (128 :: int) n \<longleftrightarrow> n = 7"
proof -
  have "bit (2 ^ 7 :: int) n \<longleftrightarrow> n = 7" by (subst bit_exp_iff) auto
  then show ?thesis by simp
qed

lemma and_7f: "r AND 0x7f = take_bit 7 r" for r :: "'a::len word"
  by (simp add: take_bit_eq_mask mask_eq_exp_minus_1)

lemma and_80_iff: "ucast e AND 0x80 = (0x80 :: u64) \<longleftrightarrow> bit e 7" for e :: u8
proof -
  have "ucast e AND 0x80 = (if bit e 7 then 0x80 else 0 :: u64)"
    by (rule bit_word_eqI) (auto simp: bit_and_iff bit_ucast_iff bit_128)
  then show ?thesis by simp
qed

lemmas visit_bits = bit_or_iff bit_push_bit_iff bit_ucast_iff bit_take_bit_iff bit_drop_bit_eq bit_128

lemma visit_byte_more:
  "sz < 3 \<Longrightarrow> visit_byte (ucast (take_bit 7 r) OR 0x80) len sz =
     More (len OR push_bit (sz * 7) (ucast (take_bit 7 r))) (Suc sz)" for r :: u16
proof -
  have "bit (ucast (take_bit 7 r) OR (0x80 :: u8)) 7" by (simp add: visit_bits)
  moreover have "take_bit 7 (ucast (ucast (take_bit 7 r) OR (0x80 :: u8)) :: u64) = ucast (take_bit 7 r)"
    by (rule bit_word_eqI) (auto simp: visit_bits)
  moreover assume "sz < 3"
  ultimately show ?thesis by (simp add: visit_byte_def and_80_iff and_7f Let_def)
qed

lemma visit_byte_done:
  "sz < 3 \<Longrightarrow> visit_byte (ucast (take_bit 7 r)) len sz =
     Done (len OR push_bit (sz * 7) (ucast (take_bit 7 r))) (Suc sz)" for r :: u16
proof -
  have "\<not> bit (ucast (take_bit 7 r) :: u8) 7" by (simp add: visit_bits)
  moreover have "take_bit 7 (ucast (ucast (take_bit 7 r) :: u8) :: u64) = ucast (take_bit 7 r)"
    by (rule bit_word_eqI) (auto simp: visit_bits)
  moreover assume "sz < 3"
  ultimately show ?thesis by (simp add: visit_byte_def and_80_iff and_7f Let_def)
qed

lemma seven_bit_groups:
  "ucast (take_bit 7 n) OR push_bit 7 (ucast (take_bit 7 (drop_bit 7 n)))
     OR push_bit 14 (ucast (take_bit 7 (drop_bit 14 n))) = (ucast n :: u64)" for n :: u16
proof (rule bit_word_eqI, goal_cases)
  case (1 i)
  show ?case
    by (cases "i < 14") (auto simp: visit_bits dest: bit_imp_le_length)
qed

section \<open>The bytes of an encoding\<close>

text \<open>Every \<open>u16\<close> has one of three forms, by how many groups of seven bits it needs.\<close>

lemma serialize_1: "drop_bit 7 n = 0 \<Longrightarrow> short_u16_serialize n = [ucast (take_bit 7 n)]"
  by (simp add: short_u16_serialize.simps and_7f)

lemma serialize_more:
  "drop_bit 7 n \<noteq> 0 \<Longrightarrow>
     short_u16_serialize n = (ucast (take_bit 7 n) OR 0x80) # short_u16_serialize (drop_bit 7 n)"
  by (subst short_u16_serialize.simps) (simp add: and_7f Let_def)

lemma drop_bit_21: "drop_bit 7 (drop_bit 14 n) = 0" for n :: u16
  by (rule bit_word_eqI) (auto simp: bit_drop_bit_eq dest: bit_imp_le_length)

lemma serialize_cases:
  fixes n :: u16
  obtains "drop_bit 7 n = 0" "short_u16_serialize n = [ucast (take_bit 7 n)]"
  | "drop_bit 14 n = 0"
    "short_u16_serialize n = [ucast (take_bit 7 n) OR 0x80, ucast (take_bit 7 (drop_bit 7 n))]"
  | "short_u16_serialize n =
      [ucast (take_bit 7 n) OR 0x80, ucast (take_bit 7 (drop_bit 7 n)) OR 0x80,
       ucast (take_bit 7 (drop_bit 14 n))]"
proof -
  have d: "drop_bit 7 (drop_bit 7 n) = drop_bit 14 n" by (simp add: drop_bit_drop_bit)
  consider "drop_bit 7 n = 0" | "drop_bit 7 n \<noteq> 0" "drop_bit 14 n = 0" | "drop_bit 7 n \<noteq> 0" "drop_bit 14 n \<noteq> 0"
    by blast
  then show ?thesis
  proof cases
    case 1
    then show ?thesis by (rule that(1)) (rule serialize_1 [OF 1])
  next
    case 2
    from serialize_more [OF 2(1)] serialize_1 [of "drop_bit 7 n"] 2(2) show ?thesis
      by (intro that(2)) (simp_all add: d del: drop_bit_drop_bit)
  next
    case 3
    from serialize_more [OF 3(1)] serialize_more [of "drop_bit 7 n"] 3(2)
      serialize_1 [OF drop_bit_21 [of n]] show ?thesis
      by (intro that(3)) (simp_all add: d del: drop_bit_drop_bit)
  qed
qed

section \<open>Vectors\<close>

definition short_vec_serialize :: "'a enc \<Rightarrow> 'a list \<Rightarrow> bytes option" where
  "short_vec_serialize enc elements =
     (if length elements > 65535 then None
      else Some (short_u16_serialize (of_nat (length elements)) @ concat (map enc elements)))"

definition short_vec_deserialize :: "'a dec \<Rightarrow> 'a list dec" where
  "short_vec_deserialize dec bs =
     (case short_u16_deserialize bs of None \<Rightarrow> None
      | Some (short_len, r) \<Rightarrow> dec_n dec (unat short_len) r)"

section \<open>Round trips and bounds\<close>

lemma drop_bit_14: "drop_bit 14 n = drop_bit 7 (drop_bit 7 n)" for n :: u16
  by (simp add: drop_bit_drop_bit)

lemma seven_bit_groups_1: "drop_bit 7 n = 0 \<Longrightarrow> ucast (take_bit 7 n) = (ucast n :: u64)" for n :: u16
  using seven_bit_groups [of n] by (simp add: drop_bit_14 del: drop_bit_drop_bit)

lemma seven_bit_groups_2:
  "drop_bit 14 n = 0 \<Longrightarrow>
     ucast (take_bit 7 n) OR push_bit 7 (ucast (take_bit 7 (drop_bit 7 n))) = (ucast n :: u64)"
  for n :: u16
  using seven_bit_groups [of n] by simp

lemmas seven_bits = seven_bit_groups seven_bit_groups_2 or.assoc

lemma ucast_u16_u64 [simp]: "ucast (ucast n :: u64) = n" for n :: u16
  by (rule bit_word_eqI) (auto simp: bit_ucast_iff)

lemma short_u16_dec_enc: "short_u16_deserialize (short_u16_serialize n @ rest) = Some (n, rest)"
proof (cases n rule: serialize_cases)
  case 1
  then show ?thesis
    by (simp add: short_u16_deserialize_def numeral_3_eq_3 visit_byte_done seven_bit_groups_1)
qed (simp_all add: short_u16_deserialize_def numeral_3_eq_3 visit_byte_done visit_byte_more seven_bits)

lemma decode_len_enc:
  "decode_len (short_u16_serialize n @ rest) = Some (ucast n, length (short_u16_serialize n))"
proof (cases n rule: serialize_cases)
  case 1
  then show ?thesis by (simp add: decode_len_def visit_byte_done seven_bit_groups_1)
qed (simp_all add: decode_len_def visit_byte_done visit_byte_more seven_bits)

lemma length_short_u16: "1 \<le> length (short_u16_serialize n) \<and> length (short_u16_serialize n) \<le> 3"
  by (cases n rule: serialize_cases) simp_all

interpretation short_u16: codec short_u16_serialize short_u16_deserialize
  by unfold_locales (rule short_u16_dec_enc)

text \<open>
  Every \<open>u16\<close> survives the compact length encoding: it takes one to three bytes, the serde
  visitor and \<open>decode_len\<close> both give it back, and neither reads past it whatever follows.
\<close>

theorem short_u16_roundtrip:
  "short_u16_deserialize (short_u16_serialize n @ rest) = Some (n, rest)
   \<and> decode_len (short_u16_serialize n @ rest) = Some (ucast n, length (short_u16_serialize n))
   \<and> length (short_u16_serialize n) \<in> {1..3}"
  using short_u16.dec_enc [of n rest] decode_len_enc [of n rest] length_short_u16 [of n] by simp

text \<open>
  A vector of at most 65535 elements, whatever serialiser its elements use, is written with its
  compact length and read back with the bytes that follow it left over; a longer one is refused.
\<close>

theorem short_vec_roundtrip:
  assumes "codec enc dec"
  shows "case short_vec_serialize enc xs of
      None \<Rightarrow> 65535 < length xs
    | Some bs \<Rightarrow> length xs \<le> 65535 \<and> short_vec_deserialize dec (bs @ rest) = Some (xs, rest)"
proof (cases "length xs \<le> 65535")
  case True
  then have "unat (of_nat (length xs) :: u16) = length xs" by (simp add: unat_of_nat)
  with True show ?thesis
    by (simp add: short_vec_serialize_def short_vec_deserialize_def short_u16.dec_enc
        codec.dec_n_concat [OF assms])
qed (simp add: short_vec_serialize_def)

theorem short_vec_roundtrip_witness:
  "codec (enc_le 8 :: u64 enc) (dec_le 8) \<and>
   (case short_vec_serialize (enc_le 8) [7, 300 :: u64] of
      None \<Rightarrow> 65535 < length [7, 300 :: u64]
    | Some bs \<Rightarrow> length [7, 300 :: u64] \<le> 65535
        \<and> short_vec_deserialize (dec_le 8) (bs @ [9]) = Some ([7, 300 :: u64], [9]))"
  using short_vec_roundtrip [OF u64_codec.codec_axioms, of "[7, 300]" "[9]"] u64_codec.codec_axioms
  by blast

lemma visit_byte_result:
  "visit_byte e len sz = Done l s \<or> visit_byte e len sz = More l s \<Longrightarrow>
     sz < 3 \<and> s = Suc sz \<and> l = len OR push_bit (sz * 7) (take_bit 7 (ucast e))"
  by (auto simp: visit_byte_def and_7f Let_def split: if_splits)

lemma visit_len_bound:
  fixes len :: u64 and e :: u8
  assumes "sz < 3" and "take_bit (7 * sz) len = len"
  shows "take_bit (7 * Suc sz) (len OR push_bit (sz * 7) (take_bit 7 (ucast e))) =
    len OR push_bit (sz * 7) (take_bit 7 (ucast e))"
proof (rule bit_word_eqI)
  fix i
  have "bit len i \<Longrightarrow> i < 7 * sz"
    using assms(2) by (metis bit_take_bit_iff)
  then show "bit (take_bit (7 * Suc sz) (len OR push_bit (sz * 7) (take_bit 7 (ucast e)))) i =
      bit (len OR push_bit (sz * 7) (take_bit 7 (ucast e))) i"
    by (auto simp: visit_bits)
qed

lemma decode_len_loop_bounds:
  assumes "decode_len_loop len sz bs = Some (l, s)" and "take_bit (7 * sz) len = len"
  shows "sz < s \<and> s \<le> 3 \<and> s - sz \<le> length bs \<and> take_bit (7 * s) l = l"
  using assms
proof (induction len sz bs rule: decode_len_loop.induct)
  case (2 len sz b bs)
  show ?case
  proof (cases "visit_byte b len sz")
    case (Done l' s')
    with visit_byte_result [of b len sz l' s'] 2(2,3) visit_len_bound [of sz len b] show ?thesis
      by auto
  next
    case (More l' s')
    then have r: "sz < 3" "s' = Suc sz" "take_bit (7 * s') l' = l'"
      using visit_byte_result [of b len sz l' s'] visit_len_bound [of sz len b] 2(3) by auto
    with More 2(2) 2(1) [OF More] show ?thesis by auto
  qed (use 2(2) in auto)
qed simp

text \<open>
  \<open>decode_len\<close> never reports more bytes than it was given, nor more than three, and the
  length it returns fits 21 bits.
\<close>

theorem decode_len_bounds:
  assumes "decode_len bs = Some (len, sz)"
  shows "1 \<le> sz \<and> sz \<le> 3 \<and> sz \<le> length bs \<and> unat len < 2 ^ 21"
proof -
  have b: "0 < sz \<and> sz \<le> 3 \<and> sz - 0 \<le> length bs \<and> take_bit (7 * sz) len = len"
    by (rule decode_len_loop_bounds) (use assms in \<open>auto simp: decode_len_def\<close>)
  then have "unat len < 2 ^ (7 * sz)"
    by (metis take_bit_nat_less_exp unsigned_take_bit_eq)
  also have "(2::nat) ^ (7 * sz) \<le> 2 ^ 21" using b by (intro power_increasing) auto
  finally show ?thesis using b by auto
qed

theorem decode_len_bounds_witness:
  "decode_len [0xff, 0x01, 0x55] = Some (255, 2)
   \<and> 1 \<le> (2::nat) \<and> (2::nat) \<le> 3 \<and> 2 \<le> length [0xff, 0x01, 0x55 :: u8] \<and> unat (255 :: u64) < 2 ^ 21"
proof -
  have h: "decode_len [0xff, 0x01, 0x55] = Some (255, 2)"
    by (simp add: decode_len_def visit_byte_def)
  show ?thesis using h decode_len_bounds [OF h] by simp
qed

end
