(* ===== verification/EpochSchedule.thy ===== *)
theory EpochSchedule
  imports Prelude
begin

text \<open>
  The mapping between slots and epochs of \<open>sdk/program/src/epoch_schedule.rs\<close>: a schedule either
  has epochs of one length, or starts with a warm-up in which the epoch length doubles from 32 slots
  until it reaches the configured length. Slots and epochs are \<open>u64\<close>; the exponents are \<open>u32\<close>, as in
  the source.
\<close>

section \<open>Schedules\<close>

record epoch_schedule =
  slots_per_epoch :: u64
  leader_schedule_slot_offset :: u64
  warmup :: bool
  first_normal_epoch :: epoch
  first_normal_slot :: slot

definition MINIMUM_SLOTS_PER_EPOCH :: u64 where
  "MINIMUM_SLOTS_PER_EPOCH = 32"

text \<open>\<open>custom\<close> asserts a minimum epoch length: \<open>None\<close> is the failed assertion.\<close>

definition custom :: "u64 \<Rightarrow> u64 \<Rightarrow> bool \<Rightarrow> epoch_schedule option" where
  "custom spe offset wu =
     (if \<not> MINIMUM_SLOTS_PER_EPOCH \<le> spe then None
      else
        let (fne, fns) =
          (if wu then
             let npot = next_power_of_two spe;
                 log2_slots_per_epoch =
                   trailing_zeros npot - trailing_zeros MINIMUM_SLOTS_PER_EPOCH
             in (of_nat log2_slots_per_epoch, saturating_sub npot MINIMUM_SLOTS_PER_EPOCH)
           else (0, 0))
        in Some \<lparr>slots_per_epoch = spe, leader_schedule_slot_offset = offset, warmup = wu,
                 first_normal_epoch = fne, first_normal_slot = fns\<rparr>)"

definition new_schedule :: "u64 \<Rightarrow> epoch_schedule option" where
  "new_schedule spe = custom spe spe True"

definition get_slots_in_epoch :: "epoch_schedule \<Rightarrow> epoch \<Rightarrow> u64" where
  "get_slots_in_epoch s epoch =
     (if epoch < first_normal_epoch s
      then 2 ^ unat (ucast epoch + of_nat (trailing_zeros MINIMUM_SLOTS_PER_EPOCH) :: u32)
      else slots_per_epoch s)"

definition get_epoch_and_slot_index :: "epoch_schedule \<Rightarrow> slot \<Rightarrow> epoch \<times> u64" where
  "get_epoch_and_slot_index s slot =
     (if slot < first_normal_slot s then
        let epoch = of_nat (trailing_zeros (next_power_of_two (slot + MINIMUM_SLOTS_PER_EPOCH + 1)))
              - of_nat (trailing_zeros MINIMUM_SLOTS_PER_EPOCH) - 1 :: u32;
            epoch_len = 2 ^ unat (epoch + of_nat (trailing_zeros MINIMUM_SLOTS_PER_EPOCH)) :: u64
        in (ucast epoch, slot - (epoch_len - MINIMUM_SLOTS_PER_EPOCH))
      else
        (first_normal_epoch s + (slot - first_normal_slot s) div slots_per_epoch s,
         (slot - first_normal_slot s) mod slots_per_epoch s))"

definition get_epoch :: "epoch_schedule \<Rightarrow> slot \<Rightarrow> epoch" where
  "get_epoch s slot = fst (get_epoch_and_slot_index s slot)"

definition get_leader_schedule_epoch :: "epoch_schedule \<Rightarrow> slot \<Rightarrow> epoch" where
  "get_leader_schedule_epoch s slot =
     (if slot < first_normal_slot s then fst (get_epoch_and_slot_index s slot) + 1
      else first_normal_epoch s
        + (slot - first_normal_slot s + leader_schedule_slot_offset s) div slots_per_epoch s)"

definition get_first_slot_in_epoch :: "epoch_schedule \<Rightarrow> epoch \<Rightarrow> slot" where
  "get_first_slot_in_epoch s epoch =
     (if epoch \<le> first_normal_epoch s
      then (2 ^ unat (ucast epoch :: u32) - 1) * MINIMUM_SLOTS_PER_EPOCH
      else (epoch - first_normal_epoch s) * slots_per_epoch s + first_normal_slot s)"

definition get_last_slot_in_epoch :: "epoch_schedule \<Rightarrow> epoch \<Rightarrow> slot" where
  "get_last_slot_in_epoch s epoch =
     get_first_slot_in_epoch s epoch + get_slots_in_epoch s epoch - 1"

section \<open>Well-formed schedules\<close>

text \<open>
  The warm-up of a schedule ends at a power of two \<open>2 ^ k\<close>: the first normal epoch is number
  \<open>k - 5\<close> and starts at slot \<open>2 ^ k - 32\<close>.
\<close>

definition schedule_ok :: "epoch_schedule \<Rightarrow> bool" where
  "schedule_ok s \<longleftrightarrow> 32 \<le> slots_per_epoch s
     \<and> (\<exists>k\<in>{5..63}. first_normal_epoch s = of_nat (k - 5) \<and> first_normal_slot s = 2 ^ k - 32)"

lemma trailing_zeros_32 [simp]: "trailing_zeros 32 = 5"
  using trailing_zeros_power [of 5] by simp

lemma custom_ok:
  assumes "custom spe offset wu = Some s" and "spe \<le> 2 ^ 63"
  shows "schedule_ok s \<and> slots_per_epoch s = spe \<and> leader_schedule_slot_offset s = offset"
proof (cases wu)
  case True
  define k where "k = bit_length (unat spe - 1)"
  from assms have ge: "32 \<le> unat spe"
    by (auto simp: custom_def MINIMUM_SLOTS_PER_EPOCH_def word_le_nat_alt split: if_splits)
  have "unat spe \<le> 2 ^ 63" using assms(2) unat_power_two [of 63] by (simp add: word_le_nat_alt)
  then have k63: "k \<le> 63" unfolding k_def using ge by (intro bit_length_le) simp
  have "bit_length 31 \<le> k" unfolding k_def using ge by (intro bit_length_mono) simp
  moreover have "bit_length 31 = 5" by (simp add: bit_length_pos)
  ultimately have k5: "5 \<le> k" by simp
  then have "(2::nat) ^ 5 \<le> 2 ^ k" by (intro power_increasing) auto
  then have "(32 :: u64) \<le> 2 ^ k" using k63 by (simp add: word_le_nat_alt unat_power_two)
  moreover have "next_power_of_two spe = 2 ^ k" by (simp add: next_power_of_two_def k_def)
  moreover have "trailing_zeros (2 ^ k) = k" using k63 by (simp add: trailing_zeros_power)
  ultimately have "s = \<lparr>slots_per_epoch = spe, leader_schedule_slot_offset = offset, warmup = True,
      first_normal_epoch = of_nat (k - 5), first_normal_slot = 2 ^ k - 32\<rparr>"
    using True assms(1) by (simp add: custom_def saturating_sub_def MINIMUM_SLOTS_PER_EPOCH_def
        Let_def del: of_nat_diff split: if_splits)
  with ge k5 k63 show ?thesis by (auto simp: schedule_ok_def word_le_nat_alt)
next
  case False
  with assms(1) show ?thesis
    by (auto simp: custom_def schedule_ok_def MINIMUM_SLOTS_PER_EPOCH_def split: if_splits
        intro!: bexI [of _ 5])
qed

section \<open>Reading the operations on natural numbers\<close>

lemma schedule_okE:
  assumes "schedule_ok s"
  obtains k where "5 \<le> k" "k \<le> 63" "unat (first_normal_epoch s) = k - 5"
    "unat (first_normal_slot s) = 2 ^ k - 32" "32 \<le> unat (slots_per_epoch s)"
proof -
  from assms obtain k where k: "5 \<le> k" "k \<le> 63" "first_normal_epoch s = of_nat (k - 5)"
      "first_normal_slot s = 2 ^ k - 32" "32 \<le> slots_per_epoch s"
    by (auto simp: schedule_ok_def)
  have "(2::nat) ^ 5 \<le> 2 ^ k" using k(1) by (intro power_increasing) auto
  then have "(32 :: u64) \<le> 2 ^ k" using k(2) by (simp add: word_le_nat_alt unat_power_two)
  then have "unat (2 ^ k - 32 :: u64) = 2 ^ k - 32"
    using k(2) by (simp add: unat_sub_exact unat_power_two)
  moreover have "unat (of_nat (k - 5) :: u64) = k - 5"
    using k(2) by (subst unat_of_nat) simp
  ultimately show ?thesis using k by (intro that [of k]) (simp_all add: word_le_nat_alt)
qed

lemma unat_u32_of_nat: "n < 2 ^ 32 \<Longrightarrow> unat (of_nat n :: u32) = n"
  by (simp add: unat_of_nat)

lemma unat_ucast_u32: "unat e < 2 ^ 32 \<Longrightarrow> unat (ucast e :: u32) = unat e" for e :: u64
  by (simp add: unsigned_ucast_eq take_bit_nat_eq_self)

lemma unat_slots_in_warmup_epoch:
  assumes "epoch < first_normal_epoch s" and "unat (first_normal_epoch s) \<le> 58"
  shows "unat (get_slots_in_epoch s epoch) = 2 ^ (unat epoch + 5)"
proof -
  have e: "unat epoch < 58" using assms by (simp add: word_less_nat_alt)
  then have "unat (ucast epoch + 5 :: u32) = unat epoch + 5"
    using unat_ucast_u32 [of epoch] by (simp add: unat_add_exact)
  with e show ?thesis
    by (simp add: get_slots_in_epoch_def assms(1) MINIMUM_SLOTS_PER_EPOCH_def unat_power_two)
qed

lemma unat_first_slot_warmup:
  assumes "epoch \<le> first_normal_epoch s" and "unat (first_normal_epoch s) \<le> 58"
  shows "unat (get_first_slot_in_epoch s epoch) = 2 ^ (unat epoch + 5) - 32"
proof -
  have e: "unat epoch \<le> 58" using assms by (simp add: word_le_nat_alt)
  then have c: "unat (ucast epoch :: u32) = unat epoch"
    by (intro unat_ucast_u32) simp
  have one: "(1 :: u64) \<le> 2 ^ unat epoch"
    using e by (simp add: word_le_nat_alt unat_power_two)
  have m: "unat (2 ^ unat epoch - 1 :: u64) = 2 ^ unat epoch - 1"
    using e one by (simp add: unat_sub_exact unat_power_two)
  have "(2::nat) ^ unat epoch \<le> 2 ^ 58" using e by (intro power_increasing) auto
  then have "unat ((2 ^ unat epoch - 1) * 32 :: u64) = (2 ^ unat epoch - 1) * 32"
    using m by (subst unat_mult_exact) simp_all
  then show ?thesis
    by (simp add: get_first_slot_in_epoch_def assms(1) MINIMUM_SLOTS_PER_EPOCH_def c power_add
        diff_mult_distrib)
qed

lemma warmup_index:
  fixes slot :: slot
  assumes "slot < first_normal_slot s" and "unat (first_normal_slot s) = 2 ^ k - 32" and "k \<le> 63"
  defines "b \<equiv> bit_length (unat slot + 32)"
  shows "6 \<le> b" "b \<le> k" "2 ^ (b - 1) \<le> unat slot + 32" "unat slot + 32 < 2 ^ b"
    "unat (fst (get_epoch_and_slot_index s slot)) = b - 6"
    "unat (snd (get_epoch_and_slot_index s slot)) = unat slot + 32 - 2 ^ (b - 1)"
proof -
  have n: "unat slot + 32 < 2 ^ k" using assms(1,2) by (simp add: word_less_nat_alt)
  show b_upper: "unat slot + 32 < 2 ^ b" unfolding b_def by (rule bit_length_upper)
  show b_lower: "2 ^ (b - 1) \<le> unat slot + 32" unfolding b_def by (rule bit_length_lower) simp
  show b_k: "b \<le> k" unfolding b_def using n by (rule bit_length_le)
  have "bit_length 32 \<le> b" unfolding b_def by (rule bit_length_mono) simp
  then show b6: "6 \<le> b" by (simp add: bit_length_pos)
  have "(2::nat) ^ k \<le> 2 ^ 63" using assms(3) by (intro power_increasing) auto
  then have "unat (slot + 33) = unat slot + 33" using n by (simp add: unat_add_exact)
  then have np: "next_power_of_two (slot + 33) = 2 ^ b"
    by (simp add: next_power_of_two_def b_def add.commute)
  have tz: "trailing_zeros (2 ^ b) = b" using b_k assms(3) by (simp add: trailing_zeros_power)
  have ep: "(of_nat b - 5 - 1 :: u32) = of_nat (b - 6)" using b6 by simp
  have ep5: "(of_nat (b - 6) + 5 :: u32) = of_nat (b - 1)"
  proof -
    have "(of_nat (b - 6) + of_nat 5 :: u32) = of_nat (b - 6 + 5)" by (simp only: of_nat_add)
    also have "b - 6 + 5 = b - 1" using b6 by simp
    finally show ?thesis by simp
  qed
  have u1: "unat (of_nat (b - Suc 0) :: u32) = b - Suc 0" "unat (of_nat (b - 6) :: u32) = b - 6"
    using b_k assms(3) by (simp_all add: unat_u32_of_nat del: of_nat_diff)
  have len: "unat (2 ^ (b - 1) :: u64) = 2 ^ (b - 1)" using b_k b6 assms(3) by (simp add: unat_power_two)
  have "(2::nat) ^ 5 \<le> 2 ^ (b - 1)" using b6 by (intro power_increasing) auto
  then have "(32 :: u64) \<le> 2 ^ (b - 1)" using len by (simp add: word_le_nat_alt)
  then have len32: "unat (2 ^ (b - 1) - 32 :: u64) = 2 ^ (b - 1) - 32"
    using len by (simp add: unat_sub_exact)
  have idx: "get_epoch_and_slot_index s slot = (ucast (of_nat (b - 6) :: u32), slot - (2 ^ (b - 1) - 32))"
    using assms(1)
    by (simp add: get_epoch_and_slot_index_def MINIMUM_SLOTS_PER_EPOCH_def np tz ep ep5 u1 Let_def
        add.assoc del: of_nat_diff)
  show "unat (fst (get_epoch_and_slot_index s slot)) = b - 6"
    using u1(2) b_k assms(3)
    by (simp add: idx unsigned_ucast_eq take_bit_nat_eq_self_iff del: of_nat_diff)
  have "(2 ^ (b - 1) - 32 :: u64) \<le> slot" using b_lower len32 by (simp add: word_le_nat_alt)
  then show "unat (snd (get_epoch_and_slot_index s slot)) = unat slot + 32 - 2 ^ (b - 1)"
    using len32 \<open>(2::nat) ^ 5 \<le> 2 ^ (b - 1)\<close> b_lower by (simp add: idx unat_sub_exact)
qed

section \<open>Normal epochs\<close>

lemma normal_index:
  assumes "\<not> slot < first_normal_slot s" and "32 \<le> unat (slots_per_epoch s)"
    and "unat (first_normal_epoch s) \<le> 58"
  defines "d \<equiv> unat slot - unat (first_normal_slot s)" and "l \<equiv> unat (slots_per_epoch s)"
  shows "unat (fst (get_epoch_and_slot_index s slot)) = unat (first_normal_epoch s) + d div l"
    and "unat (snd (get_epoch_and_slot_index s slot)) = d mod l"
proof -
  have le: "first_normal_slot s \<le> slot" using assms(1) by simp
  have "d < 2 ^ 64" unfolding d_def using unat_lt2p_u64 [of slot] by (simp add: less_imp_diff_less)
  moreover have "d div l \<le> d div 32" unfolding l_def using assms(2) by (intro div_le_mono2) auto
  ultimately have q: "d div l < 2 ^ 59" by simp
  have dv: "unat ((slot - first_normal_slot s) div slots_per_epoch s) = d div l"
    using le by (simp add: unat_div unat_sub_exact d_def l_def)
  then have "unat (first_normal_epoch s + (slot - first_normal_slot s) div slots_per_epoch s)
      = unat (first_normal_epoch s) + d div l"
    using q assms(3) by (subst unat_add_exact) simp_all
  then show "unat (fst (get_epoch_and_slot_index s slot)) = unat (first_normal_epoch s) + d div l"
    using assms(1) by (simp add: get_epoch_and_slot_index_def)
  show "unat (snd (get_epoch_and_slot_index s slot)) = d mod l"
    using assms(1) le by (simp add: get_epoch_and_slot_index_def unat_mod unat_sub_exact d_def l_def)
qed

lemma unat_first_slot_normal:
  assumes "\<not> epoch \<le> first_normal_epoch s"
    and "(unat epoch - unat (first_normal_epoch s)) * unat (slots_per_epoch s)
           + unat (first_normal_slot s) < 2 ^ 64"
  shows "unat (get_first_slot_in_epoch s epoch) =
    (unat epoch - unat (first_normal_epoch s)) * unat (slots_per_epoch s) + unat (first_normal_slot s)"
proof -
  have d: "unat (epoch - first_normal_epoch s) = unat epoch - unat (first_normal_epoch s)"
    using assms(1) by (simp add: unat_sub_exact)
  then have m: "unat ((epoch - first_normal_epoch s) * slots_per_epoch s) =
      (unat epoch - unat (first_normal_epoch s)) * unat (slots_per_epoch s)"
    using assms(2) by (subst unat_mult_exact) simp_all
  show ?thesis using assms m by (simp add: get_first_slot_in_epoch_def unat_add_exact)
qed

section \<open>Slots and epochs determine each other\<close>

text \<open>
  (C40) For a schedule built by \<open>custom\<close> from an epoch length of at most 2^63, every slot lies in the
  epoch that \<open>get_epoch_and_slot_index\<close> reports: the first slot of that epoch plus the reported
  index is the slot again, and the index is smaller than the number of slots of that epoch, in the
  warm-up and after it, with no overflow for any \<open>u64\<close> slot.
\<close>

theorem epoch_and_index_roundtrip:
  assumes "custom spe offset wu = Some s" and "spe \<le> 2 ^ 63"
    and "get_epoch_and_slot_index s slot = (epoch, index)"
  shows "get_first_slot_in_epoch s epoch + index = slot \<and> index < get_slots_in_epoch s epoch"
proof -
  from assms have "schedule_ok s" by (simp add: custom_ok)
  then obtain k where k: "5 \<le> k" "k \<le> 63" "unat (first_normal_epoch s) = k - 5"
      "unat (first_normal_slot s) = 2 ^ k - 32" "32 \<le> unat (slots_per_epoch s)"
    by (rule schedule_okE)
  show ?thesis
  proof (cases "slot < first_normal_slot s")
    case True
    define b where "b = bit_length (unat slot + 32)"
    note w = warmup_index [OF True k(4) k(2), folded b_def]
    from w(5,6) assms(3) have e: "unat epoch = b - 6" and i: "unat index = unat slot + 32 - 2 ^ (b - 1)"
      by simp_all
    have lt: "epoch < first_normal_epoch s" using e k w(1,2) by (simp add: word_less_nat_alt)
    have b1: "b - 6 + 5 = b - 1" using w(1) by simp
    have f: "unat (get_first_slot_in_epoch s epoch) = 2 ^ (b - 1) - 32"
      using unat_first_slot_warmup [of epoch s] lt k(2,3) e b1 by simp
    have sl: "unat (get_slots_in_epoch s epoch) = 2 ^ (b - 1)"
      using unat_slots_in_warmup_epoch [OF lt] k(2,3) e b1 by simp
    have "(2::nat) ^ 5 \<le> 2 ^ (b - 1)" using w(1) by (intro power_increasing) auto
    then have "unat (get_first_slot_in_epoch s epoch) + unat index = unat slot"
      using f i w(3) by simp
    moreover have "unat index < 2 ^ (b - 1)"
    proof -
      have "(2::nat) ^ b = 2 * 2 ^ (b - 1)" using w(1) by (cases b) auto
      then show ?thesis using i w(3,4) by linarith
    qed
    ultimately show ?thesis
      by (simp add: sl word_less_nat_alt word_unat_eq_iff unat_add_exact)
  next
    case False
    define d where "d = unat slot - unat (first_normal_slot s)"
    define l where "l = unat (slots_per_epoch s)"
    note n = normal_index [OF False k(5), folded d_def l_def]
    have e: "unat epoch = unat (first_normal_epoch s) + d div l" and i: "unat index = d mod l"
      using n k(2,3) assms(3) by simp_all
    have le: "d div l * l + unat (first_normal_slot s) \<le> unat slot"
    proof -
      have "d div l * l \<le> d" by simp
      moreover have "d + unat (first_normal_slot s) = unat slot"
        using False by (simp add: d_def word_less_nat_alt)
      ultimately show ?thesis by linarith
    qed
    have sum: "d div l * l + unat (first_normal_slot s) + d mod l = unat slot"
      using False by (simp add: d_def word_less_nat_alt)
    have f: "unat (get_first_slot_in_epoch s epoch) = d div l * l + unat (first_normal_slot s)"
    proof (cases "epoch \<le> first_normal_epoch s")
      case True
      then have z: "d div l = 0" using e by (simp add: word_le_nat_alt)
      have "unat epoch + 5 = k" using z e k(1,3) by simp
      with unat_first_slot_warmup [OF True] z k(2,3,4) show ?thesis by simp
    next
      case False
      with unat_first_slot_normal [of epoch s] e le_less_trans [OF le unat_lt2p_u64] show ?thesis
        by (simp add: l_def)
    qed
    have "\<not> epoch < first_normal_epoch s" using e by (simp add: word_less_nat_alt)
    then have "get_slots_in_epoch s epoch = slots_per_epoch s" by (simp add: get_slots_in_epoch_def)
    moreover have "d mod l < l" using k(5) by (simp add: l_def)
    ultimately show ?thesis
      using f i sum by (simp add: word_less_nat_alt word_unat_eq_iff unat_add_exact l_def)
  qed
qed

lemmas schedule_eval = custom_def get_epoch_and_slot_index_def next_power_of_two_def
  trailing_zeros_def trailing_zeros_nat.simps bit_length_pos saturating_sub_def
  MINIMUM_SLOTS_PER_EPOCH_def

theorem epoch_and_index_roundtrip_witness:
  "\<exists>s. custom 8192 8192 True = Some s \<and> (8192::u64) \<le> 2 ^ 63
     \<and> get_epoch_and_slot_index s 100 = (2, 4)
     \<and> get_first_slot_in_epoch s 2 + 4 = 100 \<and> 4 < get_slots_in_epoch s 2"
proof -
  have c: "custom 8192 8192 True = Some \<lparr>slots_per_epoch = 8192, leader_schedule_slot_offset = 8192,
      warmup = True, first_normal_epoch = 8, first_normal_slot = 8160\<rparr>"
    by (simp add: schedule_eval)
  have le: "(8192::u64) \<le> 2 ^ 63" by simp
  have i: "get_epoch_and_slot_index \<lparr>slots_per_epoch = 8192, leader_schedule_slot_offset = 8192,
      warmup = True, first_normal_epoch = 8, first_normal_slot = 8160\<rparr> 100 = (2, 4)"
    by (simp add: schedule_eval)
  from c le i epoch_and_index_roundtrip [OF c le i] show ?thesis by blast
qed

text \<open>
  With the default offset (\<open>EpochSchedule::new\<close>: one whole epoch), the leader schedule that is
  fixed at a slot is that of the next epoch, in the warm-up and after it.
\<close>

theorem leader_schedule_is_next_epoch:
  assumes "new_schedule spe = Some s" and "spe \<le> 2 ^ 63" and "unat slot + unat spe < 2 ^ 64"
  shows "get_leader_schedule_epoch s slot = get_epoch s slot + 1"
proof (cases "slot < first_normal_slot s")
  case True
  then show ?thesis by (simp add: get_leader_schedule_epoch_def get_epoch_def)
next
  case False
  from assms have ok: "schedule_ok s" "slots_per_epoch s = spe" "leader_schedule_slot_offset s = spe"
    by (simp_all add: new_schedule_def custom_ok)
  define d where "d = slot - first_normal_slot s"
  have spe: "0 < unat spe" using ok by (auto elim: schedule_okE)
  have "unat d \<le> unat slot" unfolding d_def using False by (simp add: unat_sub_exact)
  then have "unat (d + spe) = unat d + unat spe" using assms(3) by (simp add: unat_add_exact)
  then have "unat ((d + spe) div spe) = unat d div unat spe + 1"
    using spe by (simp add: unat_div div_add_self2)
  moreover have "unat (d div spe + 1) = unat d div unat spe + 1"
  proof -
    have "unat d div unat spe < 2 ^ 63"
    proof -
      from ok have "32 \<le> unat (slots_per_epoch s)" by (auto elim: schedule_okE)
      then have "unat d div unat spe \<le> unat d div 32" using ok(2) by (intro div_le_mono2) auto
      also have "unat d div 32 < 2 ^ 63"
        by (rule less_mult_imp_div_less) (rule order.strict_trans2 [OF unat_lt2p_u64], simp)
      finally show ?thesis .
    qed
    then show ?thesis by (subst unat_add_exact) (simp_all add: unat_div)
  qed
  ultimately have "(d + spe) div spe = d div spe + 1" by (simp add: word_unat_eq_iff)
  with False ok show ?thesis
    by (simp add: get_leader_schedule_epoch_def get_epoch_def get_epoch_and_slot_index_def
        d_def [symmetric])
qed

theorem leader_schedule_is_next_epoch_witness:
  "\<exists>s. new_schedule 64 = Some s \<and> (64::u64) \<le> 2 ^ 63 \<and> unat (1000::u64) + unat (64::u64) < 2 ^ 64
     \<and> get_leader_schedule_epoch s 1000 = get_epoch s 1000 + 1"
proof -
  have c: "new_schedule 64 = Some \<lparr>slots_per_epoch = 64, leader_schedule_slot_offset = 64,
      warmup = True, first_normal_epoch = 1, first_normal_slot = 32\<rparr>"
    by (simp add: new_schedule_def schedule_eval)
  have le: "(64::u64) \<le> 2 ^ 63" and n: "unat (1000::u64) + unat (64::u64) < 2 ^ 64" by simp_all
  from c le n leader_schedule_is_next_epoch [OF c le n] show ?thesis by blast
qed

end
