(* ===== verification/F64.thy ===== *)
theory F64
  imports Complex_Main Prelude
begin

text \<open>
  The double-precision arithmetic the sources use: a finite value is the rational it denotes, every
  operation rounds the exact result to the nearest representable one (ties to even, 53 significant
  bits, subnormals down to 2^-1074, overflow to infinity), and a cast to \<open>u64\<close> truncates and
  saturates, a NaN giving 0. The sign of a zero is not kept: no operation used here depends on it.
\<close>

datatype f64 = Fin rat | PosInf | NegInf | NaN

definition pow2 :: "int \<Rightarrow> rat" where
  "pow2 q = (if 0 \<le> q then 2 ^ nat q else 1 / 2 ^ nat (- q))"

text \<open>The exponent \<open>e\<close> of a positive rational: \<open>2 ^ e \<le> x < 2 ^ (e + 1)\<close>.\<close>

definition exponent :: "rat \<Rightarrow> int" where
  "exponent x = (if 1 \<le> x then int (bit_length (nat \<lfloor>x\<rfloor>)) - 1
                 else - int (bit_length (nat (\<lceil>1 / x\<rceil> - 1))))"

definition round_half_even :: "rat \<Rightarrow> int" where
  "round_half_even z =
     (let f = \<lfloor>z\<rfloor>; d = z - of_int f
      in if d < 1 / 2 then f else if 1 / 2 < d then f + 1 else if even f then f else f + 1)"

definition rnd :: "rat \<Rightarrow> f64" where
  "rnd x =
     (if x = 0 then Fin 0
      else let q = max (exponent \<bar>x\<bar> - 52) (-1074);
               r = of_int (round_half_even (\<bar>x\<bar> / pow2 q)) * pow2 q
           in if 2 ^ 1024 \<le> r then (if 0 < x then PosInf else NegInf) else Fin (sgn x * r))"

definition f64_of_nat :: "nat \<Rightarrow> f64" where
  "f64_of_nat n = rnd (of_nat n)"

definition f64_of_u64 :: "u64 \<Rightarrow> f64" where
  "f64_of_u64 w = f64_of_nat (unat w)"

fun f64_neg :: "f64 \<Rightarrow> f64" where
  "f64_neg (Fin x) = Fin (- x)"
| "f64_neg PosInf = NegInf"
| "f64_neg NegInf = PosInf"
| "f64_neg NaN = NaN"

fun f64_inf_times :: "rat \<Rightarrow> f64" where
  "f64_inf_times x = (if 0 < x then PosInf else if x < 0 then NegInf else NaN)"

fun f64_mult :: "f64 \<Rightarrow> f64 \<Rightarrow> f64" where
  "f64_mult (Fin x) (Fin y) = rnd (x * y)"
| "f64_mult NaN _ = NaN"
| "f64_mult _ NaN = NaN"
| "f64_mult PosInf (Fin y) = f64_inf_times y"
| "f64_mult NegInf (Fin y) = f64_neg (f64_inf_times y)"
| "f64_mult (Fin x) PosInf = f64_inf_times x"
| "f64_mult (Fin x) NegInf = f64_neg (f64_inf_times x)"
| "f64_mult PosInf PosInf = PosInf"
| "f64_mult NegInf NegInf = PosInf"
| "f64_mult PosInf NegInf = NegInf"
| "f64_mult NegInf PosInf = NegInf"

text \<open>Division; a zero divisor is the positive zero, as it comes from an unsigned integer.\<close>

fun f64_div :: "f64 \<Rightarrow> f64 \<Rightarrow> f64" where
  "f64_div (Fin x) (Fin y) = (if y = 0 then f64_inf_times x else rnd (x / y))"
| "f64_div NaN _ = NaN"
| "f64_div _ NaN = NaN"
| "f64_div PosInf (Fin y) = (if y < 0 then NegInf else PosInf)"
| "f64_div NegInf (Fin y) = (if y < 0 then PosInf else NegInf)"
| "f64_div (Fin x) _ = Fin 0"
| "f64_div _ _ = NaN"

fun f64_sub :: "f64 \<Rightarrow> f64 \<Rightarrow> f64" where
  "f64_sub (Fin x) (Fin y) = rnd (x - y)"
| "f64_sub NaN _ = NaN"
| "f64_sub _ NaN = NaN"
| "f64_sub (Fin x) PosInf = NegInf"
| "f64_sub (Fin x) NegInf = PosInf"
| "f64_sub PosInf (Fin y) = PosInf"
| "f64_sub NegInf (Fin y) = NegInf"
| "f64_sub PosInf NegInf = PosInf"
| "f64_sub NegInf PosInf = NegInf"
| "f64_sub PosInf PosInf = NaN"
| "f64_sub NegInf NegInf = NaN"

fun f64_abs :: "f64 \<Rightarrow> f64" where
  "f64_abs (Fin x) = Fin \<bar>x\<bar>"
| "f64_abs NaN = NaN"
| "f64_abs _ = PosInf"

text \<open>Comparison with a NaN is false.\<close>

fun f64_less :: "f64 \<Rightarrow> f64 \<Rightarrow> bool" where
  "f64_less (Fin x) (Fin y) \<longleftrightarrow> x < y"
| "f64_less (Fin x) PosInf \<longleftrightarrow> True"
| "f64_less NegInf (Fin y) \<longleftrightarrow> True"
| "f64_less NegInf PosInf \<longleftrightarrow> True"
| "f64_less _ _ \<longleftrightarrow> False"

definition f64_EPSILON :: f64 where
  "f64_EPSILON = Fin (1 / 2 ^ 52)"

definition u64_of_f64 :: "f64 \<Rightarrow> u64" where
  "u64_of_f64 v =
     (case v of
        NaN \<Rightarrow> 0
      | NegInf \<Rightarrow> 0
      | PosInf \<Rightarrow> - 1
      | Fin x \<Rightarrow> if x \<le> 0 then 0 else if 2 ^ 64 \<le> x then - 1 else of_nat (nat \<lfloor>x\<rfloor>))"

section \<open>Exact results\<close>

lemma pow2_pos [simp]: "0 < pow2 q"
  by (simp add: pow2_def)

lemma exponent_of_nat: "0 < n \<Longrightarrow> exponent (of_nat n) = int (bit_length n) - 1"
  by (simp add: exponent_def)

lemma round_half_even_of_int [simp]: "round_half_even (of_int z) = z"
  by (simp add: round_half_even_def)

text \<open>Integers below 2^53 are represented exactly.\<close>

lemma rnd_of_nat: "n < 2 ^ 53 \<Longrightarrow> rnd (of_nat n) = Fin (of_nat n)"
proof (cases "n = 0")
  case False
  assume n: "n < 2 ^ 53"
  define b where "b = bit_length n"
  have b: "b \<le> 53" unfolding b_def using n by (rule bit_length_le)
  define q where "q = max (exponent (of_nat n) - 52) (-1074)"
  have "q = - int (53 - b)"
    using False b by (simp add: q_def exponent_of_nat b_def [symmetric])
  then have q: "pow2 q = 1 / 2 ^ (53 - b)"
    using b by (cases "b = 53") (simp_all add: pow2_def nat_diff_distrib)
  then have "(of_nat n :: rat) / pow2 q = of_int (int n * 2 ^ (53 - b))"
    by simp
  then have "of_int (round_half_even (of_nat n / pow2 q)) * pow2 q = of_nat n"
    by (simp only: round_half_even_of_int) (simp add: q)
  moreover have "(of_nat n :: rat) < 2 ^ 1024"
  proof -
    have "(of_nat n :: rat) < of_nat (2 ^ 53)" using n by (simp only: of_nat_less_iff)
    also have "\<dots> \<le> 2 ^ 1024" by simp
    finally show ?thesis .
  qed
  ultimately show ?thesis
    using False by (simp add: rnd_def q_def [symmetric] Let_def)
qed (simp add: rnd_def)

lemma f64_of_u64_exact: "unat w < 2 ^ 53 \<Longrightarrow> f64_of_u64 w = Fin (of_nat (unat w))"
  using rnd_of_nat [of "unat w"] by (simp add: f64_of_u64_def f64_of_nat_def)

lemma u64_of_f64_exact: "n < 2 ^ 64 \<Longrightarrow> u64_of_f64 (Fin (of_nat n)) = of_nat n"
proof -
  assume "n < 2 ^ 64"
  then have "(of_nat n :: rat) < of_nat (2 ^ 64)" by (simp only: of_nat_less_iff)
  then show ?thesis by (simp add: u64_of_f64_def)
qed

end
