(* ===== verification/Rent.thy ===== *)
theory Rent
  imports F64
begin

text \<open>
  Network rent (\<open>sdk/program/src/rent.rs\<close>): the minimum balance that exempts an account of a given
  size, the rent due, and the split of collected rent into a burned and a kept part.
\<close>

section \<open>Definitions\<close>

record rent =
  lamports_per_byte_year :: u64
  exemption_threshold :: f64
  rent_burn_percent :: u8

definition DEFAULT_LAMPORTS_PER_BYTE_YEAR :: u64 where
  "DEFAULT_LAMPORTS_PER_BYTE_YEAR = 1000000000 div 100 * 365 div (1024 * 1024)"

definition DEFAULT_EXEMPTION_THRESHOLD :: f64 where
  "DEFAULT_EXEMPTION_THRESHOLD = Fin 2"

definition DEFAULT_RENT_BURN_PERCENT :: u8 where
  "DEFAULT_RENT_BURN_PERCENT = 100"

definition ACCOUNT_STORAGE_OVERHEAD :: u64 where
  "ACCOUNT_STORAGE_OVERHEAD = 128"

definition default_rent :: rent where
  "default_rent =
     \<lparr>lamports_per_byte_year = DEFAULT_LAMPORTS_PER_BYTE_YEAR,
      exemption_threshold = DEFAULT_EXEMPTION_THRESHOLD,
      rent_burn_percent = DEFAULT_RENT_BURN_PERCENT\<rparr>"

definition calculate_burn :: "rent \<Rightarrow> u64 \<Rightarrow> u64 \<times> u64" where
  "calculate_burn r rent_collected =
     (let burned_portion = rent_collected * ucast (rent_burn_percent r) div 100
      in (burned_portion, rent_collected - burned_portion))"

definition minimum_balance :: "rent \<Rightarrow> nat \<Rightarrow> u64" where
  "minimum_balance r data_len =
     u64_of_f64
       (f64_mult
         (f64_of_u64 ((ACCOUNT_STORAGE_OVERHEAD + of_nat data_len) * lamports_per_byte_year r))
         (exemption_threshold r))"

definition is_exempt :: "rent \<Rightarrow> u64 \<Rightarrow> nat \<Rightarrow> bool" where
  "is_exempt r balance data_len \<longleftrightarrow> minimum_balance r data_len \<le> balance"

definition due :: "rent \<Rightarrow> u64 \<Rightarrow> nat \<Rightarrow> f64 \<Rightarrow> u64 \<times> bool" where
  "due r balance data_len years_elapsed =
     (if is_exempt r balance data_len then (0, True)
      else
        (u64_of_f64
          (f64_mult
            (f64_of_u64 (lamports_per_byte_year r * (of_nat data_len + ACCOUNT_STORAGE_OVERHEAD)))
            years_elapsed),
         False))"

definition free_rent :: rent where
  "free_rent = default_rent\<lparr>lamports_per_byte_year := 0\<rparr>"

section \<open>Properties\<close>

lemma DEFAULT_LAMPORTS_PER_BYTE_YEAR_value: "DEFAULT_LAMPORTS_PER_BYTE_YEAR = 3480"
  by (simp add: DEFAULT_LAMPORTS_PER_BYTE_YEAR_def)

lemma f64_exact_product:
  assumes "m * k < 2 ^ 53" and "unat w = m"  and "0 < k"
  shows "u64_of_f64 (f64_mult (f64_of_u64 w) (Fin (of_nat k))) = of_nat (m * k)"
proof -
  have "m \<le> m * k" using assms(3) by simp
  also note assms(1)
  finally have "m < 2 ^ 53" .
  then have "f64_of_u64 w = Fin (of_nat m)" using f64_of_u64_exact [of w] assms(2) by simp
  moreover have "rnd (of_nat (m * k)) = Fin (of_nat (m * k))" by (rule rnd_of_nat [OF assms(1)])
  moreover have "u64_of_f64 (Fin (of_nat (m * k))) = of_nat (m * k)"
    by (rule u64_of_f64_exact) (use assms(1) in simp)
  ultimately show ?thesis by simp
qed

lemma unat_storage_cost:
  assumes "(128 + n) * unat p < 2 ^ 64" and "n < 2 ^ 63"
  shows "unat ((ACCOUNT_STORAGE_OVERHEAD + of_nat n) * p) = (128 + n) * unat p"
proof -
  have "unat (of_nat n :: u64) = n" using assms(2) by (simp add: unat_of_nat)
  then have "unat (ACCOUNT_STORAGE_OVERHEAD + of_nat n) = 128 + n"
    using assms(2) by (subst unat_add_exact) (simp_all add: ACCOUNT_STORAGE_OVERHEAD_def)
  with assms(1) show ?thesis by (subst unat_mult_exact) simp_all
qed

text \<open>
  With an exemption threshold of a whole number of years, the minimum balance is exactly the
  price of that many years for the account's size plus the overhead, as long as the product stays
  below 2^53; the balance it asks for is exempt, and one lamport less is not.
\<close>

theorem minimum_balance_exact:
  assumes "exemption_threshold r = Fin (of_nat years)" and "0 < years"
    and "(128 + n) * unat (lamports_per_byte_year r) * years < 2 ^ 53" and "n < 2 ^ 63"
  shows "unat (minimum_balance r n) = (128 + n) * unat (lamports_per_byte_year r) * years \<and>
    (is_exempt r b n \<longleftrightarrow> (128 + n) * unat (lamports_per_byte_year r) * years \<le> unat b)"
proof -
  let ?p = "(128 + n) * unat (lamports_per_byte_year r)"
  have "?p \<le> ?p * years" using assms(2) by simp
  also note assms(3)
  also have "(2 :: nat) ^ 53 < 2 ^ 64" by simp
  finally have "?p < 2 ^ 64" .
  then have "unat ((ACCOUNT_STORAGE_OVERHEAD + of_nat n) * lamports_per_byte_year r) = ?p"
    using assms(4) by (rule unat_storage_cost)
  with assms have "minimum_balance r n = of_nat (?p * years)"
    unfolding minimum_balance_def assms(1) by (intro f64_exact_product) simp_all
  moreover have "unat (of_nat (?p * years) :: u64) = ?p * years"
    using assms(3) by (subst unat_of_nat) simp
  ultimately have eq: "unat (minimum_balance r n) = ?p * years" by simp
  then show "unat (minimum_balance r n) = ?p * years \<and> (is_exempt r b n \<longleftrightarrow> ?p * years \<le> unat b)"
    by (simp only: is_exempt_def word_le_nat_alt)
qed

theorem minimum_balance_exact_witness:
  "unat (minimum_balance default_rent 165) = 2039280 \<and> \<not> is_exempt default_rent 2039279 165"
  using minimum_balance_exact [of default_rent 2 165 2039279]
  by (simp add: default_rent_def DEFAULT_EXEMPTION_THRESHOLD_def
    DEFAULT_LAMPORTS_PER_BYTE_YEAR_value)

lemma calculate_burn_split:
  assumes "unat collected * unat (rent_burn_percent r) < 2 ^ 64" and "rent_burn_percent r \<le> 100"
    and "calculate_burn r collected = (burned, kept)"
  shows "unat kept + unat burned = unat collected"
    and "unat burned = unat collected * unat (rent_burn_percent r) div 100"
  using assms percent_split [of collected "rent_burn_percent r"]
  by (auto simp: calculate_burn_def Let_def)

end
