(* ===== verification/Accounts.thy ===== *)
theory Accounts
  imports Codec
begin

text \<open>
  Accounts as programs see them (\<open>sdk/src/account.rs\<close>, \<open>account_utils.rs\<close>, \<open>keyed_account.rs\<close>,
  \<open>program_utils.rs\<close>, \<open>sdk/program/src/instruction.rs\<close>). Every \<open>RefCell<Account>\<close> is a reference
  into a store, so two keyed accounts may share one account. A program is a function from the store
  to a failure or the updated store: the bank drops every change of a failed transaction. A borrow
  of a \<open>RefCell\<close> fails only while a mutable borrow of the same cell is live; a definition that holds
  one while it takes another compares the references. The group \<open>lamport_simps\<close> and the lemmas on
  \<open>total_lamports\<close> carry the conservation proofs of the programs.
\<close>

section \<open>Data\<close>

record account =
  lamports :: u64
  data :: bytes
  owner :: pubkey
  executable :: bool
  rent_epoch :: epoch

record keyed_account =
  is_signer :: bool
  is_writable :: bool
  key :: pubkey
  acct :: nat

type_synonym store = "nat \<Rightarrow> account"

datatype instruction_error =
    GenericError
  | InvalidArgument
  | InvalidInstructionData
  | InvalidAccountData
  | AccountDataTooSmall
  | InsufficientFunds
  | IncorrectProgramId
  | MissingRequiredSignature
  | AccountAlreadyInitialized
  | UninitializedAccount
  | UnbalancedInstruction
  | ModifiedProgramId
  | ExternalAccountLamportSpend
  | ExternalAccountDataModified
  | ReadonlyLamportChange
  | ReadonlyDataModified
  | DuplicateAccountIndex
  | ExecutableModified
  | RentEpochModified
  | NotEnoughAccountKeys
  | AccountDataSizeChanged
  | AccountNotExecutable
  | AccountBorrowFailed
  | AccountBorrowOutstanding
  | DuplicateAccountOutOfSync
  | Custom u32
  | InvalidError
  | ExecutableDataModified
  | ExecutableLamportChange
  | ExecutableAccountNotRentExempt
  | UnsupportedProgramId
  | CallDepth
  | MissingAccount
  | ReentrancyNotAllowed
  | MaxSeedLengthExceeded
  | InvalidSeeds
  | InvalidRealloc
  | ComputationalBudgetExceeded
  | PrivilegeEscalation
  | ProgramEnvironmentSetupFailure
  | ProgramFailedToComplete
  | ProgramFailedToCompile
  | Immutable
  | IncorrectAuthority

type_synonym 'a program_result = "(instruction_error, 'a) outcome"

definition default_account :: account where
  "default_account =
     \<lparr>lamports = 0, data = [], owner = 0, executable = False, rent_epoch = 0\<rparr>"

definition new_account :: "u64 \<Rightarrow> nat \<Rightarrow> pubkey \<Rightarrow> account" where
  "new_account amount space own =
     default_account\<lparr>lamports := amount, data := replicate space 0, owner := own\<rparr>"

section \<open>Account state\<close>

definition deserialize_data :: "'a serde \<Rightarrow> account \<Rightarrow> 'a option" where
  "deserialize_data C a = map_option fst (de C (data a))"

definition serialize_data :: "'a serde \<Rightarrow> 'a \<Rightarrow> account \<Rightarrow> account option" where
  "serialize_data C x a =
     (if length (data a) < length (ser C x) then None
      else Some (a\<lparr>data := ser C x @ drop (length (ser C x)) (data a)\<rparr>))"

definition get_state :: "'a serde \<Rightarrow> account \<Rightarrow> 'a program_result" where
  "get_state C a = ok_or (deserialize_data C a) (Err InvalidAccountData)"

definition set_state :: "'a serde \<Rightarrow> 'a \<Rightarrow> account \<Rightarrow> account program_result" where
  "set_state C x a = ok_or (serialize_data C x a) (Err AccountDataTooSmall)"

definition from_account :: "'a serde \<Rightarrow> account \<Rightarrow> 'a option" where
  "from_account C a = map_option fst (de C (data a))"

section \<open>Keyed accounts\<close>

definition signer_key :: "keyed_account \<Rightarrow> pubkey option" where
  "signer_key k = (if is_signer k then Some (key k) else None)"

definition get_signers :: "keyed_account list \<Rightarrow> pubkey set" where
  "get_signers ks = set (List.map_filter signer_key ks)"

definition next_keyed_account ::
  "keyed_account list \<Rightarrow> (keyed_account \<times> keyed_account list) program_result" where
  "next_keyed_account ks =
     (case ks of [] \<Rightarrow> Inl (Err NotEnoughAccountKeys) | k # ks' \<Rightarrow> Inr (k, ks'))"

definition keyed_state :: "'a serde \<Rightarrow> store \<Rightarrow> keyed_account \<Rightarrow> 'a program_result" where
  "keyed_state C s k = get_state C (s (acct k))"

definition keyed_set_state :: "'a serde \<Rightarrow> keyed_account \<Rightarrow> 'a \<Rightarrow> store \<Rightarrow> store program_result" where
  "keyed_set_state C k x s =
     and_then (set_state C x (s (acct k))) (\<lambda>a. Inr (s(acct k := a)))"

text \<open>A sysvar is read from an account only when the account's key is the sysvar's id.\<close>

definition from_keyed_account :: "pubkey \<Rightarrow> 'a serde \<Rightarrow> store \<Rightarrow> keyed_account \<Rightarrow> 'a program_result" where
  "from_keyed_account sysvar_id C s k =
     (if key k \<noteq> sysvar_id then Inl (Err InvalidArgument)
      else ok_or (from_account C (s (acct k))) (Err InvalidArgument))"

definition PACKET_DATA_SIZE :: nat where
  "PACKET_DATA_SIZE = 1280 - 40 - 8"

definition limited_deserialize :: "'a serde \<Rightarrow> bytes \<Rightarrow> 'a program_result" where
  "limited_deserialize C bs =
     (case de C bs of
        None \<Rightarrow> Inl (Err InvalidInstructionData)
      | Some (x, rest) \<Rightarrow>
          if length bs - length rest \<le> PACKET_DATA_SIZE then Inr x
          else Inl (Err InvalidInstructionData))"

lemma limited_deserialize_ser:
  assumes "codec (ser C) (de C)" and "length (ser C x) \<le> PACKET_DATA_SIZE"
  shows "limited_deserialize C (ser C x) = Inr x"
  using assms(2) by (simp add: limited_deserialize_def codec.dec_enc_exact [OF assms(1)])

definition debit :: "nat \<Rightarrow> u64 \<Rightarrow> store \<Rightarrow> store" where
  "debit r amount s = s(r := (s r)\<lparr>lamports := lamports (s r) - amount\<rparr>)"

definition credit :: "nat \<Rightarrow> u64 \<Rightarrow> store \<Rightarrow> store" where
  "credit r amount s = s(r := (s r)\<lparr>lamports := lamports (s r) + amount\<rparr>)"

section \<open>State read and written back\<close>

lemma get_set_state:
  assumes "serde_ok C" and "set_state C x a = Inr a'"
  shows "get_state C a' = Inr x"
  using assms(2) by (auto simp: set_state_def serialize_data_def get_state_def ok_or_def
    deserialize_data_def codec.dec_enc [OF assms(1)] split: if_splits)

lemma set_state_keeps:
  assumes "set_state C x a = Inr a'"
  shows "lamports a' = lamports a" "owner a' = owner a" "length (data a') = length (data a)"
    "executable a' = executable a" "rent_epoch a' = rent_epoch a"
  using assms by (auto simp: set_state_def serialize_data_def ok_or_def split: if_splits)

lemma set_state_iff:
  "(\<exists>a'. set_state C x a = Inr a') \<longleftrightarrow> length (ser C x) \<le> length (data a)"
  by (auto simp: set_state_def serialize_data_def ok_or_def)

lemma set_state_idem:
  assumes "set_state C x a = Inr a'"
  shows "set_state C x a' = Inr a'"
  using assms by (auto simp: set_state_def serialize_data_def ok_or_def split: if_splits)

text \<open>
  The contract the programs rely on: what is written to a keyed account is read back from it, and
  nothing but that account's data changes.
\<close>

locale account_state =
  fixes rd :: "store \<Rightarrow> keyed_account \<Rightarrow> 'a program_result"
    and wr :: "keyed_account \<Rightarrow> 'a \<Rightarrow> store \<Rightarrow> store program_result"
  assumes rd_wr: "wr k x s = Inr s' \<Longrightarrow> acct j = acct k \<Longrightarrow> rd s' j = Inr x"
    and rd_local: "s (acct k) = s' (acct k) \<Longrightarrow> rd s k = rd s' k"
    and wr_frame: "wr k x s = Inr s' \<Longrightarrow> r \<noteq> acct k \<Longrightarrow> s' r = s r"
    and wr_keeps: "wr k x s = Inr s' \<Longrightarrow>
      lamports (s' r) = lamports (s r) \<and> owner (s' r) = owner (s r) \<and>
      length (data (s' r)) = length (data (s r)) \<and> executable (s' r) = executable (s r) \<and>
      rent_epoch (s' r) = rent_epoch (s r)"
begin

lemma rd_wr_other: "wr k x s = Inr s' \<Longrightarrow> acct j \<noteq> acct k \<Longrightarrow> rd s' j = rd s j"
  by (rule rd_local) (simp add: wr_frame)

lemma wr_last: "wr k x s = Inr s' \<Longrightarrow> wr k y s' = Inr s'' \<Longrightarrow> rd s'' k = Inr y"
  by (simp add: rd_wr)

end

lemma keyed_set_state_Inr:
  "keyed_set_state C k x s = Inr s' \<longleftrightarrow>
     (\<exists>a. set_state C x (s (acct k)) = Inr a \<and> s' = s(acct k := a))"
  by (auto simp: keyed_set_state_def and_then_Inr_iff)

lemma keyed_set_state_keeps:
  assumes "keyed_set_state C k x s = Inr s'"
  shows "lamports (s' r) = lamports (s r)" "owner (s' r) = owner (s r)"
    "length (data (s' r)) = length (data (s r))" "executable (s' r) = executable (s r)"
    "rent_epoch (s' r) = rent_epoch (s r)"
  using assms by (auto simp: keyed_set_state_Inr set_state_keeps split: if_splits)

lemma keyed_set_state_frame: "keyed_set_state C k x s = Inr s' \<Longrightarrow> r \<noteq> acct k \<Longrightarrow> s' r = s r"
  by (auto simp: keyed_set_state_Inr)

text \<open>Every serialisable type gives an account state.\<close>

locale serde_state = codec "ser C" "de C" for C :: "'a serde"

sublocale serde_state \<subseteq> account_state "keyed_state C" "keyed_set_state C"
proof
  show "keyed_state C s' j = Inr x"
    if "keyed_set_state C k x s = Inr s'" "acct j = acct k" for k x s s' j
    using that get_set_state [OF codec_axioms] by (auto simp: keyed_set_state_Inr keyed_state_def)
qed (simp_all add: keyed_state_def keyed_set_state_frame keyed_set_state_keeps)

section \<open>Lamports\<close>

definition total_lamports :: "nat set \<Rightarrow> store \<Rightarrow> nat" where
  "total_lamports R s = (\<Sum>r\<in>R. unat (lamports (s r)))"

text \<open>The same sum in the ring of 64-bit words, which wrapping arithmetic cannot leave.\<close>

definition wrapped_total :: "nat set \<Rightarrow> store \<Rightarrow> u64" where
  "wrapped_total R s = (\<Sum>r\<in>R. lamports (s r))"

named_theorems lamport_simps \<open>sums of lamports after an update\<close>

lemma wrapped_total_of_nat: "wrapped_total R s = of_nat (total_lamports R s)"
  by (simp add: wrapped_total_def total_lamports_def)

lemma wrapped_total_upd [lamport_simps]:
  "finite R \<Longrightarrow> r \<in> R \<Longrightarrow>
     wrapped_total R (s(r := a)) = wrapped_total R s - lamports (s r) + lamports a"
  by (simp add: wrapped_total_def sum.remove [of R r])

lemma wrapped_total_debit [lamport_simps]:
  "finite R \<Longrightarrow> r \<in> R \<Longrightarrow> wrapped_total R (debit r n s) = wrapped_total R s - n"
  by (simp add: debit_def wrapped_total_upd)

lemma wrapped_total_credit [lamport_simps]:
  "finite R \<Longrightarrow> r \<in> R \<Longrightarrow> wrapped_total R (credit r n s) = wrapped_total R s + n"
  by (simp add: credit_def wrapped_total_upd)

lemma wrapped_total_keyed_set_state:
  "keyed_set_state C k x s = Inr s' \<Longrightarrow> wrapped_total R s' = wrapped_total R s"
  by (simp add: wrapped_total_def keyed_set_state_keeps)

lemma total_lamports_exact:
  assumes "wrapped_total R s' = wrapped_total R s"
    and "total_lamports R s < 2 ^ 64" and "total_lamports R s' < 2 ^ 64"
  shows "total_lamports R s' = total_lamports R s"
proof -
  have "unat (wrapped_total R t) = total_lamports R t" if "total_lamports R t < 2 ^ 64" for t
    using that by (simp add: wrapped_total_of_nat unat_of_nat)
  with assms show ?thesis by metis
qed

lemma total_lamports_upd:
  "finite R \<Longrightarrow> r \<in> R \<Longrightarrow>
     total_lamports R (s(r := a)) + unat (lamports (s r)) = total_lamports R s + unat (lamports a)"
  by (simp add: total_lamports_def sum.remove [of R r])

lemma lamports_le_total: "finite R \<Longrightarrow> r \<in> R \<Longrightarrow> unat (lamports (s r)) \<le> total_lamports R s"
  unfolding total_lamports_def by (rule member_le_sum) simp_all

lemma total_lamports_move:
  assumes R: "finite R" "a \<in> R" "b \<in> R" and n: "n \<le> lamports (s a)"
    and total: "total_lamports R s < 2 ^ 64"
  shows "total_lamports R (credit b n (debit a n s)) = total_lamports R s"
proof -
  let ?t = "debit a n s"
  have "unat (lamports (?t a)) = unat (lamports (s a)) - unat n"
    using n by (simp add: debit_def unat_sub_exact)
  then have t: "total_lamports R ?t + unat n = total_lamports R s"
    using total_lamports_upd [OF R(1,2), of s "?t a"] n
    by (simp add: debit_def word_le_nat_alt)
  have "unat (lamports (?t b)) \<le> total_lamports R ?t" by (rule lamports_le_total) (use R in auto)
  with t total have "unat (lamports (?t b) + n) = unat (lamports (?t b)) + unat n"
    by (intro unat_add_exact) simp
  then show ?thesis
    using total_lamports_upd [OF R(1,3), of ?t "(?t b)\<lparr>lamports := lamports (?t b) + n\<rparr>"] t
    by (simp add: credit_def)
qed

section \<open>The contract of an instruction processor\<close>

text \<open>
  What every on-chain program of the model promises of the accounts passed to it: it touches no
  other account, and the lamports it takes from some it gives to others (in wrapping arithmetic;
  the sum is exact as soon as it fits in 64 bits before and after).
\<close>

locale lamport_program =
  fixes run :: "'i \<Rightarrow> store \<Rightarrow> store program_result" and touched :: "'i \<Rightarrow> nat set"
  assumes run_frame: "run i s = Inr s' \<Longrightarrow> r \<notin> touched i \<Longrightarrow> s' r = s r"
    and run_wrapped:
      "run i s = Inr s' \<Longrightarrow> finite R \<Longrightarrow> touched i \<subseteq> R \<Longrightarrow> wrapped_total R s' = wrapped_total R s"
begin

lemma run_total:
  "run i s = Inr s' \<Longrightarrow> finite R \<Longrightarrow> touched i \<subseteq> R \<Longrightarrow> total_lamports R s < 2 ^ 64 \<Longrightarrow>
     total_lamports R s' < 2 ^ 64 \<Longrightarrow> total_lamports R s' = total_lamports R s"
  by (rule total_lamports_exact) (simp_all add: run_wrapped)

lemma sequence_frame:
  "fold_result run is s = Inr s' \<Longrightarrow> r \<notin> (\<Union>i\<in>set is. touched i) \<Longrightarrow> s' r = s r"
  by (induction "is" arbitrary: s) (auto simp: and_then_Inr_iff dest: run_frame)

lemma sequence_wrapped:
  assumes "fold_result run is s = Inr s'" and "finite R" and "(\<Union>i\<in>set is. touched i) \<subseteq> R"
  shows "wrapped_total R s' = wrapped_total R s"
proof (rule fold_result_invariant [OF assms(1), where P = "\<lambda>t. wrapped_total R t = wrapped_total R s"])
  show "wrapped_total R u = wrapped_total R s"
    if "i \<in> set is" "run i t = Inr u" "wrapped_total R t = wrapped_total R s" for i t u
    using that run_wrapped [OF that(2) assms(2)] assms(3) by (metis UN_subset_iff)
qed simp

lemma sequence_total:
  "fold_result run is s = Inr s' \<Longrightarrow> finite R \<Longrightarrow> (\<Union>i\<in>set is. touched i) \<subseteq> R \<Longrightarrow>
     total_lamports R s < 2 ^ 64 \<Longrightarrow> total_lamports R s' < 2 ^ 64 \<Longrightarrow>
     total_lamports R s' = total_lamports R s"
  by (rule total_lamports_exact) (simp_all add: sequence_wrapped)

end

text \<open>
  A program that checks a balance before it takes from it conserves the exact sum: when the lamports
  of the accounts involved fit in 64 bits, so do those it leaves, and no sum hides a wrap-around.
\<close>

locale exact_program = lamport_program +
  assumes run_exact: "run i s = Inr s' \<Longrightarrow> finite R \<Longrightarrow> touched i \<subseteq> R \<Longrightarrow>
    total_lamports R s < 2 ^ 64 \<Longrightarrow> total_lamports R s' = total_lamports R s"
begin

lemma sequence_exact:
  assumes "fold_result run is s = Inr s'" and "finite R" and "(\<Union>i\<in>set is. touched i) \<subseteq> R"
    and "total_lamports R s < 2 ^ 64"
  shows "total_lamports R s' = total_lamports R s"
proof (rule fold_result_invariant [OF assms(1), where P = "\<lambda>t. total_lamports R t = total_lamports R s"])
  show "total_lamports R u = total_lamports R s"
    if "i \<in> set is" "run i t = Inr u" "total_lamports R t = total_lamports R s" for i t u
    using that assms(3,4) by (subst run_exact [OF that(2) assms(2)]) auto
qed simp

end

text \<open>An invocation of a program is its keyed accounts with the instruction data.\<close>

definition passed_accounts :: "keyed_account list \<times> bytes \<Rightarrow> nat set" where
  "passed_accounts = (\<lambda>(ks, _). acct ` set ks)"

lemma total_lamports_keyed_set_state:
  "keyed_set_state C k x s = Inr s' \<Longrightarrow> total_lamports R s' = total_lamports R s"
  by (simp add: total_lamports_def keyed_set_state_keeps)

lemma next_keyed_account_Inr [simp]: "next_keyed_account ks = Inr p \<longleftrightarrow> ks = fst p # snd p"
  by (cases p) (auto simp: next_keyed_account_def split: list.splits)

section \<open>Program and sysvar ids\<close>

text \<open>A key is its 32 bytes read as a big-endian number, so that word order is the order of \<open>Ord\<close>.\<close>

definition system_program_id :: pubkey where
  "system_program_id = 0"

definition native_loader_id :: pubkey where
  "native_loader_id = 0x058784bf148ba4282fb012574888a9f153a07dadf765c0455c9a970380000000"

definition sysvar_clock_id :: pubkey where
  "sysvar_clock_id = 0x06a7d51718c774c928566398691d5eb68b5eb8a39b4b6d5c73555b2100000000"

definition sysvar_rent_id :: pubkey where
  "sysvar_rent_id = 0x06a7d517192c5c51218cc94c3d4af17f58daee089ba1fd44e3dbd98a00000000"

definition sysvar_slot_hashes_id :: pubkey where
  "sysvar_slot_hashes_id = 0x06a7d517192f0aafc6f265e3fb77cc7ada82c529d0be3b136e2d005520000000"

definition sysvar_recent_blockhashes_id :: pubkey where
  "sysvar_recent_blockhashes_id = 0x06a7d517192c568ee08a845f73d29788cf035c3145b21ab344d8062ea9400000"

definition sysvar_instructions_id :: pubkey where
  "sysvar_instructions_id = 0x06a7d517187bd16635dad40455fdc2c0c124c68f215675a5dbbacb5f08000000"

definition sysvar_stake_history_id :: pubkey where
  "sysvar_stake_history_id = 0x06a7d517193584d0feed9bb3431d13206be544281b57b8566cc5375ff4000000"

definition vote_program_id :: pubkey where
  "vote_program_id = 0x0761481d357474bb7c4d7624ebd3bdb3d8355e73d11043fc0da3538000000000"

definition stake_program_id :: pubkey where
  "stake_program_id = 0x06a1d8179137542a983437bdfe2a7ab2557f535c8a78722b68a49dc000000000"

definition bpf_loader_upgradeable_id :: pubkey where
  "bpf_loader_upgradeable_id = 0x02a8f6914e88a1b0e210153ef763ae2b00c2b93d16c124d2c0537a1004800000"

end
