(* ===== verification/Message.thy ===== *)
theory Message
  imports Accounts
begin

text \<open>
  Transaction messages (\<open>sdk/program/src/message.rs\<close>, and the instruction types and
  \<open>visit_each_account\<close> of \<open>sdk/program/src/instruction.rs\<close>): collecting and ordering the account keys
  of a list of instructions, compiling the instructions to indices, the header's reading of
  which indices are signers and which are writable, and sanitisation. \<open>itertools\<close>' \<open>unique\<close>, which
  is not part of the repository, is the parameter \<open>uniq\<close>.
\<close>

section \<open>Data\<close>

record account_meta =
  meta_pubkey :: pubkey
  meta_is_signer :: bool
  meta_is_writable :: bool

record instruction =
  program_id :: pubkey
  accounts :: "account_meta list"
  ix_data :: bytes

record compiled_instruction =
  program_id_index :: u8
  ci_accounts :: "u8 list"
  ci_data :: bytes

record message_header =
  num_required_signatures :: u8
  num_readonly_signed_accounts :: u8
  num_readonly_unsigned_accounts :: u8

record message =
  header :: message_header
  account_keys :: "pubkey list"
  recent_blockhash :: hash
  instructions :: "compiled_instruction list"

datatype sanitize_error = IndexOutOfBounds | ValueOutOfBounds | InvalidValue

definition account_meta_new :: "pubkey \<Rightarrow> bool \<Rightarrow> account_meta" where
  "account_meta_new k signer = \<lparr>meta_pubkey = k, meta_is_signer = signer, meta_is_writable = True\<rparr>"

definition account_meta_new_readonly :: "pubkey \<Rightarrow> bool \<Rightarrow> account_meta" where
  "account_meta_new_readonly k signer = \<lparr>meta_pubkey = k, meta_is_signer = signer, meta_is_writable = False\<rparr>"

definition instruction_new :: "'a serde \<Rightarrow> pubkey \<Rightarrow> 'a \<Rightarrow> account_meta list \<Rightarrow> instruction" where
  "instruction_new C pid x metas = \<lparr>program_id = pid, accounts = metas, ix_data = ser C x\<rparr>"

section \<open>Visiting the accounts of a compiled instruction\<close>

text \<open>\<open>work\<close> is called with a running count and the account index, once per distinct index.\<close>

fun visit_from ::
  "(nat \<Rightarrow> nat \<Rightarrow> 's \<Rightarrow> 'e + 's) \<Rightarrow> u8 list \<Rightarrow> u8 list \<Rightarrow> nat \<Rightarrow> 's \<Rightarrow> 'e + 's" where
  "visit_from work before [] unique_index s = Inr s"
| "visit_from work before (a # rest) unique_index s =
     (if a \<in> set before then visit_from work (before @ [a]) rest unique_index s
      else and_then (work unique_index (unat a) s)
             (visit_from work (before @ [a]) rest (unique_index + 1)))"

definition visit_each_account ::
  "compiled_instruction \<Rightarrow> (nat \<Rightarrow> nat \<Rightarrow> 's \<Rightarrow> 'e + 's) \<Rightarrow> 's \<Rightarrow> 'e + 's" where
  "visit_each_account ci work s = visit_from work [] (ci_accounts ci) 0 s"

section \<open>Compiling instructions\<close>

fun index_of :: "'a list \<Rightarrow> 'a \<Rightarrow> nat option" where
  "index_of [] x = None"
| "index_of (y # ys) x = (if y = x then Some 0 else map_option Suc (index_of ys x))"

text \<open>\<open>None\<close> is the panic of \<open>unwrap\<close> on a key that is not in the list.\<close>

definition position :: "pubkey list \<Rightarrow> pubkey \<Rightarrow> u8 option" where
  "position ks k = map_option of_nat (index_of ks k)"

definition compile_instruction :: "instruction \<Rightarrow> pubkey list \<Rightarrow> compiled_instruction option" where
  "compile_instruction ix ks =
     (case those (map (\<lambda>account_meta. position ks (meta_pubkey account_meta)) (accounts ix)) of
        None \<Rightarrow> None
      | Some as \<Rightarrow>
          (case position ks (program_id ix) of
             None \<Rightarrow> None
           | Some p \<Rightarrow> Some \<lparr>program_id_index = p, ci_accounts = as, ci_data = ix_data ix\<rparr>))"

definition compile_instructions ::
  "instruction list \<Rightarrow> pubkey list \<Rightarrow> compiled_instruction list option" where
  "compile_instructions ixs ks = those (map (\<lambda>ix. compile_instruction ix ks) ixs)"

section \<open>Collecting the keys\<close>

record instruction_keys =
  signed_keys :: "pubkey list"
  unsigned_keys :: "pubkey list"
  ik_readonly_signed :: u8
  ik_readonly_unsigned :: u8

definition get_program_ids :: "(pubkey list \<Rightarrow> pubkey list) \<Rightarrow> instruction list \<Rightarrow> pubkey list" where
  "get_program_ids uniq ixs = uniq (map program_id ixs)"

text \<open>
  The sort key of \<open>get_keys\<close>: signers first, then writable first. Both Rust's \<open>sort_by\<close> and
  \<open>sort_key\<close> are stable.
\<close>

definition meta_rank :: "account_meta \<Rightarrow> nat" where
  "meta_rank m = (if meta_is_signer m then 0 else 2) + (if meta_is_writable m then 0 else 1)"

text \<open>The loop body that drops duplicates, promoting the kept entry to writable.\<close>

fun add_meta :: "account_meta list \<Rightarrow> account_meta \<Rightarrow> account_meta list" where
  "add_meta [] m = [m]"
| "add_meta (x # xs) m =
     (if meta_pubkey x = meta_pubkey m
      then x\<lparr>meta_is_writable := meta_is_writable x \<or> meta_is_writable m\<rparr> # xs
      else x # add_meta xs m)"

definition sorted_metas ::
  "(pubkey list \<Rightarrow> pubkey list) \<Rightarrow> instruction list \<Rightarrow> pubkey option \<Rightarrow> account_meta list" where
  "sorted_metas uniq ixs payer =
     (let programs = map (\<lambda>program_id. \<lparr>meta_pubkey = program_id, meta_is_signer = False,
            meta_is_writable = False\<rparr>) (get_program_ids uniq ixs);
          keys_and_signed = sort_key meta_rank (concat (map accounts ixs) @ programs)
      in case payer of
           None \<Rightarrow> keys_and_signed
         | Some p \<Rightarrow> \<lparr>meta_pubkey = p, meta_is_signer = True, meta_is_writable = True\<rparr>
                       # keys_and_signed)"

definition unique_metas :: "account_meta list \<Rightarrow> account_meta list" where
  "unique_metas ms = foldl add_meta [] ms"

definition get_keys ::
  "(pubkey list \<Rightarrow> pubkey list) \<Rightarrow> instruction list \<Rightarrow> pubkey option \<Rightarrow> instruction_keys" where
  "get_keys uniq ixs payer =
     (let metas = unique_metas (sorted_metas uniq ixs payer);
          signed = filter meta_is_signer metas;
          unsigned = filter (\<lambda>m. \<not> meta_is_signer m) metas
      in \<lparr>signed_keys = map meta_pubkey signed,
          unsigned_keys = map meta_pubkey unsigned,
          ik_readonly_signed = of_nat (length (filter (\<lambda>m. \<not> meta_is_writable m) signed)),
          ik_readonly_unsigned = of_nat (length (filter (\<lambda>m. \<not> meta_is_writable m) unsigned))\<rparr>)"

definition new_with_compiled_instructions ::
  "u8 \<Rightarrow> u8 \<Rightarrow> u8 \<Rightarrow> pubkey list \<Rightarrow> hash \<Rightarrow> compiled_instruction list \<Rightarrow> message" where
  "new_with_compiled_instructions sigs ro_signed ro_unsigned ks blockhash cis =
     \<lparr>header = \<lparr>num_required_signatures = sigs, num_readonly_signed_accounts = ro_signed,
        num_readonly_unsigned_accounts = ro_unsigned\<rparr>,
      account_keys = ks, recent_blockhash = blockhash, instructions = cis\<rparr>"

definition message_new ::
  "(pubkey list \<Rightarrow> pubkey list) \<Rightarrow> instruction list \<Rightarrow> pubkey option \<Rightarrow> message option" where
  "message_new uniq ixs payer =
     (let ik = get_keys uniq ixs payer;
          ks = signed_keys ik @ unsigned_keys ik
      in case compile_instructions ixs ks of
           None \<Rightarrow> None
         | Some cis \<Rightarrow>
             Some (new_with_compiled_instructions (of_nat (length (signed_keys ik)))
               (ik_readonly_signed ik) (ik_readonly_unsigned ik) ks 0 cis))"

section \<open>Reading a message\<close>

text \<open>\<open>usize\<close> and \<open>u8\<close> subtraction wraps.\<close>

definition msg_is_writable :: "message \<Rightarrow> nat \<Rightarrow> bool" where
  "msg_is_writable m i \<longleftrightarrow>
     i < unat (num_required_signatures (header m) - num_readonly_signed_accounts (header m)) \<or>
     (unat (num_required_signatures (header m)) \<le> i \<and>
      i < unat (of_nat (length (account_keys m))
                - ucast (num_readonly_unsigned_accounts (header m)) :: u64))"

definition msg_is_signer :: "message \<Rightarrow> nat \<Rightarrow> bool" where
  "msg_is_signer m i \<longleftrightarrow> i < unat (num_required_signatures (header m))"

definition get_account_keys_by_lock_type :: "message \<Rightarrow> pubkey list \<times> pubkey list" where
  "get_account_keys_by_lock_type m =
     (let ks = enumerate 0 (account_keys m)
      in (map snd (filter (\<lambda>(i, _). msg_is_writable m i) ks),
          map snd (filter (\<lambda>(i, _). \<not> msg_is_writable m i) ks)))"

text \<open>A panic on an index out of range is \<open>None\<close>.\<close>

definition nth_opt :: "'a list \<Rightarrow> nat \<Rightarrow> 'a option" where
  "nth_opt xs i = (if i < length xs then Some (xs ! i) else None)"

definition program_ids :: "message \<Rightarrow> pubkey list option" where
  "program_ids m =
     those (map (\<lambda>ix. nth_opt (account_keys m) (unat (program_id_index ix))) (instructions m))"

definition is_key_passed_to_program :: "message \<Rightarrow> nat \<Rightarrow> bool" where
  "is_key_passed_to_program m i \<longleftrightarrow>
     i < 256 \<and> (\<exists>ix \<in> set (instructions m). of_nat i \<in> set (ci_accounts ix))"

definition is_non_loader_key :: "message \<Rightarrow> pubkey \<Rightarrow> nat \<Rightarrow> bool option" where
  "is_non_loader_key m k key_index =
     map_option (\<lambda>ids. k \<notin> set ids \<or> is_key_passed_to_program m key_index) (program_ids m)"

definition sanitize_instruction :: "nat \<Rightarrow> compiled_instruction \<Rightarrow> (sanitize_error, unit) outcome" where
  "sanitize_instruction n ci =
     (if n \<le> unat (program_id_index ci) then Inl (Err IndexOutOfBounds)
      else if program_id_index ci = 0 then Inl (Err IndexOutOfBounds)
      else if list_ex (\<lambda>ai. n \<le> unat ai) (ci_accounts ci) then Inl (Err IndexOutOfBounds)
      else Inr ())"

definition sanitize :: "message \<Rightarrow> (sanitize_error, unit) outcome" where
  "sanitize m =
     (let h = header m; n = length (account_keys m)
      in if n < unat (num_required_signatures h) + unat (num_readonly_unsigned_accounts h)
         then Inl (Err IndexOutOfBounds)
         else if num_required_signatures h \<le> num_readonly_signed_accounts h
         then Inl (Err IndexOutOfBounds)
         else fold_result (\<lambda>ci _. sanitize_instruction n ci) (instructions m) ())"

section \<open>Visiting: each distinct index once\<close>

lemma visit_from_enumerate:
  "visit_from work before xs n s =
     fold_result (\<lambda>(u, a). work u a)
       (enumerate n (map unat (filter (\<lambda>a. a \<notin> set before) (rev (remdups (rev xs)))))) s"
proof (induction xs arbitrary: before n s)
  case (Cons a xs)
  have split: "rev (remdups (rev (a # xs))) = a # filter (\<lambda>b. b \<noteq> a) (rev (remdups (rev xs)))"
    by (induction xs rule: rev_induct) auto
  let ?ys = "rev (remdups (rev xs))"
  have keep: "filter (\<lambda>b. b \<notin> set before) (filter (\<lambda>b. b \<noteq> a) ?ys)
      = filter (\<lambda>b. b \<notin> set (before @ [a])) ?ys"
    by (simp add: conj_commute)
  show ?case
  proof (cases "a \<in> set before")
    case True
    then have "filter (\<lambda>b. b \<notin> set before) (rev (remdups (rev (a # xs))))
        = filter (\<lambda>b. b \<notin> set (before @ [a])) ?ys"
      unfolding split by (simp add: keep [symmetric])
    with True show ?thesis by (simp add: Cons.IH del: rev.simps)
  next
    case False
    then have "filter (\<lambda>b. b \<notin> set before) (rev (remdups (rev (a # xs))))
        = a # filter (\<lambda>b. b \<notin> set (before @ [a])) ?ys"
      unfolding split by (simp add: keep [symmetric])
    moreover have "visit_from work (before @ [a]) xs (Suc n) = fold_result (\<lambda>(u, a). work u a)
        (enumerate (Suc n) (map unat (filter (\<lambda>b. b \<notin> set (before @ [a])) ?ys)))"
      by (rule ext) (rule Cons.IH)
    ultimately show ?thesis using False by (simp del: rev.simps)
  qed
qed simp

text \<open>
  \<open>visit_each_account\<close> runs the callback once for each distinct account index, in the order of
  first occurrence, numbered from 0, and stops at the first error: duplicates are never visited, so
  an account's lamports are never counted twice.
\<close>

definition unique_accounts :: "compiled_instruction \<Rightarrow> nat list" where
  "unique_accounts ci = map unat (rev (remdups (rev (ci_accounts ci))))"

lemma visit_each_account_fold:
  "visit_each_account ci work s = fold_result (\<lambda>(u, a). work u a) (enumerate 0 (unique_accounts ci)) s"
  by (simp add: visit_each_account_def visit_from_enumerate unique_accounts_def)

lemma unique_accounts_props:
  "distinct (unique_accounts ci)" "set (unique_accounts ci) = unat ` set (ci_accounts ci)"
  "length (unique_accounts ci) \<le> 256"
proof -
  show "distinct (unique_accounts ci)" by (simp add: unique_accounts_def distinct_map inj_on_def unat_eq_iff)
  have "length (unique_accounts ci) = card (set (ci_accounts ci))"
    by (simp add: unique_accounts_def length_remdups_card_conv)
  also have "\<dots> \<le> card (UNIV :: u8 set)" by (rule card_mono) auto
  finally show "length (unique_accounts ci) \<le> 256" by (simp add: card_word)
qed (simp add: unique_accounts_def)

section \<open>Unique metas\<close>

lemma unique_metas_snoc [simp]:
  "unique_metas [] = []" "unique_metas (ms @ [m]) = add_meta (unique_metas ms) m"
  by (simp_all add: unique_metas_def)

lemma keys_add_meta:
  "map meta_pubkey (add_meta us m) =
     (if meta_pubkey m \<in> meta_pubkey ` set us then map meta_pubkey us
      else map meta_pubkey us @ [meta_pubkey m])"
  by (induction us) auto

lemma set_add_meta:
  assumes "distinct (map meta_pubkey us)"
  shows "u \<in> set (add_meta us m) \<longleftrightarrow>
    (if meta_pubkey u = meta_pubkey m then
       (if meta_pubkey m \<in> meta_pubkey ` set us
        then \<exists>x\<in>set us. meta_pubkey x = meta_pubkey m \<and>
          u = x\<lparr>meta_is_writable := meta_is_writable x \<or> meta_is_writable m\<rparr>
        else u = m)
     else u \<in> set us)"
  using assms by (induction us) (auto simp: image_iff)

lemma distinct_unique_metas: "distinct (map meta_pubkey (unique_metas ms))"
  by (induction ms rule: rev_induct) (simp_all add: keys_add_meta)

lemma keys_unique_metas: "meta_pubkey ` set (unique_metas ms) = meta_pubkey ` set ms"
proof (induction ms rule: rev_induct)
  case (snoc m ms)
  have "meta_pubkey ` set (unique_metas (ms @ [m])) = set (map meta_pubkey (add_meta (unique_metas ms) m))"
    by simp
  also have "\<dots> = meta_pubkey ` set (ms @ [m])"
    unfolding keys_add_meta using snoc.IH by auto
  finally show ?case .
qed simp

lemma writable_unique_metas:
  "u \<in> set (unique_metas ms) \<Longrightarrow>
     meta_is_writable u \<longleftrightarrow> (\<exists>m\<in>set ms. meta_pubkey m = meta_pubkey u \<and> meta_is_writable m)"
proof (induction ms arbitrary: u rule: rev_induct)
  case (snoc m ms)
  have keys: "meta_pubkey m \<in> meta_pubkey ` set (unique_metas ms) \<longleftrightarrow> meta_pubkey m \<in> meta_pubkey ` set ms"
    by (simp only: keys_unique_metas)
  from snoc.prems have u: "u \<in> set (add_meta (unique_metas ms) m)" by simp
  show ?case
  proof (cases "meta_pubkey u = meta_pubkey m")
    case True
    show ?thesis
    proof (cases "meta_pubkey m \<in> meta_pubkey ` set (unique_metas ms)")
      case in_ms: True
      with u True obtain x where "x \<in> set (unique_metas ms)" "meta_pubkey x = meta_pubkey m"
        "u = x\<lparr>meta_is_writable := meta_is_writable x \<or> meta_is_writable m\<rparr>"
        by (auto simp: set_add_meta [OF distinct_unique_metas])
      then show ?thesis using snoc.IH [of x] by auto
    next
      case False
      with u True have "u = m" by (simp add: set_add_meta [OF distinct_unique_metas])
      with False keys show ?thesis by (auto simp: image_iff)
    qed
  next
    case False
    with u have "u \<in> set (unique_metas ms)" by (simp add: set_add_meta [OF distinct_unique_metas])
    from snoc.IH [OF this] False show ?thesis by auto
  qed
qed simp

text \<open>
  The metas are sorted, so the kept entry of a key, its first, is a signer whenever any entry of
  that key is.
\<close>

lemma signer_unique_metas:
  assumes "sorted (map meta_rank ms)" and "u \<in> set (unique_metas ms)"
  shows "meta_is_signer u \<longleftrightarrow> (\<exists>m\<in>set ms. meta_pubkey m = meta_pubkey u \<and> meta_is_signer m)"
  using assms
proof (induction ms arbitrary: u rule: rev_induct)
  case (snoc m ms)
  have ordered: "x \<in> set ms \<Longrightarrow> meta_is_signer m \<Longrightarrow> meta_is_signer x" for x
    using snoc.prems(1) by (force simp: sorted_append meta_rank_def split: if_splits)
  have sorted: "sorted (map meta_rank ms)" using snoc.prems(1) by (simp add: sorted_append)
  have keys: "meta_pubkey m \<in> meta_pubkey ` set (unique_metas ms) \<longleftrightarrow> meta_pubkey m \<in> meta_pubkey ` set ms"
    by (simp only: keys_unique_metas)
  from snoc.prems have u: "u \<in> set (add_meta (unique_metas ms) m)" by simp
  show ?case
  proof (cases "meta_pubkey u = meta_pubkey m")
    case True
    show ?thesis
    proof (cases "meta_pubkey m \<in> meta_pubkey ` set (unique_metas ms)")
      case in_ms: True
      with u True obtain x where x: "x \<in> set (unique_metas ms)" "meta_pubkey x = meta_pubkey m"
        "meta_is_signer u = meta_is_signer x"
        by (auto simp: set_add_meta [OF distinct_unique_metas])
      from in_ms keys obtain y where "y \<in> set ms" "meta_pubkey y = meta_pubkey m" by auto
      with x snoc.IH [OF sorted x(1)] ordered [of y] True show ?thesis by auto
    next
      case False
      with u True have "u = m" by (simp add: set_add_meta [OF distinct_unique_metas])
      with False keys show ?thesis by (auto simp: image_iff)
    qed
  next
    case False
    with u have "u \<in> set (unique_metas ms)" by (simp add: set_add_meta [OF distinct_unique_metas])
    from snoc.IH [OF sorted this] False show ?thesis by auto
  qed
qed simp

text \<open>
  No key is a read-only signer in one place and only a writable non-signer in another: then the
  promotion to writable never changes an entry, and the unique metas stay sorted.
\<close>

definition no_late_promotion :: "account_meta list \<Rightarrow> bool" where
  "no_late_promotion ms \<longleftrightarrow>
     (\<forall>x\<in>set ms. \<forall>y\<in>set ms. meta_pubkey x = meta_pubkey y \<longrightarrow> meta_is_signer x \<longrightarrow> meta_is_writable y \<longrightarrow>
        (\<exists>z\<in>set ms. meta_pubkey z = meta_pubkey x \<and> meta_is_signer z \<and> meta_is_writable z))"

lemma add_meta_absorb:
  assumes "\<And>x. x \<in> set us \<Longrightarrow> meta_pubkey x = meta_pubkey m \<Longrightarrow> meta_is_writable m \<Longrightarrow> meta_is_writable x"
  shows "add_meta us m = (if meta_pubkey m \<in> meta_pubkey ` set us then us else us @ [m])"
  using assms
proof (induction us)
  case (Cons x us)
  then show ?case
    by (cases "meta_pubkey x = meta_pubkey m") (auto intro!: account_meta.equality)
qed simp

lemma no_late_promotion_prefix:
  assumes "sorted (map meta_rank (ms @ [m]))" and "no_late_promotion (ms @ [m])"
  shows "no_late_promotion ms"
  unfolding no_late_promotion_def
proof (intro ballI impI)
  fix x y
  assume xy: "x \<in> set ms" "y \<in> set ms" "meta_pubkey x = meta_pubkey y" "meta_is_signer x" "meta_is_writable y"
  with assms(2) obtain z where z: "z \<in> set (ms @ [m])" "meta_pubkey z = meta_pubkey x"
    "meta_is_signer z" "meta_is_writable z"
    unfolding no_late_promotion_def by (metis UnCI set_append)
  show "\<exists>z\<in>set ms. meta_pubkey z = meta_pubkey x \<and> meta_is_signer z \<and> meta_is_writable z"
  proof (cases "z \<in> set ms")
    case False
    with z have "meta_rank m = 0" by (simp add: meta_rank_def)
    with assms(1) xy(1) have "meta_rank x = 0" by (auto simp: sorted_append)
    with xy show ?thesis by (auto simp: meta_rank_def split: if_splits)
  qed (use z in auto)
qed

lemma sorted_unique_metas:
  assumes "sorted (map meta_rank ms)" and "no_late_promotion ms"
  shows "sorted (map meta_rank (unique_metas ms)) \<and> set (unique_metas ms) \<subseteq> set ms"
  using assms
proof (induction ms rule: rev_induct)
  case (snoc m ms)
  have IH: "sorted (map meta_rank (unique_metas ms))" "set (unique_metas ms) \<subseteq> set ms"
    using snoc.IH no_late_promotion_prefix [OF snoc.prems] snoc.prems(1) by (auto simp: sorted_append)
  have "meta_is_writable x"
    if x: "x \<in> set (unique_metas ms)" "meta_pubkey x = meta_pubkey m" "meta_is_writable m" for x
  proof (rule ccontr)
    assume "\<not> meta_is_writable x"
    then have ro: "\<not> meta_is_writable y" if "y \<in> set ms" "meta_pubkey y = meta_pubkey m" for y
      using writable_unique_metas [OF x(1)] that x(2) by auto
    have "x \<in> set ms" using IH(2) x(1) by blast
    moreover from this have "meta_rank x \<le> meta_rank m" using snoc.prems(1) by (auto simp: sorted_append)
    ultimately have "meta_is_signer x" "\<not> meta_is_signer m"
      using ro x by (auto simp: meta_rank_def split: if_splits)
    with snoc.prems(2) x \<open>x \<in> set ms\<close> obtain z where
      "z \<in> set (ms @ [m])" "meta_pubkey z = meta_pubkey m" "meta_is_signer z" "meta_is_writable z"
      unfolding no_late_promotion_def by (metis UnCI list.set_intros(1) set_append)
    with ro \<open>\<not> meta_is_signer m\<close> show False by auto
  qed
  then have "unique_metas (ms @ [m]) =
      (if meta_pubkey m \<in> meta_pubkey ` set (unique_metas ms) then unique_metas ms
       else unique_metas ms @ [m])"
    using add_meta_absorb [of "unique_metas ms" m] by simp
  moreover have "x \<in> set ms \<Longrightarrow> meta_rank x \<le> meta_rank m" for x
    using snoc.prems(1) by (auto simp: sorted_append)
  ultimately show ?case using IH by (auto simp: sorted_append)
qed simp

section \<open>A new message\<close>

text \<open>Everything the instructions and the payer ask of the keys.\<close>

definition required_metas :: "instruction list \<Rightarrow> pubkey option \<Rightarrow> account_meta list" where
  "required_metas ixs payer =
     (case payer of None \<Rightarrow> []
      | Some p \<Rightarrow> [\<lparr>meta_pubkey = p, meta_is_signer = True, meta_is_writable = True\<rparr>])
     @ concat (map accounts ixs)
     @ map (\<lambda>ix. \<lparr>meta_pubkey = program_id ix, meta_is_signer = False, meta_is_writable = False\<rparr>) ixs"

lemma sorted_sorted_metas: "sorted (map meta_rank (sorted_metas uniq ixs payer))"
  by (auto simp: sorted_metas_def Let_def meta_rank_def split: option.splits)

lemma set_sorted_metas:
  "set (uniq (map program_id ixs)) = set (map program_id ixs) \<Longrightarrow>
     set (sorted_metas uniq ixs payer) = set (required_metas ixs payer)"
  by (auto simp: sorted_metas_def required_metas_def get_program_ids_def Let_def image_image
    split: option.splits)

lemma index_of_nth:
  "x \<in> set xs \<Longrightarrow> \<exists>i. index_of xs x = Some i \<and> i < length xs \<and> xs ! i = x"
  by (induction xs) force+

lemma position_nth:
  assumes "k \<in> set ks" and "length ks \<le> 256"
  shows "\<exists>i. position ks k = Some i \<and> unat i < length ks \<and> ks ! unat i = k"
proof -
  from index_of_nth [OF assms(1)] obtain i where i: "index_of ks k = Some i" "i < length ks" "ks ! i = k"
    by blast
  then have "unat (of_nat i :: u8) = i" using assms(2) by (simp add: unat_of_nat)
  with i show ?thesis by (simp add: position_def)
qed

lemma those_map:
  assumes "\<And>x. x \<in> set xs \<Longrightarrow> \<exists>y. f x = Some y \<and> P x y"
  shows "\<exists>ys. those (map f xs) = Some ys \<and> list_all2 P xs ys"
  using assms
proof (induction xs)
  case (Cons x xs)
  then obtain y ys where "f x = Some y" "P x y" "those (map f xs) = Some ys" "list_all2 P xs ys"
    by (metis list.set_intros)
  then show ?case by auto
qed simp

text \<open>A compiled instruction names the same accounts, program and data as its source.\<close>

definition resolves :: "pubkey list \<Rightarrow> instruction \<Rightarrow> compiled_instruction \<Rightarrow> bool" where
  "resolves ks ix ci \<longleftrightarrow>
     list_all2 (\<lambda>m i. unat i < length ks \<and> ks ! unat i = meta_pubkey m) (accounts ix) (ci_accounts ci) \<and>
     unat (program_id_index ci) < length ks \<and> ks ! unat (program_id_index ci) = program_id ix \<and>
     ci_data ci = ix_data ix"

lemma compile_instruction_resolves:
  assumes "length ks \<le> 256" and "meta_pubkey ` set (accounts ix) \<subseteq> set ks" and "program_id ix \<in> set ks"
  shows "\<exists>ci. compile_instruction ix ks = Some ci \<and> resolves ks ix ci"
proof -
  obtain as where "those (map (\<lambda>m. position ks (meta_pubkey m)) (accounts ix)) = Some as"
    "list_all2 (\<lambda>m i. unat i < length ks \<and> ks ! unat i = meta_pubkey m) (accounts ix) as"
    using those_map [of "accounts ix" "\<lambda>m. position ks (meta_pubkey m)"
        "\<lambda>m i. unat i < length ks \<and> ks ! unat i = meta_pubkey m"] position_nth [OF _ assms(1)] assms(2)
    by (metis (no_types, lifting) image_subset_iff)
  moreover obtain p where "position ks (program_id ix) = Some p" "unat p < length ks"
    "ks ! unat p = program_id ix"
    using position_nth [OF assms(3,1)] by blast
  ultimately show ?thesis by (simp add: compile_instruction_def resolves_def)
qed

lemma split_point:
  assumes "xs = ys @ zs" and "\<And>y. y \<in> set ys \<Longrightarrow> P y" and "\<And>z. z \<in> set zs \<Longrightarrow> \<not> P z" and "i < length xs"
  shows "P (xs ! i) \<longleftrightarrow> i < length ys"
proof (cases "i < length ys")
  case True
  with assms show ?thesis by (simp add: nth_append)
next
  case False
  with assms(1,4) have "xs ! i \<in> set zs" by (simp add: nth_append)
  with False assms(3) show ?thesis by blast
qed

lemma distinct_map_partition:
  "distinct (map f xs) \<Longrightarrow> distinct (map f (filter P xs @ filter (\<lambda>x. \<not> P x) xs))"
  by (induction xs) auto

lemma unique_metas_first:
  "\<exists>u us. unique_metas (x # ms) = u # us \<and> meta_pubkey u = meta_pubkey x \<and>
     meta_is_signer u = meta_is_signer x"
proof (induction ms rule: rev_induct)
  case Nil
  show ?case by (simp add: unique_metas_def)
next
  case (snoc m ms)
  have "unique_metas (x # ms @ [m]) = add_meta (unique_metas (x # ms)) m"
    using unique_metas_snoc(2) [of "x # ms" m] by simp
  with snoc show ?case by auto
qed

lemma message_new_shape:
  assumes uniq: "set (uniq (map program_id ixs)) = set (map program_id ixs)"
    and few: "card (meta_pubkey ` set (required_metas ixs payer)) \<le> 255"
  defines "us \<equiv> unique_metas (sorted_metas uniq ixs payer)"
  defines "sg \<equiv> filter meta_is_signer us" and "un \<equiv> filter (\<lambda>m. \<not> meta_is_signer m) us"
  shows "\<exists>m. message_new uniq ixs payer = Some m \<and>
    account_keys m = map meta_pubkey (sg @ un) \<and>
    unat (num_required_signatures (header m)) = length sg \<and>
    unat (num_readonly_signed_accounts (header m)) = length (filter (\<lambda>m. \<not> meta_is_writable m) sg) \<and>
    unat (num_readonly_unsigned_accounts (header m)) = length (filter (\<lambda>m. \<not> meta_is_writable m) un) \<and>
    list_all2 (resolves (account_keys m)) ixs (instructions m)"
    and "length us \<le> 255" and "meta_pubkey ` set us = meta_pubkey ` set (required_metas ixs payer)"
    and "length sg + length un = length us"
proof -
  show keys: "meta_pubkey ` set us = meta_pubkey ` set (required_metas ixs payer)"
    unfolding us_def keys_unique_metas set_sorted_metas [of uniq ixs payer, OF uniq] ..
  have "length us = card (set (map meta_pubkey us))"
    using distinct_card [OF distinct_unique_metas] unfolding us_def by (simp only: length_map)
  with keys few show len: "length us \<le> 255" by simp
  show sum: "length sg + length un = length us"
    unfolding sg_def un_def by (rule sum_length_filter_compl)
  let ?ks = "map meta_pubkey (sg @ un)"
  have ks: "set ?ks = meta_pubkey ` set (required_metas ixs payer)"
    unfolding keys [symmetric] by (auto simp: sg_def un_def)
  have few': "length ?ks \<le> 256" using len sum by simp
  have named: "meta_pubkey ` set (accounts ix) \<subseteq> set ?ks \<and> program_id ix \<in> set ?ks"
    if "ix \<in> set ixs" for ix
    unfolding ks using that by (auto simp: required_metas_def image_Un image_image)
  have "\<exists>ci. compile_instruction ix ?ks = Some ci \<and> resolves ?ks ix ci" if "ix \<in> set ixs" for ix
    using named [OF that] by (intro compile_instruction_resolves few') simp_all
  from those_map [of ixs "\<lambda>ix. compile_instruction ix ?ks" "resolves ?ks", OF this] obtain cis
    where "compile_instructions ixs ?ks = Some cis" "list_all2 (resolves ?ks) ixs cis"
    unfolding compile_instructions_def by blast
  moreover have small: "unat (of_nat n :: u8) = n" if "n \<le> length us" for n
    using that len by (simp add: unat_of_nat)
  moreover have "length sg \<le> length us" "length (filter (\<lambda>m. \<not> meta_is_writable m) sg) \<le> length us"
    "length (filter (\<lambda>m. \<not> meta_is_writable m) un) \<le> length us"
    using sum length_filter_le [of "\<lambda>m. \<not> meta_is_writable m" sg]
      length_filter_le [of "\<lambda>m. \<not> meta_is_writable m" un] by linarith+
  ultimately show "\<exists>m. message_new uniq ixs payer = Some m \<and> account_keys m = ?ks \<and>
    unat (num_required_signatures (header m)) = length sg \<and>
    unat (num_readonly_signed_accounts (header m)) = length (filter (\<lambda>m. \<not> meta_is_writable m) sg) \<and>
    unat (num_readonly_unsigned_accounts (header m)) = length (filter (\<lambda>m. \<not> meta_is_writable m) un) \<and>
    list_all2 (resolves (account_keys m)) ixs (instructions m)"
    by (simp add: message_new_def get_keys_def Let_def new_with_compiled_instructions_def small
      us_def [symmetric] sg_def [symmetric] un_def [symmetric] del: filter_filter)
qed

lemma message_new_signer_index:
  assumes "set (uniq (map program_id ixs)) = set (map program_id ixs)"
    and "card (meta_pubkey ` set (required_metas ixs payer)) \<le> 255"
  shows "\<exists>m. message_new uniq ixs payer = Some m \<and> distinct (account_keys m) \<and>
    set (account_keys m) = meta_pubkey ` set (required_metas ixs payer) \<and>
    (\<forall>p. payer = Some p \<longrightarrow> account_keys m \<noteq> [] \<and> hd (account_keys m) = p) \<and>
    list_all2 (resolves (account_keys m)) ixs (instructions m) \<and>
    (\<forall>i<length (account_keys m). msg_is_signer m i \<longleftrightarrow>
       (\<exists>x\<in>set (required_metas ixs payer). meta_pubkey x = account_keys m ! i \<and> meta_is_signer x))"
proof -
  define ms where "ms = sorted_metas uniq ixs payer"
  define us where "us = unique_metas ms"
  define sg where "sg = filter meta_is_signer us"
  define un where "un = filter (\<lambda>m. \<not> meta_is_signer m) us"
  note shape = message_new_shape [of uniq ixs payer, OF assms, folded ms_def, folded us_def, folded sg_def un_def]
  from shape(1) obtain m where m: "message_new uniq ixs payer = Some m"
    "account_keys m = map meta_pubkey (sg @ un)" "unat (num_required_signatures (header m)) = length sg"
    "list_all2 (resolves (account_keys m)) ixs (instructions m)" by blast
  have "distinct (map meta_pubkey us)" unfolding us_def by (rule distinct_unique_metas)
  then have "distinct (account_keys m)"
    unfolding m(2) sg_def un_def by (rule distinct_map_partition)
  moreover have "set (account_keys m) = meta_pubkey ` set (required_metas ixs payer)"
    unfolding m(2) shape(3) [symmetric] by (auto simp: sg_def un_def)
  moreover have "account_keys m \<noteq> [] \<and> hd (account_keys m) = p" if "payer = Some p" for p
  proof -
    from that obtain ms' where "ms = \<lparr>meta_pubkey = p, meta_is_signer = True, meta_is_writable = True\<rparr> # ms'"
      by (auto simp: ms_def sorted_metas_def Let_def)
    with unique_metas_first obtain u us' where "us = u # us'" "meta_pubkey u = p" "meta_is_signer u"
      unfolding us_def by (metis account_meta.select_convs(1,2))
    then show ?thesis by (simp add: m(2) sg_def)
  qed
  moreover have "msg_is_signer m i \<longleftrightarrow>
      (\<exists>x\<in>set (required_metas ixs payer). meta_pubkey x = account_keys m ! i \<and> meta_is_signer x)"
    if i: "i < length (account_keys m)" for i
  proof -
    have i': "i < length (sg @ un)" using i m(2) by simp
    have "meta_is_signer ((sg @ un) ! i) \<longleftrightarrow> i < length sg"
      by (rule split_point [OF refl _ _ i']) (auto simp: sg_def un_def)
    then have "msg_is_signer m i \<longleftrightarrow> meta_is_signer ((sg @ un) ! i)"
      by (simp only: msg_is_signer_def m(3))
    moreover have "(sg @ un) ! i \<in> set us" using nth_mem [OF i'] by (auto simp: sg_def un_def)
    ultimately show ?thesis
      using signer_unique_metas [OF sorted_sorted_metas [of uniq ixs payer], of "(sg @ un) ! i"] i'
      unfolding set_sorted_metas [of uniq ixs payer, OF assms(1)] m(2) us_def ms_def nth_map [OF i']
      by simp
  qed
  ultimately show ?thesis using m(1,4) by blast
qed

text \<open>
  (C37) \<open>Message::new\<close> never panics on up to 255 keys. The keys of the message are exactly those the
  instructions and the payer name, without duplicates and with the payer first; every compiled
  instruction resolves to the accounts, program and data of its source; and an index is a signer of
  the message exactly when some instruction, or being the payer, asks for that key's signature.
\<close>

theorem message_new_signers:
  assumes "set (uniq (map program_id ixs)) = set (map program_id ixs)"
    and "card (meta_pubkey ` set (required_metas ixs payer)) \<le> 255"
  shows "\<exists>m. message_new uniq ixs payer = Some m \<and> distinct (account_keys m) \<and>
    set (account_keys m) = meta_pubkey ` set (required_metas ixs payer) \<and>
    (\<forall>p. payer = Some p \<longrightarrow> account_keys m \<noteq> [] \<and> hd (account_keys m) = p) \<and>
    list_all2 (resolves (account_keys m)) ixs (instructions m) \<and>
    (\<forall>i<length (account_keys m). msg_is_signer m i \<longleftrightarrow>
       (\<exists>x\<in>set (required_metas ixs payer). meta_pubkey x = account_keys m ! i \<and> meta_is_signer x))"
  by (rule message_new_signer_index [of uniq ixs payer, OF assms])

definition transfer_ixs :: "instruction list" where
  "transfer_ixs =
     [\<lparr>program_id = 9,
       accounts = [\<lparr>meta_pubkey = 1, meta_is_signer = True, meta_is_writable = True\<rparr>,
         \<lparr>meta_pubkey = 2, meta_is_signer = False, meta_is_writable = True\<rparr>],
       ix_data = [4]\<rparr>]"

lemma transfer_metas:
  "set (required_metas transfer_ixs (Some 1)) =
     {\<lparr>meta_pubkey = 1, meta_is_signer = True, meta_is_writable = True\<rparr>,
      \<lparr>meta_pubkey = 2, meta_is_signer = False, meta_is_writable = True\<rparr>,
      \<lparr>meta_pubkey = 9, meta_is_signer = False, meta_is_writable = False\<rparr>}"
  by (simp add: required_metas_def transfer_ixs_def)

lemma transfer_keys: "message_new remdups transfer_ixs (Some 1) = Some m \<Longrightarrow> account_keys m = [1, 2, 9]"
  by (simp add: message_new_def get_keys_def unique_metas_def sorted_metas_def Let_def
    get_program_ids_def meta_rank_def new_with_compiled_instructions_def transfer_ixs_def
    compile_instructions_def compile_instruction_def position_def flip: One_nat_def) auto

theorem message_new_signers_witness:
  "\<exists>m. message_new remdups transfer_ixs (Some 1) = Some m \<and> account_keys m = [1, 2, 9] \<and>
     msg_is_signer m 0 \<and> \<not> msg_is_signer m 1"
proof -
  obtain m where m: "message_new remdups transfer_ixs (Some 1) = Some m"
    and signer: "\<forall>i<length (account_keys m). msg_is_signer m i \<longleftrightarrow>
      (\<exists>x\<in>set (required_metas transfer_ixs (Some 1)). meta_pubkey x = account_keys m ! i \<and> meta_is_signer x)"
    using message_new_signers [of remdups transfer_ixs "Some 1"] by (auto simp: transfer_metas)
  with transfer_keys [OF m] show ?thesis
    using signer [rule_format, of 0] signer [rule_format, of 1] by (simp add: transfer_metas)
qed

lemma partition_sorted:
  "sorted_wrt (\<lambda>x y. P y \<longrightarrow> P x) xs \<Longrightarrow> filter P xs @ filter (\<lambda>x. \<not> P x) xs = xs"
proof (induction xs)
  case (Cons x xs)
  show ?case
  proof (cases "P x")
    case False
    with Cons.prems have "\<forall>y\<in>set xs. \<not> P y" by auto
    then have "filter P xs = []" "filter (\<lambda>x. \<not> P x) xs = xs" by (simp_all add: filter_empty_conv)
    with False show ?thesis by simp
  qed (use Cons in simp)
qed simp

lemma rank_split:
  assumes "sorted (map meta_rank us)"
  shows "filter meta_is_writable (filter (\<lambda>m. meta_is_signer m = b) us) @
    filter (\<lambda>m. \<not> meta_is_writable m) (filter (\<lambda>m. meta_is_signer m = b) us) =
    filter (\<lambda>m. meta_is_signer m = b) us"
proof (rule partition_sorted)
  have "sorted_wrt (\<lambda>x y. meta_rank x \<le> meta_rank y) us" using assms by (simp add: sorted_map)
  then show "sorted_wrt (\<lambda>x y. meta_is_writable y \<longrightarrow> meta_is_writable x)
      (filter (\<lambda>m. meta_is_signer m = b) us)"
    by (induction us) (auto simp: meta_rank_def split: if_splits)
qed

lemma writable_index:
  assumes "sg = filter meta_is_writable sg @ filter (\<lambda>m. \<not> meta_is_writable m) sg"
    and "un = filter meta_is_writable un @ filter (\<lambda>m. \<not> meta_is_writable m) un"
    and m: "account_keys m = map meta_pubkey (sg @ un)"
      "unat (num_required_signatures (header m)) = length sg"
      "unat (num_readonly_signed_accounts (header m)) = length (filter (\<lambda>m. \<not> meta_is_writable m) sg)"
      "unat (num_readonly_unsigned_accounts (header m)) = length (filter (\<lambda>m. \<not> meta_is_writable m) un)"
    and small: "length (sg @ un) \<le> 255" and i: "i < length (sg @ un)"
  shows "msg_is_writable m i \<longleftrightarrow> meta_is_writable ((sg @ un) ! i)"
proof -
  let ?W = "filter meta_is_writable" and ?R = "filter (\<lambda>m. \<not> meta_is_writable m)"
  have len: "length (?W xs) + length (?R xs) = length xs" for xs by (rule sum_length_filter_compl)
  have "num_readonly_signed_accounts (header m) \<le> num_required_signatures (header m)"
    using len [of sg] m(2,3) by (simp add: word_le_nat_alt)
  then have signed: "unat (num_required_signatures (header m) - num_readonly_signed_accounts (header m))
      = length (?W sg)"
    using len [of sg] m(2,3) by (simp add: unat_sub_exact)
  have n: "unat (of_nat (length (account_keys m)) :: u64) = length sg + length un"
    using small by (simp add: m(1) unat_of_nat del: of_nat_add)
  have "ucast (num_readonly_unsigned_accounts (header m)) \<le> (of_nat (length (account_keys m)) :: u64)"
    unfolding word_le_nat_alt n using len [of un] m(4) by simp
  then have unsigned: "unat (of_nat (length (account_keys m))
        - ucast (num_readonly_unsigned_accounts (header m)) :: u64) = length sg + length (?W un)"
    using len [of un] m(4) n by (simp add: unat_sub_exact)
  have part: "meta_is_writable (xs ! j) \<longleftrightarrow> j < length (?W xs)"
    if "xs = ?W xs @ ?R xs" "j < length xs" for xs j
    by (rule split_point [OF that(1) _ _ that(2)]) simp_all
  have index: "msg_is_writable m i \<longleftrightarrow>
      i < length (?W sg) \<or> length sg \<le> i \<and> i < length sg + length (?W un)"
    unfolding msg_is_writable_def signed unsigned m(2) ..
  show ?thesis
  proof (cases "i < length sg")
    case True
    with part [OF assms(1) True] show ?thesis unfolding index by (simp add: nth_append)
  next
    case False
    then have "i - length sg < length un" using i by simp
    from part [OF assms(2) this] False len [of sg] show ?thesis unfolding index
      by (simp add: nth_append less_diff_conv2 add.commute)
  qed
qed

lemma message_new_writable_index:
  assumes uniq: "set (uniq (map program_id ixs)) = set (map program_id ixs)"
    and few: "card (meta_pubkey ` set (required_metas ixs payer)) \<le> 255"
    and "no_late_promotion (required_metas ixs payer)"
  shows "\<exists>m. message_new uniq ixs payer = Some m \<and>
    (\<forall>i<length (account_keys m). msg_is_writable m i \<longleftrightarrow>
       (\<exists>x\<in>set (required_metas ixs payer). meta_pubkey x = account_keys m ! i \<and> meta_is_writable x))"
proof -
  define us where "us = unique_metas (sorted_metas uniq ixs payer)"
  define sg where "sg = filter meta_is_signer us"
  define un where "un = filter (\<lambda>m. \<not> meta_is_signer m) us"
  note shape = message_new_shape [of uniq ixs payer, OF uniq few, folded us_def, folded sg_def un_def]
  note metas = set_sorted_metas [of uniq ixs payer, OF uniq]
  from shape(1) obtain m where m: "message_new uniq ixs payer = Some m"
    "account_keys m = map meta_pubkey (sg @ un)" "unat (num_required_signatures (header m)) = length sg"
    "unat (num_readonly_signed_accounts (header m)) = length (filter (\<lambda>m. \<not> meta_is_writable m) sg)"
    "unat (num_readonly_unsigned_accounts (header m)) = length (filter (\<lambda>m. \<not> meta_is_writable m) un)"
    by blast
  have "no_late_promotion (sorted_metas uniq ixs payer)"
    using assms(3) by (simp only: no_late_promotion_def metas)
  then have ordered: "sorted (map meta_rank us)"
    unfolding us_def by (intro conjunct1 [OF sorted_unique_metas] sorted_sorted_metas)
  have parts: "sg = filter meta_is_writable sg @ filter (\<lambda>m. \<not> meta_is_writable m) sg"
    "un = filter meta_is_writable un @ filter (\<lambda>m. \<not> meta_is_writable m) un"
    unfolding sg_def un_def
    by (rule rank_split [OF ordered, of True, unfolded simp_thms, symmetric])
      (rule rank_split [OF ordered, of False, unfolded simp_thms, symmetric])
  have "msg_is_writable m i \<longleftrightarrow>
      (\<exists>x\<in>set (required_metas ixs payer). meta_pubkey x = account_keys m ! i \<and> meta_is_writable x)"
    if "i < length (account_keys m)" for i
  proof -
    have i: "i < length (sg @ un)" using that m(2) by simp
    have "length (sg @ un) \<le> 255" using shape(2,4) by simp
    then have "msg_is_writable m i \<longleftrightarrow> meta_is_writable ((sg @ un) ! i)"
      by (rule writable_index [OF parts m(2-5) _ i])
    moreover have u: "(sg @ un) ! i \<in> set us" using nth_mem [OF i] by (auto simp: sg_def un_def)
    ultimately show ?thesis
      unfolding m(2) nth_map [OF i] metas [symmetric]
      by (simp only: writable_unique_metas [OF u [unfolded us_def]])
  qed
  with m(1) show ?thesis by blast
qed

text \<open>
  When no key is a read-only signer in one place and only a writable non-signer in another, an
  index of a new message is writable exactly when some instruction, or being the payer, asks for
  write access to that key.
\<close>

theorem message_new_writable:
  assumes uniq: "set (uniq (map program_id ixs)) = set (map program_id ixs)"
    and few: "card (meta_pubkey ` set (required_metas ixs payer)) \<le> 255"
    and "no_late_promotion (required_metas ixs payer)"
  shows "\<exists>m. message_new uniq ixs payer = Some m \<and>
    (\<forall>i<length (account_keys m). msg_is_writable m i \<longleftrightarrow>
       (\<exists>x\<in>set (required_metas ixs payer). meta_pubkey x = account_keys m ! i \<and> meta_is_writable x))"
  by (rule message_new_writable_index [of uniq ixs payer, OF assms])

theorem message_new_writable_witness:
  "\<exists>m. message_new remdups transfer_ixs (Some 1) = Some m \<and> account_keys m = [1, 2, 9] \<and>
     msg_is_writable m 1 \<and> \<not> msg_is_writable m 2"
proof -
  have "no_late_promotion (required_metas transfer_ixs (Some 1))"
    unfolding no_late_promotion_def transfer_metas by simp
  then obtain m where m: "message_new remdups transfer_ixs (Some 1) = Some m"
    and writable: "\<forall>i<length (account_keys m). msg_is_writable m i \<longleftrightarrow>
      (\<exists>x\<in>set (required_metas transfer_ixs (Some 1)). meta_pubkey x = account_keys m ! i \<and> meta_is_writable x)"
    using message_new_writable [of remdups transfer_ixs "Some 1"] by (auto simp: transfer_metas)
  with transfer_keys [OF m] show ?thesis
    using writable [rule_format, of 1] writable [rule_format, of 2] by (simp add: transfer_metas)
qed

text \<open>
  The hypothesis is needed. A key that one instruction lists as a read-only signer and another as a
  writable non-signer is promoted where it stands among the read-only signers, while the header
  only counts them: another read-only signer before it becomes writable in its place, and the
  promoted key is compiled as read-only.
\<close>

lemma late_promotion_misplaces_write:
  assumes "distinct [payer, a, b, prog]"
  shows "\<exists>m. message_new remdups
      [\<lparr>program_id = prog,
        accounts = [\<lparr>meta_pubkey = a, meta_is_signer = True, meta_is_writable = False\<rparr>,
          \<lparr>meta_pubkey = b, meta_is_signer = True, meta_is_writable = False\<rparr>], ix_data = []\<rparr>,
       \<lparr>program_id = prog,
        accounts = [\<lparr>meta_pubkey = b, meta_is_signer = False, meta_is_writable = True\<rparr>], ix_data = []\<rparr>] (Some payer)
      = Some m \<and> account_keys m = [payer, a, b, prog] \<and> msg_is_writable m 1 \<and> \<not> msg_is_writable m 2"
  using assms
  by (simp add: message_new_def get_keys_def unique_metas_def sorted_metas_def Let_def
      get_program_ids_def meta_rank_def new_with_compiled_instructions_def
      compile_instructions_def compile_instruction_def position_def msg_is_writable_def)

end
