(* ===== verification/InstructionsSysvar.thy ===== *)
theory InstructionsSysvar
  imports Message
begin

text \<open>
  The instructions sysvar: the byte buffer a program reads to inspect the instructions of its own
  transaction (\<open>Message::serialize_instructions\<close> and \<open>deserialize_instruction\<close> of
  \<open>sdk/program/src/message.rs\<close>, the readers and writers of \<open>serialize_utils.rs\<close>, and
  \<open>sysvar/instructions.rs\<close>). Readers take and return the cursor \<open>current\<close>; an index or slice out
  of range is a panic where the source indexes without a check.
\<close>

unbundle bit_operations_syntax

section \<open>Writers and readers\<close>

definition append_u16 :: "bytes \<Rightarrow> u16 \<Rightarrow> bytes" where
  "append_u16 buf w = buf @ enc_le 2 w"

definition append_u8 :: "bytes \<Rightarrow> u8 \<Rightarrow> bytes" where
  "append_u8 buf b = buf @ [b]"

definition append_slice :: "bytes \<Rightarrow> bytes \<Rightarrow> bytes" where
  "append_slice buf bs = buf @ bs"

definition u16_of_bytes :: "bytes \<Rightarrow> u16" where
  "u16_of_bytes bs = (case dec_le 2 bs of None \<Rightarrow> 0 | Some (w, _) \<Rightarrow> w)"

definition slice :: "nat \<Rightarrow> nat \<Rightarrow> bytes \<Rightarrow> bytes" where
  "slice i n bs = take n (drop i bs)"

definition read_slice :: "nat \<Rightarrow> bytes \<Rightarrow> nat \<Rightarrow> (sanitize_error, bytes \<times> nat) outcome" where
  "read_slice current bs n =
     (if length bs < current + n then Inl (Err IndexOutOfBounds)
      else Inr (slice current n bs, current + n))"

definition read_u8 :: "nat \<Rightarrow> bytes \<Rightarrow> (sanitize_error, u8 \<times> nat) outcome" where
  "read_u8 current bs =
     (if length bs < current + 1 then Inl (Err IndexOutOfBounds)
      else Inr (bs ! current, current + 1))"

definition read_pubkey :: "nat \<Rightarrow> bytes \<Rightarrow> (sanitize_error, pubkey \<times> nat) outcome" where
  "read_pubkey current bs =
     (if length bs < current + 32 then Inl (Err IndexOutOfBounds)
      else Inr (pubkey_of_bytes (slice current 32 bs), current + 32))"

definition read_u16 :: "nat \<Rightarrow> bytes \<Rightarrow> (sanitize_error, u16 \<times> nat) outcome" where
  "read_u16 current bs =
     (if length bs < current + 2 then Inl (Err IndexOutOfBounds)
      else Inr (u16_of_bytes (slice current 2 bs), current + 2))"

section \<open>Serialising the instructions of a message\<close>

definition IS_SIGNER_BIT :: nat where "IS_SIGNER_BIT = 0"
definition IS_WRITABLE_BIT :: nat where "IS_WRITABLE_BIT = 1"

definition meta_byte :: "bool \<Rightarrow> bool \<Rightarrow> u8" where
  "meta_byte sg wr =
     (if sg then push_bit IS_SIGNER_BIT 1 else 0) OR (if wr then push_bit IS_WRITABLE_BIT 1 else 0)"

text \<open>The inner loop: one account of an instruction; \<open>None\<close> is an index panic.\<close>

definition serialize_account :: "message \<Rightarrow> bytes \<Rightarrow> u8 \<Rightarrow> bytes option" where
  "serialize_account m buf account_index =
     (let i = unat account_index
      in case nth_opt (account_keys m) i of
           None \<Rightarrow> None
         | Some k \<Rightarrow>
             Some (append_slice (append_u8 buf (meta_byte (msg_is_signer m i) (msg_is_writable m i)))
               (pubkey_bytes k)))"

fun fold_option :: "('s \<Rightarrow> 'a \<Rightarrow> 's option) \<Rightarrow> 's \<Rightarrow> 'a list \<Rightarrow> 's option" where
  "fold_option f s [] = Some s"
| "fold_option f s (x # xs) = (case f s x of None \<Rightarrow> None | Some s' \<Rightarrow> fold_option f s' xs)"

definition write_at :: "nat \<Rightarrow> bytes \<Rightarrow> bytes \<Rightarrow> bytes" where
  "write_at i bs buf = take i buf @ bs @ drop (i + length bs) buf"

text \<open>The outer loop: its offset is stored in the table, then the instruction is appended.\<close>

definition serialize_instruction ::
  "message \<Rightarrow> bytes \<Rightarrow> nat \<times> compiled_instruction \<Rightarrow> bytes option" where
  "serialize_instruction m buf = (\<lambda>(i, ix).
     let start_instruction_offset = of_nat (length buf) :: u16;
         buf1 = write_at (2 + 2 * i) (enc_le 2 start_instruction_offset) buf;
         buf2 = append_u16 buf1 (of_nat (length (ci_accounts ix)))
     in case fold_option (serialize_account m) buf2 (ci_accounts ix) of
          None \<Rightarrow> None
        | Some buf3 \<Rightarrow>
            (case nth_opt (account_keys m) (unat (program_id_index ix)) of
               None \<Rightarrow> None
             | Some k \<Rightarrow>
                 Some (append_slice
                   (append_u16 (append_slice buf3 (pubkey_bytes k)) (of_nat (length (ci_data ix))))
                   (ci_data ix))))"

definition serialize_instructions :: "message \<Rightarrow> bytes option" where
  "serialize_instructions m =
     (let n = length (instructions m);
          table = foldl append_u16 (append_u16 [] (of_nat n)) (replicate n 0)
      in fold_option (serialize_instruction m) table (enumerate 0 (instructions m)))"

section \<open>Reading one instruction back\<close>

fun read_accounts ::
  "nat \<Rightarrow> nat \<Rightarrow> bytes \<Rightarrow> account_meta list \<Rightarrow> (sanitize_error, account_meta list \<times> nat) outcome" where
  "read_accounts 0 current bs acc = Inr (acc, current)"
| "read_accounts (Suc n) current bs acc =
     and_then (read_u8 current bs) (\<lambda>(b, current).
     and_then (read_pubkey current bs) (\<lambda>(k, current).
       read_accounts n current bs
         (acc @ [\<lparr>meta_pubkey = k, meta_is_signer = b AND push_bit IS_SIGNER_BIT 1 \<noteq> 0,
            meta_is_writable = b AND push_bit IS_WRITABLE_BIT 1 \<noteq> 0\<rparr>])))"

definition deserialize_instruction :: "nat \<Rightarrow> bytes \<Rightarrow> (sanitize_error, instruction) outcome" where
  "deserialize_instruction index bs =
     and_then (read_u16 0 bs) (\<lambda>(num_instructions, current).
     and_then (read_u16 (current + index * 2) bs) (\<lambda>(start, _).
     and_then (read_u16 (unat start) bs) (\<lambda>(num_accounts, current).
     and_then (read_accounts (unat num_accounts) current bs []) (\<lambda>(accs, current).
     and_then (read_pubkey current bs) (\<lambda>(prog, current).
     and_then (read_u16 current bs) (\<lambda>(data_len, current).
     and_then (read_slice current bs (unat data_len)) (\<lambda>(d, _).
       Inr \<lparr>program_id = prog, accounts = accs, ix_data = d\<rparr>)))))))"

text \<open>\<open>None\<close> is the panic on a buffer shorter than two bytes.\<close>

definition load_current_index :: "bytes \<Rightarrow> u16 option" where
  "load_current_index bs =
     (if length bs < 2 then None else Some (u16_of_bytes (slice (length bs - 2) 2 bs)))"

definition store_current_index :: "bytes \<Rightarrow> u16 \<Rightarrow> bytes option" where
  "store_current_index bs i =
     (if length bs < 2 then None else Some (write_at (length bs - 2) (enc_le 2 i) bs))"

definition load_instruction_at :: "nat \<Rightarrow> bytes \<Rightarrow> (sanitize_error, instruction) outcome" where
  "load_instruction_at index bs = deserialize_instruction index bs"

section \<open>Round trip\<close>

lemma u16_of_enc [simp]: "u16_of_bytes (enc_le 2 w) = w"
  using dec_le_enc_le [of 2 w "[]"] by (simp add: u16_of_bytes_def take_bit_word_eq_self)

lemma pubkey_of_bytes_inverse [simp]: "pubkey_of_bytes (pubkey_bytes k) = k"
  using dec_le_enc_le [of 32 k "[]"]
  by (simp add: pubkey_of_bytes_def pubkey_bytes_def take_bit_word_eq_self)

lemma length_pubkey_bytes [simp]: "length (pubkey_bytes k) = 32"
  by (simp add: pubkey_bytes_def)

text \<open>Reading at the place where something was written.\<close>

lemma read_u16_at [simp]:
  "length pre = n \<Longrightarrow> read_u16 n (pre @ enc_le 2 w @ post) = Inr (w, n + 2)"
  by (auto simp: read_u16_def slice_def)

lemma read_u8_at [simp]: "length pre = n \<Longrightarrow> read_u8 n (pre @ b # post) = Inr (b, n + 1)"
  by (auto simp: read_u8_def)

lemma read_pubkey_at [simp]:
  "length pre = n \<Longrightarrow> read_pubkey n (pre @ pubkey_bytes k @ post) = Inr (k, n + 32)"
  by (auto simp: read_pubkey_def slice_def)

lemma read_slice_at [simp]:
  "length pre = n \<Longrightarrow> length bs = k \<Longrightarrow> read_slice n (pre @ bs @ post) k = Inr (bs, n + k)"
  by (auto simp: read_slice_def slice_def)

lemma meta_byte_bits [simp]:
  "meta_byte s w AND 2 ^ IS_SIGNER_BIT = 0 \<longleftrightarrow> \<not> s"
  "meta_byte s w AND 2 ^ IS_WRITABLE_BIT = 0 \<longleftrightarrow> \<not> w"
  by (simp_all add: meta_byte_def IS_SIGNER_BIT_def IS_WRITABLE_BIT_def)

text \<open>The encoding of one instruction, and the table of offsets from a start.\<close>

definition account_bytes :: "message \<Rightarrow> u8 \<Rightarrow> bytes" where
  "account_bytes m a =
     meta_byte (msg_is_signer m (unat a)) (msg_is_writable m (unat a)) # pubkey_bytes (account_keys m ! unat a)"

definition instruction_bytes :: "message \<Rightarrow> compiled_instruction \<Rightarrow> bytes" where
  "instruction_bytes m ix =
     enc_le 2 (of_nat (length (ci_accounts ix)) :: u16) @ concat (map (account_bytes m) (ci_accounts ix)) @
     pubkey_bytes (account_keys m ! unat (program_id_index ix)) @
     enc_le 2 (of_nat (length (ci_data ix)) :: u16) @ ci_data ix"

fun offset_table :: "message \<Rightarrow> nat \<Rightarrow> compiled_instruction list \<Rightarrow> bytes" where
  "offset_table m start [] = []"
| "offset_table m start (ix # ixs) =
     enc_le 2 (of_nat start :: u16) @ offset_table m (start + length (instruction_bytes m ix)) ixs"

definition indices_ok :: "message \<Rightarrow> bool" where
  "indices_ok m \<longleftrightarrow>
     (\<forall>ix\<in>set (instructions m). unat (program_id_index ix) < length (account_keys m) \<and>
        (\<forall>a\<in>set (ci_accounts ix). unat a < length (account_keys m)))"

lemma serialize_accounts:
  "\<forall>a\<in>set as. unat a < length (account_keys m) \<Longrightarrow>
     fold_option (serialize_account m) buf as = Some (buf @ concat (map (account_bytes m) as))"
  by (induction as arbitrary: buf)
    (simp_all add: serialize_account_def account_bytes_def nth_opt_def Let_def append_slice_def append_u8_def)

lemma serialize_instruction_eq:
  assumes "unat (program_id_index ix) < length (account_keys m)"
    and "\<forall>a\<in>set (ci_accounts ix). unat a < length (account_keys m)"
  shows "serialize_instruction m buf (i, ix) =
    Some (write_at (2 + 2 * i) (enc_le 2 (of_nat (length buf) :: u16)) buf @ instruction_bytes m ix)"
  using assms by (simp add: serialize_instruction_def serialize_accounts instruction_bytes_def
    nth_opt_def Let_def append_slice_def append_u16_def)

lemma write_at_middle:
  "length pre = i \<Longrightarrow> length old = length bs \<Longrightarrow> write_at i bs (pre @ old @ post) = pre @ bs @ post"
  by (auto simp: write_at_def)

lemma serialize_loop:
  assumes "\<forall>ix\<in>set ixs. unat (program_id_index ix) < length (account_keys m) \<and>
      (\<forall>a\<in>set (ci_accounts ix). unat a < length (account_keys m))"
    and "length pre = 2 + 2 * i" and "length pending = 2 * length ixs"
  shows "fold_option (serialize_instruction m) (pre @ pending @ body) (enumerate i ixs) =
    Some (pre @ offset_table m (length pre + length pending + length body) ixs @ body @
      concat (map (instruction_bytes m) ixs))"
  using assms
proof (induction ixs arbitrary: i pre pending body)
  case (Cons ix ixs)
  obtain old rest where pending: "pending = old @ rest" "length old = 2" "length rest = 2 * length ixs"
    using Cons.prems(3) by (intro that [of "take 2 pending" "drop 2 pending"]) auto
  let ?n = "length pre + length pending + length body"
  let ?off = "enc_le 2 (of_nat ?n :: u16)"
  have "write_at (2 + 2 * i) ?off (pre @ old @ rest @ body) = pre @ ?off @ rest @ body"
    by (rule write_at_middle) (simp_all add: Cons.prems(2) pending(2))
  then have "serialize_instruction m (pre @ pending @ body) (i, ix) =
      Some ((pre @ ?off) @ rest @ (body @ instruction_bytes m ix))"
    using Cons.prems(1) by (subst serialize_instruction_eq) (simp_all add: pending add.assoc)
  moreover have "fold_option (serialize_instruction m) ((pre @ ?off) @ rest @ (body @ instruction_bytes m ix))
      (enumerate (Suc i) ixs) =
    Some ((pre @ ?off) @ offset_table m (?n + length (instruction_bytes m ix)) ixs
      @ (body @ instruction_bytes m ix) @ concat (map (instruction_bytes m) ixs))"
  proof -
    have sum: "length (pre @ ?off) + length rest + length (body @ instruction_bytes m ix)
        = ?n + length (instruction_bytes m ix)"
      using pending by simp
    show ?thesis unfolding sum [symmetric] by (rule Cons.IH) (use Cons.prems pending in simp_all)
  qed
  ultimately show ?case by simp
qed simp

lemma empty_table: "foldl append_u16 buf (replicate n 0) = buf @ replicate (2 * n) 0"
proof (induction n arbitrary: buf)
  case (Suc n)
  have "enc_le 2 (0 :: u16) = [0, 0]" by (simp add: numeral_2_eq_2)
  with Suc show ?case by (simp add: append_u16_def)
qed simp

lemma serialize_instructions_layout:
  assumes "indices_ok m"
  defines "n \<equiv> length (instructions m)"
  shows "serialize_instructions m = Some (enc_le 2 (of_nat n :: u16) @
    offset_table m (2 + 2 * n) (instructions m) @ concat (map (instruction_bytes m) (instructions m)))"
proof -
  have "fold_option (serialize_instruction m) (enc_le 2 (of_nat n :: u16) @ replicate (2 * n) 0 @ [])
      (enumerate 0 (instructions m)) = Some (enc_le 2 (of_nat n :: u16) @
    offset_table m (2 + 2 * n + 0) (instructions m) @ [] @ concat (map (instruction_bytes m) (instructions m)))"
    using assms(1) serialize_loop [of "instructions m" m "enc_le 2 (of_nat n :: u16)" 0 "replicate (2 * n) 0" "[]"]
    by (simp add: indices_ok_def n_def)
  then show ?thesis
    by (simp add: serialize_instructions_def Let_def empty_table append_u16_def n_def)
qed

lemma offset_table_nth:
  "k < length ixs \<Longrightarrow> \<exists>pre post. length pre = 2 * k \<and>
     offset_table m start ixs =
       pre @ enc_le 2 (of_nat (start + length (concat (map (instruction_bytes m) (take k ixs)))) :: u16) @ post"
proof (induction ixs arbitrary: k start)
  case (Cons ix ixs)
  show ?case
  proof (cases k)
    case 0
    then show ?thesis by auto
  next
    case (Suc j)
    with Cons.prems Cons.IH [of j "start + length (instruction_bytes m ix)"]
    obtain pre post where "length pre = 2 * j"
      "offset_table m (start + length (instruction_bytes m ix)) ixs =
        pre @ enc_le 2 (of_nat (start + length (instruction_bytes m ix)
          + length (concat (map (instruction_bytes m) (take j ixs)))) :: u16) @ post"
      by auto
    with Suc show ?thesis
      by (intro exI [of _ "enc_le 2 (of_nat start :: u16) @ pre"] exI [of _ post]) (simp add: add.assoc)
  qed
qed simp

lemma length_offset_table [simp]: "length (offset_table m start ixs) = 2 * length ixs"
  by (induction ixs arbitrary: start) simp_all

definition meta_of :: "message \<Rightarrow> u8 \<Rightarrow> account_meta" where
  "meta_of m a =
     \<lparr>meta_pubkey = account_keys m ! unat a, meta_is_signer = msg_is_signer m (unat a),
      meta_is_writable = msg_is_writable m (unat a)\<rparr>"

text \<open>The instruction that a compiled one stands for.\<close>

definition decompile :: "message \<Rightarrow> compiled_instruction \<Rightarrow> instruction" where
  "decompile m ix =
     \<lparr>program_id = account_keys m ! unat (program_id_index ix),
      accounts = map (meta_of m) (ci_accounts ix), ix_data = ci_data ix\<rparr>"

lemma read_accounts_at:
  "length pre = n \<Longrightarrow>
     read_accounts (length as) n (pre @ concat (map (account_bytes m) as) @ post) acc =
       Inr (acc @ map (meta_of m) as, n + 33 * length as)"
proof (induction as arbitrary: pre n acc)
  case (Cons a as)
  let ?b = "meta_byte (msg_is_signer m (unat a)) (msg_is_writable m (unat a))"
  let ?k = "pubkey_bytes (account_keys m ! unat a)" and ?r = "concat (map (account_bytes m) as) @ post"
  have "read_u8 n (pre @ ?b # ?k @ ?r) = Inr (?b, n + 1)" by (rule read_u8_at) (rule Cons.prems)
  moreover have "read_pubkey (n + 1) ((pre @ [?b]) @ ?k @ ?r) = Inr (account_keys m ! unat a, n + 1 + 32)"
    by (rule read_pubkey_at) (simp add: Cons.prems)
  moreover have "read_accounts (length as) (n + 1 + 32) ((pre @ ?b # ?k) @ ?r) (acc @ [meta_of m a]) =
      Inr ((acc @ [meta_of m a]) @ map (meta_of m) as, n + 1 + 32 + 33 * length as)"
    by (rule Cons.IH) (simp add: Cons.prems)
  ultimately show ?case by (simp add: account_bytes_def [of m a] meta_of_def [of m a])
qed simp

lemma concat_nth_split:
  "k < length xs \<Longrightarrow>
     concat (map f xs) = concat (map f (take k xs)) @ f (xs ! k) @ concat (map f (drop (Suc k) xs))"
  by (subst id_take_nth_drop [of k xs]) (simp_all add: min_def)

lemma length_account_bytes: "length (concat (map (account_bytes m) as)) = 33 * length as"
  by (induction as) (simp_all add: account_bytes_def)

lemma read_instruction_at:
  assumes "length pre = unat start" and "length (instruction_bytes m ix) < 2 ^ 16"
    and "read_u16 0 (pre @ instruction_bytes m ix @ post) = Inr (n, 2)"
    and "read_u16 (2 + index * 2) (pre @ instruction_bytes m ix @ post) = Inr (start, c)"
  shows "deserialize_instruction index (pre @ instruction_bytes m ix @ post) = Inr (decompile m ix)"
proof -
  let ?a = "length (ci_accounts ix)" and ?d = "length (ci_data ix)"
  let ?A = "concat (map (account_bytes m) (ci_accounts ix))"
  let ?p = "account_keys m ! unat (program_id_index ix)"
  let ?buf = "pre @ instruction_bytes m ix @ post"
  have "?a < 2 ^ 16" "?d < 2 ^ 16"
    using assms(2) by (simp_all add: instruction_bytes_def length_account_bytes)
  then have small: "unat (of_nat ?a :: u16) = ?a" "unat (of_nat ?d :: u16) = ?d"
    by (simp_all add: unat_of_nat)
  have "read_u16 (unat start) ?buf = Inr (of_nat ?a, unat start + 2)"
    using read_u16_at [OF assms(1), of "of_nat ?a"] by (simp add: instruction_bytes_def)
  moreover have "read_accounts ?a (unat start + 2) ?buf [] =
      Inr (map (meta_of m) (ci_accounts ix), unat start + 2 + 33 * ?a)"
    using read_accounts_at [of "pre @ enc_le 2 (of_nat ?a :: u16)" "unat start + 2" "ci_accounts ix" m _ "[]"]
    by (simp add: instruction_bytes_def assms(1))
  moreover have "read_pubkey (unat start + 2 + 33 * ?a) ?buf = Inr (?p, unat start + 2 + 33 * ?a + 32)"
    using read_pubkey_at [of "pre @ enc_le 2 (of_nat ?a :: u16) @ ?A" "unat start + 2 + 33 * ?a"]
    by (simp add: instruction_bytes_def assms(1) length_account_bytes)
  moreover have "read_u16 (unat start + 2 + 33 * ?a + 32) ?buf = Inr (of_nat ?d, unat start + 2 + 33 * ?a + 32 + 2)"
    using read_u16_at [of "pre @ enc_le 2 (of_nat ?a :: u16) @ ?A @ pubkey_bytes ?p" "unat start + 2 + 33 * ?a + 32"]
    by (simp add: instruction_bytes_def assms(1) length_account_bytes)
  moreover have "read_slice (unat start + 2 + 33 * ?a + 32 + 2) ?buf ?d =
      Inr (ci_data ix, unat start + 2 + 33 * ?a + 32 + 2 + ?d)"
    using read_slice_at [of "pre @ enc_le 2 (of_nat ?a :: u16) @ ?A @ pubkey_bytes ?p @ enc_le 2 (of_nat ?d :: u16)"
        "unat start + 2 + 33 * ?a + 32 + 2" "ci_data ix" ?d post]
    by (simp add: instruction_bytes_def assms(1) length_account_bytes)
  ultimately show ?thesis
    using assms(3,4) small by (simp add: deserialize_instruction_def decompile_def)
qed

text \<open>
  (C38) The instructions sysvar round trip: a message whose indices are in range serialises without a
  panic, and as long as the buffer is shorter than 2^16 bytes, loading instruction \<open>k\<close> from it (also
  with the current index, or anything else, appended) gives back its program, its accounts with
  their signer and writable flags as the message defines them, and its data.
\<close>

theorem serialize_instructions_roundtrip:
  assumes "indices_ok m" and k: "k < length (instructions m)"
  shows "\<exists>bs. serialize_instructions m = Some bs \<and>
    (length bs < 2 ^ 16 \<longrightarrow>
       load_instruction_at k (bs @ trailer) = Inr (decompile m (instructions m ! k)))"
proof -
  let ?n = "length (instructions m)" and ?B = "\<lambda>ixs. concat (map (instruction_bytes m) ixs)"
  let ?ix = "instructions m ! k"
  let ?start = "2 + 2 * ?n + length (?B (take k (instructions m)))"
  obtain pre post where table: "length pre = 2 * k"
    "offset_table m (2 + 2 * ?n) (instructions m) = pre @ enc_le 2 (of_nat ?start :: u16) @ post"
    using offset_table_nth [OF k] by blast
  let ?hd = "enc_le 2 (of_nat ?n :: u16)"
  let ?before = "?hd @ offset_table m (2 + 2 * ?n) (instructions m) @ ?B (take k (instructions m))"
  let ?after = "?B (drop (Suc k) (instructions m))"
  have bs: "serialize_instructions m = Some (?before @ instruction_bytes m ?ix @ ?after)"
    using serialize_instructions_layout [OF assms(1)] concat_nth_split [OF k] by simp
  have "deserialize_instruction k (?before @ instruction_bytes m ?ix @ (?after @ trailer)) =
      Inr (decompile m ?ix)"
    if small: "length (?before @ instruction_bytes m ?ix @ ?after) < 2 ^ 16"
  proof (rule read_instruction_at)
    have "?start < 2 ^ 16" using small by simp
    moreover have "unat (of_nat j :: u16) = j" if "j < 2 ^ 16" for j using that by (simp add: unat_of_nat)
    ultimately have "unat (of_nat ?start :: u16) = ?start" by blast
    then show "length ?before = unat (of_nat ?start :: u16)" by (simp only:) simp
    show "length (instruction_bytes m ?ix) < 2 ^ 16" using small by simp
    show "read_u16 0 (?before @ instruction_bytes m ?ix @ (?after @ trailer)) = Inr (of_nat ?n, 2)"
      using read_u16_at [of "[]" 0] by simp
    show "read_u16 (2 + k * 2) (?before @ instruction_bytes m ?ix @ (?after @ trailer)) =
        Inr (of_nat ?start, 2 + k * 2 + 2)"
      using read_u16_at [of "?hd @ pre" "2 + k * 2" "of_nat ?start"] table by simp
  qed
  with bs show ?thesis by (simp add: load_instruction_at_def)
qed

theorem serialize_instructions_roundtrip_witness:
  "\<exists>bs. serialize_instructions
      (new_with_compiled_instructions 1 0 1 [5, 6, 9] 0 [\<lparr>program_id_index = 2, ci_accounts = [0, 1], ci_data = [7]\<rparr>])
      = Some bs \<and> length bs = 107 \<and>
    load_instruction_at 0 bs = Inr
      \<lparr>program_id = 9,
       accounts = [\<lparr>meta_pubkey = 5, meta_is_signer = True, meta_is_writable = True\<rparr>,
         \<lparr>meta_pubkey = 6, meta_is_signer = False, meta_is_writable = True\<rparr>],
       ix_data = [7]\<rparr>"
  (is "\<exists>bs. serialize_instructions ?m = _ \<and> _ \<and> _ = Inr ?r")
proof -
  have ok: "indices_ok ?m" by (simp add: indices_ok_def new_with_compiled_instructions_def)
  moreover have "0 < length (instructions ?m)" by (simp add: new_with_compiled_instructions_def)
  ultimately obtain bs where bs: "serialize_instructions ?m = Some bs"
    "length bs < 2 ^ 16 \<longrightarrow> load_instruction_at 0 (bs @ []) = Inr (decompile ?m (instructions ?m ! 0))"
    using serialize_instructions_roundtrip [of ?m 0 "[]"] by blast
  from bs(1) have len: "length bs = 107"
    unfolding serialize_instructions_layout [OF ok]
    by (auto simp: new_with_compiled_instructions_def instruction_bytes_def account_bytes_def)
  moreover have "decompile ?m (instructions ?m ! 0) = ?r"
    by (simp add: decompile_def meta_of_def new_with_compiled_instructions_def msg_is_signer_def
      msg_is_writable_def)
  ultimately show ?thesis using bs by auto
qed

lemma current_index_roundtrip:
  assumes "store_current_index bs i = Some bs'"
  shows "load_current_index bs' = Some i" and "take (length bs - 2) bs' = take (length bs - 2) bs"
proof -
  have two: "2 \<le> length bs" and bs': "bs' = take (length bs - 2) bs @ enc_le 2 i"
    using assms by (auto simp: store_current_index_def write_at_def split: if_splits)
  then show "load_current_index bs' = Some i" "take (length bs - 2) bs' = take (length bs - 2) bs"
    by (simp_all add: load_current_index_def slice_def)
qed

end
