(* ===== verification/Fees.thy ===== *)
theory Fees
  imports Message
begin

text \<open>
  Transaction fees (\<open>sdk/program/src/fee_calculator.rs\<close>): the fee of a message, the governor that
  adjusts the price of a signature to the load of the cluster, and the burned part of the fees.
  The \<open>i64\<close> values of the governor are kept as words and read with \<open>sint\<close>.
\<close>

section \<open>Definitions\<close>

record fee_calculator =
  fc_lamports_per_signature :: u64

record fee_config =
  secp256k1_program_enabled :: bool

definition secp256k1_program_id :: pubkey where
  "secp256k1_program_id = 0x04c6fc20f050ccf05584d7211c9f8cf59ec14785bb166a1e2830e81220000000"

definition secp256k1_signatures :: "message \<Rightarrow> compiled_instruction \<Rightarrow> u64" where
  "secp256k1_signatures m ix =
     (let program_index = unat (program_id_index ix)
      in if program_index < length (account_keys m) \<and>
            account_keys m ! program_index = secp256k1_program_id \<and> ci_data ix \<noteq> []
         then ucast (hd (ci_data ix)) else 0)"

definition calculate_fee_with_config :: "fee_calculator \<Rightarrow> message \<Rightarrow> fee_config \<Rightarrow> u64" where
  "calculate_fee_with_config fc m config =
     (let num_secp256k1_signatures =
            (if secp256k1_program_enabled config
             then foldl (\<lambda>n ix. n + secp256k1_signatures m ix) 0 (instructions m) else 0)
      in fc_lamports_per_signature fc *
           (ucast (num_required_signatures (header m)) + num_secp256k1_signatures))"

definition calculate_fee :: "fee_calculator \<Rightarrow> message \<Rightarrow> u64" where
  "calculate_fee fc m = calculate_fee_with_config fc m \<lparr>secp256k1_program_enabled = True\<rparr>"

record fee_rate_governor =
  lamports_per_signature :: u64
  target_lamports_per_signature :: u64
  target_signatures_per_slot :: u64
  min_lamports_per_signature :: u64
  max_lamports_per_signature :: u64
  fee_burn_percent :: u8

definition default_fee_rate_governor :: fee_rate_governor where
  "default_fee_rate_governor =
     \<lparr>lamports_per_signature = 0, target_lamports_per_signature = 200000,
      target_signatures_per_slot = 50000 * 64 div 160, min_lamports_per_signature = 0,
      max_lamports_per_signature = 0, fee_burn_percent = 50\<rparr>"

definition signum :: "i64 \<Rightarrow> i64" where
  "signum g = (if sint g = 0 then 0 else if 0 < sint g then 1 else - 1)"

definition desired_lamports_per_signature :: "fee_rate_governor \<Rightarrow> u64 \<Rightarrow> u64" where
  "desired_lamports_per_signature me latest =
     min (max_lamports_per_signature me)
       (max (min_lamports_per_signature me)
         (target_lamports_per_signature me * min latest 0xFFFFFFFF div target_signatures_per_slot me))"

definition new_derived :: "fee_rate_governor \<Rightarrow> u64 \<Rightarrow> fee_rate_governor" where
  "new_derived base latest =
     (if 0 < target_signatures_per_slot base then
        let me = base\<lparr>min_lamports_per_signature := max 1 (target_lamports_per_signature base div 2),
                   max_lamports_per_signature := target_lamports_per_signature base * 10\<rparr>;
            desired = desired_lamports_per_signature me latest;
            gap = desired - lamports_per_signature base
        in if gap = 0 then me\<lparr>lamports_per_signature := desired\<rparr>
           else
             let gap_adjust = max 1 (target_lamports_per_signature me div 20) * signum gap
             in me\<lparr>lamports_per_signature :=
                  min (max_lamports_per_signature me)
                    (max (min_lamports_per_signature me) (lamports_per_signature base + gap_adjust))\<rparr>
      else
        base\<lparr>lamports_per_signature := target_lamports_per_signature base,
             min_lamports_per_signature := target_lamports_per_signature base,
             max_lamports_per_signature := target_lamports_per_signature base\<rparr>)"

definition fee_rate_governor_new :: "u64 \<Rightarrow> u64 \<Rightarrow> fee_rate_governor" where
  "fee_rate_governor_new target_lamports target_signatures =
     new_derived
       (default_fee_rate_governor\<lparr>target_lamports_per_signature := target_lamports,
          lamports_per_signature := target_lamports, target_signatures_per_slot := target_signatures\<rparr>) 0"

definition burn :: "fee_rate_governor \<Rightarrow> u64 \<Rightarrow> u64 \<times> u64" where
  "burn g fees =
     (let burned = fees * ucast (fee_burn_percent g) div 100 in (fees - burned, burned))"

definition create_fee_calculator :: "fee_rate_governor \<Rightarrow> fee_calculator" where
  "create_fee_calculator g = \<lparr>fc_lamports_per_signature = lamports_per_signature g\<rparr>"

section \<open>The governor\<close>

lemma adjusted_price:
  fixes price desired stp :: u64
  assumes "unat price < 2 ^ 63" and "unat desired < 2 ^ 63" and "unat stp < 2 ^ 63"
    and "stp \<le> price" and "desired \<noteq> price"
  shows "unat (price + stp * signum (desired - price)) =
    (if price < desired then unat price + unat stp else unat price - unat stp)"
proof -
  have gap: "sint (desired - price) = int (unat desired) - int (unat price)"
    by (rule sint_diff_small) (rule assms)+
  show ?thesis
  proof (cases "price < desired")
    case True
    then have "0 < sint (desired - price)" unfolding gap word_less_nat_alt by linarith
    then have "signum (desired - price) = 1" by (simp add: signum_def)
    moreover have "unat (price + stp) = unat price + unat stp"
      using assms by (intro unat_add_exact) simp
    ultimately show ?thesis using True by simp
  next
    case False
    with assms(5) have "unat desired < unat price"
      by (metis linorder_neqE_nat word_less_nat_alt unat_eq_iff)
    then have "sint (desired - price) < 0" unfolding gap by linarith
    then have "signum (desired - price) = - 1" by (simp add: signum_def)
    then show ?thesis using False assms(4) by (simp add: unat_sub_exact)
  qed
qed

text \<open>
  A governor that adjusts keeps the price of a signature between its new minimum and maximum,
  moves it by at most the step, a twentieth of the target, always towards the price the load asks
  for, and leaves it alone once it is there.
\<close>

theorem new_derived_step:
  fixes base :: fee_rate_governor and latest :: u64
  defines "next \<equiv> new_derived base latest"
    and "target \<equiv> unat (target_lamports_per_signature base)"
    and "price \<equiv> unat (lamports_per_signature base)"
  defines "price' \<equiv> unat (lamports_per_signature next)"
    and "desired \<equiv> unat (desired_lamports_per_signature next latest)"
    and "stp \<equiv> max 1 (target div 20)"
  assumes signatures: "0 < target_signatures_per_slot base"
    and target: "0 < target" "target * 10 < 2 ^ 63"
    and price: "max 1 (target div 2) \<le> price" "price \<le> target * 10"
  shows "unat (min_lamports_per_signature next) \<le> price' \<and>
    price' \<le> unat (max_lamports_per_signature next) \<and> price' \<le> price + stp \<and> price \<le> price' + stp \<and>
    (price < desired \<longrightarrow> price < price') \<and> (desired < price \<longrightarrow> price' < price) \<and>
    (price = desired \<longrightarrow> price' = price)"
proof -
  define me where "me = base\<lparr>min_lamports_per_signature := max 1 (target_lamports_per_signature base div 2),
    max_lamports_per_signature := target_lamports_per_signature base * 10\<rparr>"
  define d where "d = desired_lamports_per_signature me latest"
  define st :: u64 where "st = max 1 (target_lamports_per_signature base div 20)"
  have next_eq: "next = me\<lparr>lamports_per_signature := (if d = lamports_per_signature base then d else
      min (max_lamports_per_signature me) (max (min_lamports_per_signature me)
        (lamports_per_signature base + st * signum (d - lamports_per_signature base))))\<rparr>"
    using signatures
    by (simp add: next_def new_derived_def Let_def me_def [symmetric] d_def [symmetric] st_def)
      (simp add: me_def)
  have lo: "unat (min_lamports_per_signature me) = max 1 (target div 2)"
    by (simp add: me_def unat_max unat_div target_def)
  have hi: "unat (max_lamports_per_signature me) = target * 10"
    using target(2) by (simp add: me_def target_def unat_mult_exact)
  have st: "unat st = stp" by (simp add: st_def stp_def unat_max unat_div target_def)
  have "desired = unat d"
    by (simp add: desired_def d_def next_eq me_def desired_lamports_per_signature_def)
  moreover have d: "max 1 (target div 2) \<le> unat d" "unat d \<le> target * 10"
    using target(1) by (simp_all add: d_def desired_lamports_per_signature_def unat_min unat_max lo hi)
  moreover have "stp \<le> max 1 (target div 2)" "0 < stp" by (simp_all add: stp_def)
  moreover have "unat (lamports_per_signature base + st * signum (d - lamports_per_signature base)) =
      (if lamports_per_signature base < d then price + stp else price - stp)"
    if "d \<noteq> lamports_per_signature base"
    unfolding price_def st [symmetric]
    by (rule adjusted_price) (use that d st price target calculation in \<open>auto simp: price_def word_le_nat_alt\<close>)
  ultimately show ?thesis
    using price unfolding price'_def next_eq
    by (auto simp: unat_min unat_max lo hi price_def [symmetric] word_less_nat_alt unat_eq_iff
      le_max_iff_disj)
qed

theorem new_derived_step_witness:
  "200000 < unat (lamports_per_signature
       (new_derived (default_fee_rate_governor\<lparr>lamports_per_signature := 200000\<rparr>) 40000)) \<and>
   unat (lamports_per_signature
       (new_derived (default_fee_rate_governor\<lparr>lamports_per_signature := 200000\<rparr>) 40000)) \<le> 210000"
proof -
  let ?g = "default_fee_rate_governor\<lparr>lamports_per_signature := 200000\<rparr>"
  have "desired_lamports_per_signature (new_derived ?g 40000) 40000 = 400000"
    by (simp add: new_derived_def default_fee_rate_governor_def desired_lamports_per_signature_def
      Let_def min_def max_def)
  then show ?thesis
    using new_derived_step [of ?g 40000] by (simp add: default_fee_rate_governor_def)
qed

text \<open>The parts of the fees that \<open>burn\<close> returns add up to the fees.\<close>

lemma burn_split:
  assumes "unat fees * unat (fee_burn_percent g) < 2 ^ 64" and "fee_burn_percent g \<le> 100"
    and "burn g fees = (unburned, burned)"
  shows "unat unburned + unat burned = unat fees"
    and "unat burned = unat fees * unat (fee_burn_percent g) div 100"
  using assms percent_split [of fees "fee_burn_percent g"] by (auto simp: burn_def Let_def)

end
