(* ===== verification/RecentMap.thy ===== *)
theory RecentMap
  imports Prelude
begin

text \<open>
  Vectors of pairs in descending order of their keys, searched with the standard library's
  \<open>binary_search_by\<close>, whose loop is modelled as well, as bounded maps. Slot hashes and the stake
  history are such vectors; the locale \<open>recent_map\<close> is their contract.
\<close>

section \<open>Binary search\<close>

datatype ordering = Less | Equal | Greater

definition cmp :: "'a::linorder \<Rightarrow> 'a \<Rightarrow> ordering" where
  "cmp x y = (if x < y then Less else if x = y then Equal else Greater)"

function search_loop :: "('a \<Rightarrow> ordering) \<Rightarrow> 'a list \<Rightarrow> nat \<Rightarrow> nat \<Rightarrow> nat" where
  "search_loop f xs base sz =
     (if 1 < sz then
        let half = sz div 2; mid = base + half
        in search_loop f xs (if f (xs ! mid) = Greater then base else mid) (sz - half)
      else base)"
  by pat_completeness auto
termination
  by (relation "measure (\<lambda>(_, _, _, sz). sz)") auto

declare search_loop.simps [simp del]

text \<open>\<open>Inr i\<close> is \<open>Ok i\<close>, a match at \<open>i\<close>; \<open>Inl i\<close> is \<open>Err i\<close>, the place to insert.\<close>

definition binary_search_by :: "('a \<Rightarrow> ordering) \<Rightarrow> 'a list \<Rightarrow> nat + nat" where
  "binary_search_by f xs =
     (if xs = [] then Inl 0
      else let base = search_loop f xs 0 (length xs)
           in case f (xs ! base) of
                Equal \<Rightarrow> Inr base
              | Less \<Rightarrow> Inl (base + 1)
              | Greater \<Rightarrow> Inl base)"

section \<open>The search is correct\<close>

fun ord_rank :: "ordering \<Rightarrow> nat" where
  "ord_rank Less = 0" | "ord_rank Equal = 1" | "ord_rank Greater = 2"

lemma search_loop_spec:
  assumes "sorted (map (\<lambda>x. ord_rank (f x)) xs)" and "0 < sz" and "base + sz \<le> length xs"
    and "\<And>j. base + sz \<le> j \<Longrightarrow> j < length xs \<Longrightarrow> f (xs ! j) = Greater"
    and "base = 0 \<or> f (xs ! base) \<noteq> Greater"
  defines "r \<equiv> search_loop f xs base sz"
  shows "r < length xs \<and> (\<forall>j. r < j \<longrightarrow> j < length xs \<longrightarrow> f (xs ! j) = Greater) \<and>
    (r = 0 \<or> f (xs ! r) \<noteq> Greater)"
  unfolding r_def using assms(1-5)
proof (induction f xs base sz rule: search_loop.induct)
  case (1 f xs base sz)
  show ?case
  proof (cases "1 < sz")
    case False
    with "1.prems"(2) have sz: "sz = 1" by simp
    then have "search_loop f xs base sz = base" by (subst search_loop.simps) simp
    with "1.prems"(3-5) sz show ?thesis by (simp add: Suc_le_eq)
  next
    case True
    define mid where "mid = base + sz div 2"
    have mid: "mid < length xs" using "1.prems"(3) True by (simp add: mid_def)
    have mono: "ord_rank (f (xs ! mid)) \<le> ord_rank (f (xs ! j))" if "mid \<le> j" "j < length xs" for j
      using "1.prems"(1) that by (auto simp: sorted_iff_nth_mono)
    have above: "f (xs ! j) = Greater" if "f (xs ! mid) = Greater" "mid \<le> j" "j < length xs" for j
      using mono [OF that(2,3)] that(1) by (cases "f (xs ! j)") auto
    let ?base = "if f (xs ! mid) = Greater then base else mid"
    have beyond: "f (xs ! j) = Greater" if "?base + (sz - sz div 2) \<le> j" "j < length xs" for j
    proof (cases "f (xs ! mid) = Greater")
      case g: True
      then have "mid \<le> j" using that(1) by (simp add: mid_def)
      with g show ?thesis using that(2) by (rule above)
    next
      case False
      then have "base + sz \<le> j" using that(1) by (simp add: mid_def)
      then show ?thesis using that(2) by (rule "1.prems"(4))
    qed
    have "0 < sz - sz div 2" using True by simp
    moreover have "?base + (sz - sz div 2) \<le> length xs"
      using "1.prems"(3) mid by (cases "f (xs ! mid) = Greater") (simp_all add: mid_def)
    moreover have "?base = 0 \<or> f (xs ! ?base) \<noteq> Greater" using "1.prems"(5) by simp
    moreover have loop: "search_loop f xs base sz = search_loop f xs ?base (sz - sz div 2)"
      by (subst search_loop.simps) (simp only: True mid_def Let_def if_True)
    ultimately show ?thesis
      unfolding loop using beyond by (intro "1.IH" [OF True refl mid_def "1.prems"(1)])
  qed
qed

lemma binary_search_by_spec:
  assumes "sorted (map (\<lambda>x. ord_rank (f x)) xs)"
  shows "case binary_search_by f xs of
      Inr i \<Rightarrow> i < length xs \<and> f (xs ! i) = Equal
    | Inl i \<Rightarrow> i \<le> length xs \<and> (\<forall>j<i. f (xs ! j) = Less) \<and>
        (\<forall>j. i \<le> j \<longrightarrow> j < length xs \<longrightarrow> f (xs ! j) = Greater)"
proof (cases "xs = []")
  case False
  define r where "r = search_loop f xs 0 (length xs)"
  have r: "r < length xs" "\<And>j. r < j \<Longrightarrow> j < length xs \<Longrightarrow> f (xs ! j) = Greater"
    "r = 0 \<or> f (xs ! r) \<noteq> Greater"
    using search_loop_spec [OF assms, of "length xs" 0] False unfolding r_def by simp_all
  have "f (xs ! j) = Less" if "f (xs ! r) = Less" "j \<le> r" for j
  proof -
    have "ord_rank (f (xs ! j)) \<le> ord_rank (f (xs ! r))"
      using assms that(2) r(1) by (auto simp: sorted_iff_nth_mono)
    with that(1) show ?thesis by (cases "f (xs ! j)") auto
  qed
  note below = this
  have search: "binary_search_by f xs =
      (case f (xs ! r) of Equal \<Rightarrow> Inr r | Less \<Rightarrow> Inl (r + 1) | Greater \<Rightarrow> Inl r)"
    using False by (simp add: binary_search_by_def Let_def r_def [symmetric])
  show ?thesis
  proof (cases "f (xs ! r)")
    case Less
    with r(1,2) below [OF Less] show ?thesis by (simp add: search Suc_le_eq)
  next
    case Equal
    with r(1) show ?thesis by (simp add: search)
  next
    case Greater
    with r(3) have "r = 0" by simp
    with Greater r(2) show ?thesis by (simp add: search) (metis neq0_conv)
  qed
qed (simp add: binary_search_by_def)

lemma cmp_iff [simp]:
  "cmp x y = Less \<longleftrightarrow> x < y" "cmp x y = Equal \<longleftrightarrow> x = y" "cmp x y = Greater \<longleftrightarrow> y < x"
  by (auto simp: cmp_def)

section \<open>A descending vector is a map\<close>

definition descending :: "('k::linorder \<times> 'v) list \<Rightarrow> bool" where
  "descending h \<longleftrightarrow> sorted_wrt (>) (map fst h)"

definition recent_search :: "'k::linorder \<Rightarrow> ('k \<times> 'v) list \<Rightarrow> nat + nat" where
  "recent_search k h = binary_search_by (\<lambda>(probe, _). cmp k probe) h"

definition recent_get :: "('k::linorder \<times> 'v) list \<Rightarrow> 'k \<Rightarrow> 'v option" where
  "recent_get h k = (case recent_search k h of Inr index \<Rightarrow> Some (snd (h ! index)) | Inl _ \<Rightarrow> None)"

lemma descending_distinct: "descending h \<Longrightarrow> distinct (map fst h)"
  by (induction h) (auto simp: descending_def)

lemma recent_search_spec:
  assumes "descending h"
  shows "case recent_search sl h of
      Inr i \<Rightarrow> i < length h \<and> fst (h ! i) = sl
    | Inl i \<Rightarrow> i \<le> length h \<and> (\<forall>x\<in>set (take i h). sl < fst x) \<and> (\<forall>x\<in>set (drop i h). fst x < sl)"
proof -
  let ?f = "\<lambda>(probe, _). cmp sl probe"
  have "sorted (map (\<lambda>x. ord_rank (?f x)) h)"
    unfolding sorted_map
    by (rule sorted_wrt_mono_rel [of _ "\<lambda>x y. fst y < fst x"])
      (use assms in \<open>auto simp: descending_def sorted_wrt_map cmp_def split: prod.splits\<close>)
  note spec = binary_search_by_spec [OF this, folded recent_search_def]
  show ?thesis
  proof (cases "recent_search sl h")
    case (Inl i)
    with spec have i: "i \<le> length h" "\<And>j. j < i \<Longrightarrow> sl < fst (h ! j)"
      "\<And>j. i \<le> j \<Longrightarrow> j < length h \<Longrightarrow> fst (h ! j) < sl"
      by (simp_all add: case_prod_unfold cmp_iff)
    then show ?thesis by (simp add: Inl all_set_conv_all_nth)
  next
    case (Inr i)
    with spec show ?thesis by (simp add: case_prod_unfold cmp_iff)
  qed
qed

text \<open>The vector before it is truncated.\<close>

definition recent_insert :: "('k::linorder \<times> 'v) list \<Rightarrow> 'k \<Rightarrow> 'v \<Rightarrow> ('k \<times> 'v) list" where
  "recent_insert h sl hs =
     (case recent_search sl h of
        Inr index \<Rightarrow> h[index := (sl, hs)]
      | Inl index \<Rightarrow> take index h @ (sl, hs) # drop index h)"

lemma descending_split:
  "descending (xs @ y # zs) \<longleftrightarrow> descending (xs @ zs) \<and> (\<forall>x\<in>set xs. fst y < fst x) \<and> (\<forall>z\<in>set zs. fst z < fst y)"
  by (auto simp: descending_def sorted_wrt_append)

lemma map_of_insert_key:
  "fst y \<notin> fst ` set xs \<Longrightarrow> map_of (xs @ y # zs) = (map_of (xs @ zs))(fst y \<mapsto> snd y)"
  by (induction xs) (auto simp: fun_eq_iff)

lemma recent_insert_spec:
  assumes "descending h"
  shows "descending (recent_insert h sl hs) \<and>
    map_of (recent_insert h sl hs) = (map_of h)(sl \<mapsto> hs) \<and>
    fst ` set (recent_insert h sl hs) = insert sl (fst ` set h)"
proof (cases "recent_search sl h")
  case (Inl i)
  with recent_search_spec [OF assms, of sl]
  have i: "\<forall>x\<in>set (take i h). sl < fst x" "\<forall>x\<in>set (drop i h). fst x < sl" by simp_all
  have "sl \<notin> fst ` set (take i h)" using i(1) by auto
  moreover have "set h = set (take i h) \<union> set (drop i h)" by (metis append_take_drop_id set_append)
  then have "fst ` set (take i h @ (sl, hs) # drop i h) = insert sl (fst ` set h)" by auto
  ultimately show ?thesis
    using map_of_insert_key [of "(sl, hs)" "take i h" "drop i h"] i assms
    by (simp add: recent_insert_def Inl descending_split del: set_append)
next
  case (Inr i)
  with recent_search_spec [OF assms, of sl] have i: "i < length h" "fst (h ! i) = sl" by simp_all
  let ?xs = "take i h" and ?zs = "drop (Suc i) h"
  have h: "h = ?xs @ h ! i # ?zs" using i(1) by (rule id_take_nth_drop)
  have parts: "descending (?xs @ ?zs)" "\<forall>x\<in>set ?xs. sl < fst x" "\<forall>z\<in>set ?zs. fst z < sl"
    using assms descending_split [of ?xs "h ! i" ?zs] h i(2) by auto
  have "sl \<notin> fst ` set ?xs" using parts(2) by auto
  then have "map_of (?xs @ y # ?zs) = (map_of (?xs @ ?zs))(sl \<mapsto> snd y)" if "fst y = sl" for y
    using map_of_insert_key [of y] that by simp
  from this [of "(sl, hs)"] this [OF i(2)] have "map_of (?xs @ (sl, hs) # ?zs) = (map_of h)(sl \<mapsto> hs)"
    using h by simp
  moreover have "fst ` set h = insert sl (fst ` set (?xs @ ?zs))"
    using arg_cong [OF h, of "\<lambda>xs. fst ` set xs"] i(2) by auto
  moreover have "recent_insert h sl hs = ?xs @ (sl, hs) # ?zs"
    using i(1) by (simp add: recent_insert_def Inr upd_conv_take_nth_drop)
  ultimately show ?thesis using parts by (simp add: descending_split)
qed

lemma recent_get_map_of: "descending h \<Longrightarrow> recent_get h k = map_of h k"
proof -
  assume d: "descending h"
  show ?thesis
  proof (cases "recent_search k h")
    case (Inl i)
    with recent_search_spec [OF d, of k]
    have "\<forall>x\<in>set (take i h) \<union> set (drop i h). fst x \<noteq> k" by auto
    then have "k \<notin> fst ` set h"
      using set_append [of "take i h" "drop i h"] by (auto simp: image_iff)
    then have "map_of h k = None" by (simp add: map_of_eq_None_iff)
    then show ?thesis by (simp add: recent_get_def Inl)
  next
    case (Inr i)
    with recent_search_spec [OF d, of k] have i: "i < length h" "fst (h ! i) = k" by simp_all
    then have "(k, snd (h ! i)) \<in> set h" by (metis nth_mem prod.collapse)
    then show ?thesis using descending_distinct [OF d] by (simp add: recent_get_def Inr)
  qed
qed

lemma descending_last_Min:
  "descending (xs @ [y]) \<Longrightarrow> Min (fst ` set (xs @ [y])) = fst y"
  by (rule Min_eqI) (auto simp: descending_def sorted_wrt_append)

text \<open>
  The contract of a bounded history: a vector of pairs in descending order of keys, whose lookup and
  insertion use the search above and which keeps the newest \<open>cap\<close> entries.
\<close>

locale recent_map =
  fixes get :: "('k::linorder \<times> 'v) list \<Rightarrow> 'k \<Rightarrow> 'v option"
    and add :: "('k \<times> 'v) list \<Rightarrow> 'k \<Rightarrow> 'v \<Rightarrow> ('k \<times> 'v) list" and cap :: nat
  assumes get_search: "get h k = recent_get h k"
    and add_insert: "add h k v = take cap (recent_insert h k v)"
begin

lemma get_map_of: "descending h \<Longrightarrow> get h k = map_of h k"
  by (simp add: get_search recent_get_map_of)

lemma get_add:
  assumes "descending h" and "length h \<le> cap"
  shows "descending (add h sl hs) \<and> length (add h sl hs) \<le> cap \<and>
    get (add h sl hs) k =
      (if cap < card (insert sl (fst ` set h)) \<and> k = Min (insert sl (fst ` set h)) then None
       else if k = sl then Some hs else get h k)"
proof -
  let ?i = "recent_insert h sl hs"
  have spec: "descending ?i" "map_of ?i = (map_of h)(sl \<mapsto> hs)" "fst ` set ?i = insert sl (fst ` set h)"
    using recent_insert_spec [OF assms(1)] by blast+
  have add: "add h sl hs = take cap ?i"
    by (rule add_insert)
  have card: "length ?i = card (insert sl (fst ` set h))"
    using distinct_card [OF descending_distinct [OF spec(1)]] spec(3) by simp
  have sorted: "descending (add h sl hs)"
    using spec(1) by (simp add: add descending_def take_map [symmetric] sorted_wrt_take)
  moreover have "get (add h sl hs) k =
      (if cap < card (insert sl (fst ` set h)) \<and> k = Min (insert sl (fst ` set h)) then None
       else ((map_of h)(sl \<mapsto> hs)) k)"
  proof (cases "cap < length ?i")
    case False
    then show ?thesis using sorted spec(2) card by (simp add: get_map_of add)
  next
    case True
    have "card (fst ` set h) \<le> length h" using card_length [of "map fst h"] by simp
    then have "card (insert sl (fst ` set h)) \<le> Suc (length h)" by (simp add: card_insert_if)
    with True card assms(2) have "length (drop cap ?i) = Suc 0" by simp
    then obtain y where "drop cap ?i = [y]" unfolding length_Suc_conv by auto
    then have i: "take cap ?i @ [y] = ?i" using append_take_drop_id [of cap ?i] by simp
    have y: "fst y = Min (insert sl (fst ` set h))"
      using descending_last_Min [of "take cap ?i" y] unfolding i spec(3) by (simp add: spec(1))
    have "distinct (map fst (take cap ?i @ [y]))" using descending_distinct [OF spec(1)] unfolding i .
    then have "fst y \<notin> fst ` set (take cap ?i)" by simp
    then have "map_of (take cap ?i) k = (if k = fst y then None else map_of (take cap ?i @ [y]) k)"
      by (auto simp: map_of_eq_None_iff map_add_def split: option.split)
    then show ?thesis
      unfolding i spec(2) using True y card sorted by (simp add: get_map_of add)
  qed
  ultimately show ?thesis
    using get_map_of [OF assms(1)] by (simp add: add)
qed

end

end
