(* ===== verification/SlotHashes.thy ===== *)
theory SlotHashes
  imports RecentMap
begin

text \<open>The recent slot hashes (\<open>sdk/program/src/slot_hashes.rs\<close>).\<close>

section \<open>Slot hashes\<close>

definition SLOT_HASHES_MAX_ENTRIES :: nat where
  "SLOT_HASHES_MAX_ENTRIES = 512"

type_synonym slot_hashes = "(slot \<times> hash) list"

definition slot_hashes_search :: "slot \<Rightarrow> slot_hashes \<Rightarrow> nat + nat" where
  "slot_hashes_search sl h = binary_search_by (\<lambda>(probe, _). cmp sl probe) h"

definition slot_hashes_add :: "slot_hashes \<Rightarrow> slot \<Rightarrow> hash \<Rightarrow> slot_hashes" where
  "slot_hashes_add h sl hs =
     take SLOT_HASHES_MAX_ENTRIES
       (case slot_hashes_search sl h of
          Inr index \<Rightarrow> h[index := (sl, hs)]
        | Inl index \<Rightarrow> take index h @ (sl, hs) # drop index h)"

definition slot_hashes_get :: "slot_hashes \<Rightarrow> slot \<Rightarrow> hash option" where
  "slot_hashes_get h sl =
     (case slot_hashes_search sl h of Inr index \<Rightarrow> Some (snd (h ! index)) | Inl _ \<Rightarrow> None)"

definition slot_hashes_new :: "(slot \<times> hash) list \<Rightarrow> slot_hashes" where
  "slot_hashes_new hs = sort_key (\<lambda>(sl, _). - int (unat sl)) hs"

interpretation slot_hashes: recent_map slot_hashes_get slot_hashes_add 512
proof
  show "slot_hashes_get h k = recent_get h k" for h k
    by (simp add: slot_hashes_get_def slot_hashes_search_def recent_get_def recent_search_def)
  show "slot_hashes_add h k v = take 512 (recent_insert h k v)" for h k v
    by (simp add: slot_hashes_add_def slot_hashes_search_def SLOT_HASHES_MAX_ENTRIES_def
      recent_insert_def recent_search_def)
qed

text \<open>
  Adding a slot hash to a full or partly filled vector keeps it sorted and within 512 entries,
  and lookup afterwards is lookup in the map updated at the slot, except that when 513 slots would
  be present the oldest is dropped (which is the new one when it is older than all others).
\<close>

theorem slot_hashes_get_add:
  assumes "descending h" and "length h \<le> 512"
  shows "descending (slot_hashes_add h sl hs) \<and> length (slot_hashes_add h sl hs) \<le> 512 \<and>
    slot_hashes_get (slot_hashes_add h sl hs) k =
      (if 512 < card (insert sl (fst ` set h)) \<and> k = Min (insert sl (fst ` set h)) then None
       else if k = sl then Some hs else slot_hashes_get h k)"
  using assms by (rule slot_hashes.get_add)

theorem slot_hashes_get_add_witness:
  "slot_hashes_get (slot_hashes_add [(9, 90), (4, 40)] 7 70) 7 = Some 70 \<and>
   slot_hashes_get (slot_hashes_add [(9, 90), (4, 40)] 7 70) 4 = Some 40 \<and>
   slot_hashes_get (slot_hashes_add [(9, 90), (4, 40)] 7 70) 5 = None"
proof -
  have d: "descending [(9 :: slot, 90 :: hash), (4, 40)]" by (simp add: descending_def)
  note get = slot_hashes_get_add [OF d, of 7 70, THEN conjunct2, THEN conjunct2]
  show ?thesis
    using get [of 7] get [of 4] get [of 5] by (simp add: slot_hashes.get_map_of [OF d])
qed

end
