(* ===== verification/SlotHistory.thy ===== *)
theory SlotHistory
  imports Prelude
begin

text \<open>
  The slot history sysvar (\<open>sdk/program/src/slot_history.rs\<close>): a ring of 2^20 bits recording which
  recent slots have a bank. The bit vector is the \<open>bv\<close> crate's, which is not part of the repository:
  its operations are the record \<open>'b bitvec\<close>, and \<open>bitvec_ok\<close> states what the code relies on.
\<close>

section \<open>Definitions\<close>

record 'b bitvec =
  bv_new_fill :: "bool \<Rightarrow> nat \<Rightarrow> 'b"
  bv_len :: "'b \<Rightarrow> nat"
  bv_get :: "'b \<Rightarrow> nat \<Rightarrow> bool"
  bv_set :: "'b \<Rightarrow> nat \<Rightarrow> bool \<Rightarrow> 'b"
  bv_set_block :: "'b \<Rightarrow> nat \<Rightarrow> u64 \<Rightarrow> 'b"

record 'b slot_history =
  hist_bits :: 'b
  next_slot :: slot

definition MAX_ENTRIES :: u64 where
  "MAX_ENTRIES = 1024 * 1024"

datatype slot_check = Future | TooOld | Found | NotFound

definition default_slot_history :: "'b bitvec \<Rightarrow> 'b slot_history" where
  "default_slot_history B =
     \<lparr>hist_bits = bv_set B (bv_new_fill B False (unat MAX_ENTRIES)) 0 True, next_slot = 1\<rparr>"

definition history_add :: "'b bitvec \<Rightarrow> 'b slot_history \<Rightarrow> slot \<Rightarrow> 'b slot_history" where
  "history_add B h sl =
     (let full_blocks = unat MAX_ENTRIES div 64;
          cleared =
            (if next_slot h < sl \<and> MAX_ENTRIES \<le> sl - next_slot h
             then foldl (\<lambda>b i. bv_set_block B b i 0) (hist_bits h) [0..<full_blocks]
             else foldl (\<lambda>b skipped. bv_set B b (skipped mod unat MAX_ENTRIES) False) (hist_bits h)
                    [unat (next_slot h)..<unat sl])
      in \<lparr>hist_bits = bv_set B cleared (unat (sl mod MAX_ENTRIES)) True, next_slot = sl + 1\<rparr>)"

definition history_oldest :: "'b slot_history \<Rightarrow> slot" where
  "history_oldest h = saturating_sub (next_slot h) MAX_ENTRIES"

definition history_newest :: "'b slot_history \<Rightarrow> slot" where
  "history_newest h = next_slot h - 1"

definition history_check :: "'b bitvec \<Rightarrow> 'b slot_history \<Rightarrow> slot \<Rightarrow> slot_check" where
  "history_check B h sl =
     (if history_newest h < sl then Future
      else if sl < history_oldest h then TooOld
      else if bv_get B (hist_bits h) (unat (sl mod MAX_ENTRIES)) then Found
      else NotFound)"

section \<open>The contract of the bit vector\<close>

definition bitvec_ok :: "'b bitvec \<Rightarrow> bool" where
  "bitvec_ok B \<longleftrightarrow>
     (\<forall>v n. bv_len B (bv_new_fill B v n) = n \<and> (\<forall>i<n. bv_get B (bv_new_fill B v n) i = v)) \<and>
     (\<forall>b i v. i < bv_len B b \<longrightarrow> bv_len B (bv_set B b i v) = bv_len B b \<and>
        (\<forall>j<bv_len B b. bv_get B (bv_set B b i v) j = (if j = i then v else bv_get B b j))) \<and>
     (\<forall>b k. 64 * k + 64 \<le> bv_len B b \<longrightarrow> bv_len B (bv_set_block B b k 0) = bv_len B b \<and>
        (\<forall>j<bv_len B b. bv_get B (bv_set_block B b k 0) j = (j div 64 \<noteq> k \<and> bv_get B b j)))"

lemma unat_MAX_ENTRIES [simp]: "unat MAX_ENTRIES = 1048576"
  by (simp add: MAX_ENTRIES_def)

lemma clear_blocks:
  assumes "bitvec_ok B" and "64 * n \<le> bv_len B b"
  shows "bv_len B (foldl (\<lambda>b i. bv_set_block B b i 0) b [0..<n]) = bv_len B b \<and>
    (\<forall>j<bv_len B b. bv_get B (foldl (\<lambda>b i. bv_set_block B b i 0) b [0..<n]) j
      = (n \<le> j div 64 \<and> bv_get B b j))"
  using assms(2)
proof (induction n)
  case (Suc n)
  let ?b = "foldl (\<lambda>b i. bv_set_block B b i 0) b [0..<n]"
  have IH: "bv_len B ?b = bv_len B b" "\<forall>j<bv_len B b. bv_get B ?b j = (n \<le> j div 64 \<and> bv_get B b j)"
    using Suc by auto
  moreover have "bv_len B (bv_set_block B ?b n 0) = bv_len B ?b \<and>
      (\<forall>j<bv_len B ?b. bv_get B (bv_set_block B ?b n 0) j = (j div 64 \<noteq> n \<and> bv_get B ?b j))"
    using assms(1) Suc.prems IH(1) by (simp add: bitvec_ok_def)
  ultimately show ?case by auto
qed simp

lemma clear_slots:
  assumes "bitvec_ok B" and "bv_len B b = 1048576"
  shows "bv_len B (foldl (\<lambda>b s. bv_set B b (s mod 1048576) False) b xs) = 1048576 \<and>
    (\<forall>j<1048576. bv_get B (foldl (\<lambda>b s. bv_set B b (s mod 1048576) False) b xs) j
      = (j \<notin> (\<lambda>s. s mod 1048576) ` set xs \<and> bv_get B b j))"
  using assms(2)
proof (induction xs arbitrary: b)
  case (Cons s xs)
  have "bv_len B (bv_set B b (s mod 1048576) False) = 1048576 \<and>
      (\<forall>j<1048576. bv_get B (bv_set B b (s mod 1048576) False) j
        = (if j = s mod 1048576 then False else bv_get B b j))"
    using assms(1) Cons.prems by (simp add: bitvec_ok_def)
  with Cons.IH [of "bv_set B b (s mod 1048576) False"] show ?case by auto
qed simp

lemma mod_window: "a < b \<Longrightarrow> b - a < m \<Longrightarrow> a mod m \<noteq> b mod (m :: nat)"
  by (metis dvd_imp_le leD less_imp_le_nat mod_eq_dvd_iff_nat zero_less_diff)

section \<open>The history as a set of slots\<close>

text \<open>The bits inside the window of the last 2^20 slots are membership in \<open>A\<close>.\<close>

definition history_of :: "'b bitvec \<Rightarrow> 'b slot_history \<Rightarrow> nat set \<Rightarrow> bool" where
  "history_of B h A \<longleftrightarrow>
     bv_len B (hist_bits h) = 1048576 \<and> 0 < unat (next_slot h) \<and>
     (\<forall>s. unat (next_slot h) \<le> s + 1048576 \<longrightarrow> s < unat (next_slot h) \<longrightarrow>
        bv_get B (hist_bits h) (s mod 1048576) = (s \<in> A))"

lemma history_of_default: "bitvec_ok B \<Longrightarrow> history_of B (default_slot_history B) {0}"
  by (auto simp: history_of_def default_slot_history_def bitvec_ok_def)

lemma history_of_add:
  assumes B: "bitvec_ok B" and h: "history_of B h A" and sl: "next_slot h \<le> sl" "sl \<noteq> - 1"
  shows "history_of B (history_add B h sl) (insert (unat sl) {s \<in> A. s < unat (next_slot h)})"
proof -
  let ?n = "unat (next_slot h)" and ?M = "1048576 :: nat" and ?h = "history_add B h sl"
  have n: "?n \<le> unat sl" using sl(1) by (simp add: word_le_nat_alt)
  have next': "unat (next_slot ?h) = unat sl + 1"
    using sl(2) by (simp add: history_add_def Let_def unat_succ)
  define c where "c = (if next_slot h < sl \<and> MAX_ENTRIES \<le> sl - next_slot h
    then foldl (\<lambda>b i. bv_set_block B b i 0) (hist_bits h) [0..<?M div 64]
    else foldl (\<lambda>b s. bv_set B b (s mod ?M) False) (hist_bits h) [?n..<unat sl])"
  have len: "bv_len B (hist_bits h) = ?M" using h by (simp add: history_of_def)
  have c: "bv_len B c = ?M \<and> (\<forall>s. unat sl + 1 \<le> s + ?M \<longrightarrow> s < unat sl \<longrightarrow>
      bv_get B c (s mod ?M) = (s \<in> A \<and> s < ?n))"
  proof (cases "next_slot h < sl \<and> MAX_ENTRIES \<le> sl - next_slot h")
    case True
    then have "?M \<le> unat sl - ?n" using sl(1) by (simp add: word_le_nat_alt unat_sub_exact)
    moreover have "bv_len B c = ?M \<and> (\<forall>j<?M. bv_get B c j = (?M div 64 \<le> j div 64 \<and> bv_get B (hist_bits h) j))"
      using clear_blocks [OF B, of "?M div 64" "hist_bits h"] True len by (simp add: c_def)
    moreover have "\<not> ?M div 64 \<le> (s mod ?M) div 64" for s :: nat
      using div_le_mono [of "s mod ?M" "?M - 1" 64] mod_less_divisor [of ?M s] by simp
    ultimately show ?thesis by auto
  next
    case False
    then have bits: "bv_len B c = ?M \<and> (\<forall>j<?M. bv_get B c j
        = (j \<notin> (\<lambda>s. s mod ?M) ` {?n..<unat sl} \<and> bv_get B (hist_bits h) j))"
      using clear_slots [OF B len, of "[?n..<unat sl]"] unfolding c_def by (simp only: if_False set_upt) simp
    have "bv_get B c (s mod ?M) = (s \<in> A \<and> s < ?n)" if s: "unat sl + 1 \<le> s + ?M" "s < unat sl" for s
    proof (cases "s < ?n")
      case True
      have "s mod ?M \<noteq> t mod ?M" if "t \<in> {?n..<unat sl}" for t
        using that s True by (intro mod_window) auto
      then have "s mod ?M \<notin> (\<lambda>s. s mod ?M) ` {?n..<unat sl}" by blast
      with bits have "bv_get B c (s mod ?M) = bv_get B (hist_bits h) (s mod ?M)" by simp
      then show ?thesis using True h s n by (simp add: history_of_def)
    next
      case False
      then have "s mod ?M \<in> (\<lambda>s. s mod ?M) ` {?n..<unat sl}" using s(2) by simp
      with bits have "\<not> bv_get B c (s mod ?M)" by simp
      with False show ?thesis by simp
    qed
    with bits show ?thesis by blast
  qed
  have bits': "hist_bits ?h = bv_set B c (unat sl mod ?M) True"
    by (simp add: history_add_def c_def Let_def unat_mod)
  have set_bit: "bv_len B (bv_set B c (unat sl mod ?M) True) = ?M \<and>
      (\<forall>j<?M. bv_get B (bv_set B c (unat sl mod ?M) True) j = (j = unat sl mod ?M \<or> bv_get B c j))"
    using B c by (simp add: bitvec_ok_def)
  have "bv_get B (hist_bits ?h) (s mod ?M) = (s \<in> insert (unat sl) {s \<in> A. s < ?n})"
    if "unat sl + 1 \<le> s + ?M" "s < unat sl + 1" for s
  proof (cases "s = unat sl")
    case False
    with that have "s < unat sl" by simp
    moreover from this that have "s mod ?M \<noteq> unat sl mod ?M" by (intro mod_window) auto
    ultimately show ?thesis using set_bit c that False by (simp add: bits')
  qed (use set_bit in \<open>simp add: bits'\<close>)
  with set_bit show ?thesis unfolding history_of_def next' bits' by simp
qed

lemma history_check_of:
  assumes "history_of B h A"
  shows "history_check B h sl =
    (if unat (next_slot h) \<le> unat sl then Future
     else if unat sl + 1048576 < unat (next_slot h) then TooOld
     else if unat sl \<in> A then Found else NotFound)"
proof -
  have "0 < unat (next_slot h)" using assms by (simp add: history_of_def)
  then have "unat (history_newest h) = unat (next_slot h) - 1"
    by (simp add: history_newest_def unat_sub_exact word_le_nat_alt)
  moreover have "unat (history_oldest h) = unat (next_slot h) - 1048576"
    by (simp add: history_oldest_def unat_saturating_sub)
  ultimately show ?thesis
    using assms by (auto simp: history_check_def word_less_nat_alt history_of_def unat_mod)
qed

text \<open>
  (C39) After any increasing sequence of slots is added to a new history, \<open>check\<close> answers as the set
  of added slots does: above the last one it is in the future, more than 2^20 below the next slot
  it is too old, and in between it is found exactly when it was added (slot 0 counts as added), so
  wrapping around the ring, and skipping more than a full ring, never confuses two slots.
\<close>

theorem history_check_adds:
  assumes B: "bitvec_ok B" and "sorted_wrt (<) (0 # sls)" and "- 1 \<notin> set sls"
  shows "history_check B (foldl (history_add B) (default_slot_history B) sls) sl =
    (if last (0 # sls) < sl then Future
     else if unat sl + 1048576 \<le> unat (last (0 # sls)) then TooOld
     else if sl \<in> set (0 # sls) then Found else NotFound)"
proof -
  let ?h = "foldl (history_add B) (default_slot_history B) sls"
  have "history_of B ?h (unat ` set (0 # sls)) \<and> unat (next_slot ?h) = unat (last (0 # sls)) + 1"
    using assms(2,3)
  proof (induction sls rule: rev_induct)
    case Nil
    show ?case using history_of_default [OF B] by (simp add: default_slot_history_def)
  next
    case (snoc x xs)
    let ?g = "foldl (history_add B) (default_slot_history B) xs"
    have IH: "history_of B ?g (unat ` set (0 # xs))" "unat (next_slot ?g) = unat (last (0 # xs)) + 1"
      using snoc by (auto simp: sorted_wrt_append)
    have top: "x \<noteq> - 1" using snoc.prems(2) by auto
    have less: "y < x" if "y \<in> set (0 # xs)" for y using snoc.prems that by (auto simp: sorted_wrt_append)
    have "last (0 # xs) \<in> set (0 # xs)" by (rule last_in_set) simp
    then have "last (0 # xs) < x" by (rule less)
    then have "next_slot ?g \<le> x" unfolding word_le_nat_alt word_less_nat_alt IH(2) by simp
    moreover have "{s \<in> unat ` set (0 # xs). s < unat (next_slot ?g)} = unat ` set (0 # xs)"
    proof -
      have "y \<le> last (0 # xs)" if "y \<in> set (0 # xs)" for y
        using snoc.prems(1) that by (cases xs rule: rev_cases) (auto simp: sorted_wrt_append less_imp_le)
      then show ?thesis unfolding IH(2) by (auto simp: word_le_nat_alt less_Suc_eq_le)
    qed
    ultimately have "history_of B (history_add B ?g x) (insert (unat x) (unat ` set (0 # xs)))"
      using history_of_add [OF B IH(1), of x] top by simp
    moreover have "unat (next_slot (history_add B ?g x)) = unat x + 1"
      using top by (simp add: history_add_def Let_def unat_succ)
    ultimately show ?case by (simp add: insert_commute)
  qed
  then have h: "history_of B ?h (unat ` set (0 # sls))" "unat (next_slot ?h) = unat (last (0 # sls)) + 1"
    by blast+
  have "unat sl \<in> unat ` set (0 # sls) \<longleftrightarrow> sl \<in> set (0 # sls)"
    by (rule inj_image_mem_iff) (simp add: inj_def word_unat_eq_iff)
  then show ?thesis
    unfolding history_check_of [OF h(1)] h(2) by (simp add: word_less_nat_alt Suc_le_eq less_Suc_eq_le)
qed

text \<open>A bit vector given by its length and its bits satisfies the contract.\<close>

definition fun_bitvec :: "(nat \<times> (nat \<Rightarrow> bool)) bitvec" where
  "fun_bitvec =
     \<lparr>bv_new_fill = (\<lambda>v n. (n, \<lambda>_. v)), bv_len = fst, bv_get = snd,
      bv_set = (\<lambda>(n, f) i v. (n, f(i := v))),
      bv_set_block = (\<lambda>(n, f) k w. (n, \<lambda>j. if j div 64 = k then bit w (j mod 64) else f j))\<rparr>"

lemma fun_bitvec_ok: "bitvec_ok fun_bitvec"
  by (auto simp: bitvec_ok_def fun_bitvec_def split: prod.splits)

theorem history_check_adds_witness:
  "history_check fun_bitvec (foldl (history_add fun_bitvec) (default_slot_history fun_bitvec) [2, 2000000]) 2
     = TooOld \<and>
   history_check fun_bitvec (foldl (history_add fun_bitvec) (default_slot_history fun_bitvec) [2, 2000000])
     1048578 = NotFound"
  using history_check_adds [OF fun_bitvec_ok, of "[2, 2000000]" 2]
    history_check_adds [OF fun_bitvec_ok, of "[2, 2000000]" 1048578] by simp

end
