(* ===== verification/OrderedMap.thy ===== *)
theory OrderedMap
  imports Prelude
begin

text \<open>
  The standard library's \<open>BTreeMap\<close>, as the components use it: an association list in ascending order
  of keys. The locale \<open>ordered_map\<close> is the contract the clients rely on.
\<close>

section \<open>Definitions\<close>

type_synonym ('k, 'v) btree = "('k \<times> 'v) list"

fun bt_insert :: "'k::linorder \<Rightarrow> 'v \<Rightarrow> ('k, 'v) btree \<Rightarrow> ('k, 'v) btree" where
  "bt_insert k v [] = [(k, v)]"
| "bt_insert k v ((k', v') # m) =
     (if k < k' then (k, v) # (k', v') # m
      else if k = k' then (k, v) # m
      else (k', v') # bt_insert k v m)"

definition bt_get :: "('k, 'v) btree \<Rightarrow> 'k \<Rightarrow> 'v option" where
  "bt_get m k = map_of m k"

definition bt_remove :: "'k \<Rightarrow> ('k, 'v) btree \<Rightarrow> ('k, 'v) btree" where
  "bt_remove k m = filter (\<lambda>(k', _). k' \<noteq> k) m"

definition bt_last :: "('k, 'v) btree \<Rightarrow> ('k \<times> 'v) option" where
  "bt_last m = (if m = [] then None else Some (last m))"

definition bt_first :: "('k, 'v) btree \<Rightarrow> ('k \<times> 'v) option" where
  "bt_first m = (case m of [] \<Rightarrow> None | e # _ \<Rightarrow> Some e)"

text \<open>The entries of \<open>range(0..k)\<close>, in order.\<close>

definition bt_range_below :: "'k::linorder \<Rightarrow> ('k, 'v) btree \<Rightarrow> ('k, 'v) btree" where
  "bt_range_below k m = filter (\<lambda>(k', _). k' < k) m"

definition bt_ok :: "('k::linorder, 'v) btree \<Rightarrow> bool" where
  "bt_ok m \<longleftrightarrow> sorted_wrt (<) (map fst m)"

section \<open>The contract\<close>

locale ordered_map =
  fixes ok :: "'m \<Rightarrow> bool" and empty_map :: 'm and get :: "'m \<Rightarrow> 'k::linorder \<Rightarrow> 'v option"
    and ins :: "'k \<Rightarrow> 'v \<Rightarrow> 'm \<Rightarrow> 'm" and del :: "'k \<Rightarrow> 'm \<Rightarrow> 'm"
    and below :: "'k \<Rightarrow> 'm \<Rightarrow> ('k \<times> 'v) list" and largest :: "'m \<Rightarrow> ('k \<times> 'v) option"
  assumes ok_empty: "ok empty_map" and get_empty: "get empty_map k = None"
    and ok_ins: "ok m \<Longrightarrow> ok (ins k v m)" and ok_del: "ok m \<Longrightarrow> ok (del k m)"
    and get_ins: "ok m \<Longrightarrow> get (ins k v m) j = (if j = k then Some v else get m j)"
    and get_del: "ok m \<Longrightarrow> get (del k m) j = (if j = k then None else get m j)"
    and below_sorted: "ok m \<Longrightarrow> sorted_wrt (<) (map fst (below k m))"
    and below_iff: "ok m \<Longrightarrow> (j, v) \<in> set (below k m) \<longleftrightarrow> get m j = Some v \<and> j < k"
    and largest_None: "ok m \<Longrightarrow> largest m = None \<longleftrightarrow> (\<forall>k. get m k = None)"
    and largest_Some: "ok m \<Longrightarrow> largest m = Some (k, v) \<Longrightarrow>
      get m k = Some v \<and> (\<forall>j. get m j \<noteq> None \<longrightarrow> j \<le> k)"
begin

text \<open>Removing the keys of a range one by one leaves the rest.\<close>

lemma ok_dels: "ok m \<Longrightarrow> ok (foldl (\<lambda>m k. del k m) m ks)"
  by (induction ks arbitrary: m) (simp_all add: ok_del)

lemma get_dels: "ok m \<Longrightarrow> get (foldl (\<lambda>m k. del k m) m ks) j = (if j \<in> set ks then None else get m j)"
  by (induction ks arbitrary: m) (simp_all add: ok_del get_del)

lemma below_keys: "ok m \<Longrightarrow> j \<in> fst ` set (below k m) \<longleftrightarrow> j < k \<and> get m j \<noteq> None"
proof -
  assume ok: "ok m"
  have "j \<in> fst ` set (below k m) \<longleftrightarrow> (\<exists>v. (j, v) \<in> set (below k m))" by force
  then show ?thesis using below_iff [OF ok] by auto
qed

lemma get_purge:
  "ok m \<Longrightarrow> get (foldl (\<lambda>m k. del k m) m (map fst (below k m))) j = (if j < k then None else get m j)"
  by (auto simp: get_dels below_keys)

text \<open>The last entry of a range is the one with the largest key.\<close>

lemma below_last:
  assumes "ok m" and "below k m \<noteq> []"
  shows "get m (fst (last (below k m))) = Some (snd (last (below k m))) \<and>
    fst (last (below k m)) < k \<and>
    (\<forall>j. get m j \<noteq> None \<longrightarrow> j < k \<longrightarrow> j \<le> fst (last (below k m)))"
proof (intro conjI allI impI)
  have last: "last (below k m) \<in> set (below k m)" using assms(2) by (rule last_in_set)
  then show "get m (fst (last (below k m))) = Some (snd (last (below k m)))" "fst (last (below k m)) < k"
    using below_iff [OF assms(1), of "fst (last (below k m))" "snd (last (below k m))"] by auto
  fix j
  assume "get m j \<noteq> None" "j < k"
  then obtain v where "(j, v) \<in> set (below k m)" using below_iff [OF assms(1)] by fastforce
  then have "j \<in> set (map fst (below k m))" by (force simp: image_iff)
  then have "j \<le> last (map fst (below k m))"
    using below_sorted [OF assms(1), of k] by (cases "map fst (below k m)" rule: rev_cases)
      (auto simp: sorted_wrt_append less_imp_le)
  then show "j \<le> fst (last (below k m))" using assms(2) by (simp add: last_map)
qed

lemma below_empty: "ok m \<Longrightarrow> below k m = [] \<longleftrightarrow> (\<forall>j<k. get m j = None)"
proof
  assume ok: "ok m"
  show "below k m = [] \<Longrightarrow> \<forall>j<k. get m j = None"
    using below_iff [OF ok, of _ _ k] by (metis empty_iff list.set(1) option.exhaust)
  show "\<forall>j<k. get m j = None \<Longrightarrow> below k m = []"
    using below_iff [OF ok, of _ _ k] by (cases "below k m") (force, metis list.set_intros(1) option.simps(3) surj_pair)
qed

end

section \<open>The association list meets it\<close>

lemma keys_bt_insert: "fst ` set (bt_insert k v m) = insert k (fst ` set m)"
  by (induction k v m rule: bt_insert.induct) auto

lemma bt_ok_insert: "bt_ok m \<Longrightarrow> bt_ok (bt_insert k v m)"
proof (induction k v m rule: bt_insert.induct)
  case (2 k v k' v' m)
  have "y \<in> fst ` set (bt_insert k v m) \<Longrightarrow> k' < k \<Longrightarrow> k' < y" for y
    using "2.prems" by (auto simp: keys_bt_insert bt_ok_def)
  with 2 show ?case by (auto simp: bt_ok_def)
qed (simp add: bt_ok_def)

lemma map_of_bt_insert: "bt_ok m \<Longrightarrow> map_of (bt_insert k v m) = (map_of m)(k \<mapsto> v)"
proof (induction k v m rule: bt_insert.induct)
  case (2 k v k' v' m)
  then have "k \<noteq> k' \<Longrightarrow> \<not> k < k' \<Longrightarrow> map_of (bt_insert k v m) = (map_of m)(k \<mapsto> v)"
    by (auto simp: bt_ok_def)
  then show ?case by (auto simp: fun_eq_iff)
qed simp

lemma bt_ok_distinct: "bt_ok m \<Longrightarrow> distinct (map fst m)"
  by (induction m) (auto simp: bt_ok_def)

lemma map_of_filter_keys: "map_of (filter (\<lambda>(k, _). P k) m) j = (if P j then map_of m j else None)"
  by (induction m) auto

interpretation bt: ordered_map bt_ok "[]" bt_get bt_insert bt_remove bt_range_below bt_last
proof
  show "bt_ok ([] :: ('k::linorder, 'v) btree)" by (simp add: bt_ok_def)
  fix m :: "('k::linorder, 'v) btree" and k j :: 'k and v :: 'v
  show "bt_get [] k = (None :: 'v option)" by (simp add: bt_get_def)
  assume ok: "bt_ok m"
  show "bt_ok (bt_insert k v m)" using ok by (rule bt_ok_insert)
  show "bt_ok (bt_remove k m)"
    using ok by (induction m) (auto simp: bt_ok_def bt_remove_def)
  show "bt_get (bt_insert k v m) j = (if j = k then Some v else bt_get m j)"
    using ok by (simp add: bt_get_def map_of_bt_insert)
  show "bt_get (bt_remove k m) j = (if j = k then None else bt_get m j)"
    by (simp add: bt_get_def bt_remove_def map_of_filter_keys)
  show "sorted_wrt (<) (map fst (bt_range_below k m))"
    using ok by (induction m) (auto simp: bt_ok_def bt_range_below_def)
  show "(j, v) \<in> set (bt_range_below k m) \<longleftrightarrow> bt_get m j = Some v \<and> j < k"
    using bt_ok_distinct [OF ok] by (auto simp: bt_range_below_def bt_get_def)
  show "bt_last m = None \<longleftrightarrow> (\<forall>k. bt_get m k = None)"
    by (cases m) (auto simp: bt_last_def bt_get_def)
  assume "bt_last m = Some (k, v)"
  then obtain xs where m: "m = xs @ [(k, v)]"
    by (cases m rule: rev_cases) (auto simp: bt_last_def split: if_splits)
  have "k \<notin> fst ` set xs" "\<forall>y\<in>fst ` set xs. y < k"
    using ok by (auto simp: m bt_ok_def sorted_wrt_append)
  moreover from this have "map_of xs k = None" by (simp add: map_of_eq_None_iff)
  moreover have "j \<le> k" if "map_of xs j = Some w" for j w
    using map_of_SomeD [OF that] calculation(2) by force
  ultimately show "bt_get m k = Some v \<and> (\<forall>j. bt_get m j \<noteq> None \<longrightarrow> j \<le> k)"
    by (auto simp: m bt_get_def map_add_def less_imp_le split: option.splits if_splits)
qed

end
