(* ===== verification/AuthorizedVoters.thy ===== *)
theory AuthorizedVoters
  imports OrderedMap
begin

text \<open>
  The authorized voters of a vote account (\<open>programs/vote/src/authorized_voters.rs\<close>): the voter set
  for an epoch stays in force until the next epoch with an entry. Warnings are not modelled.
\<close>

section \<open>Definitions\<close>

type_synonym authorized_voters = "(epoch, pubkey) btree"

definition authorized_voters_new :: "epoch \<Rightarrow> pubkey \<Rightarrow> authorized_voters" where
  "authorized_voters_new e k = bt_insert e k []"

definition get_or_calculate_authorized_voter_for_epoch ::
  "authorized_voters \<Rightarrow> epoch \<Rightarrow> (pubkey \<times> bool) option" where
  "get_or_calculate_authorized_voter_for_epoch m e =
     (case bt_get m e of
        Some k \<Rightarrow> Some (k, True)
      | None \<Rightarrow> map_option (\<lambda>(_, k). (k, False)) (bt_last (bt_range_below e m)))"

definition get_authorized_voter :: "authorized_voters \<Rightarrow> epoch \<Rightarrow> pubkey option" where
  "get_authorized_voter m e = map_option fst (get_or_calculate_authorized_voter_for_epoch m e)"

definition get_and_cache_authorized_voter_for_epoch ::
  "authorized_voters \<Rightarrow> epoch \<Rightarrow> pubkey option \<times> authorized_voters" where
  "get_and_cache_authorized_voter_for_epoch m e =
     (case get_or_calculate_authorized_voter_for_epoch m e of
        None \<Rightarrow> (None, m)
      | Some (k, existed) \<Rightarrow> (Some k, if existed then m else bt_insert e k m))"

text \<open>\<open>None\<close> is the failed assertion that some entry is left.\<close>

definition purge_authorized_voters :: "authorized_voters \<Rightarrow> epoch \<Rightarrow> authorized_voters option" where
  "purge_authorized_voters m current_epoch =
     (let m' = foldl (\<lambda>m k. bt_remove k m) m (map fst (bt_range_below current_epoch m))
      in if m' = [] then None else Some m')"

definition authorized_voters_contains :: "authorized_voters \<Rightarrow> epoch \<Rightarrow> bool" where
  "authorized_voters_contains m e \<longleftrightarrow> bt_get m e \<noteq> None"

section \<open>Who is authorized\<close>

text \<open>The entry in force in an epoch is the latest one not after it.\<close>

definition in_force :: "authorized_voters \<Rightarrow> epoch \<Rightarrow> epoch \<Rightarrow> pubkey \<Rightarrow> bool" where
  "in_force m e j k \<longleftrightarrow> j \<le> e \<and> bt_get m j = Some k \<and> (\<forall>i\<le>e. bt_get m i \<noteq> None \<longrightarrow> i \<le> j)"

lemma in_force_unique:
  assumes "in_force m e j k" and "in_force m e j' k'"
  shows "j = j'" and "k = k'"
proof -
  show "j = j'" using assms by (auto simp: in_force_def intro: order_antisym)
  with assms show "k = k'" by (simp add: in_force_def)
qed

lemma get_authorized_voter_in_force:
  assumes ok: "bt_ok m" and "get_authorized_voter m e = Some k"
  shows "\<exists>j. in_force m e j k"
proof (cases "bt_get m e")
  case (Some v)
  then have "in_force m e e k"
    using assms(2) by (simp add: in_force_def get_authorized_voter_def
      get_or_calculate_authorized_voter_for_epoch_def)
  then show ?thesis ..
next
  case None
  let ?b = "bt_range_below e m"
  from None assms(2) have b: "?b \<noteq> []" "snd (last ?b) = k"
    by (auto simp: get_authorized_voter_def get_or_calculate_authorized_voter_for_epoch_def bt_last_def
      case_prod_unfold split: if_splits)
  have "i \<le> fst (last ?b)" if "i \<le> e" "bt_get m i \<noteq> None" for i
  proof -
    have "i < e" using that None by (cases "i = e") auto
    then show ?thesis using bt.below_last [OF ok b(1)] that(2) by blast
  qed
  then have "in_force m e (fst (last ?b)) k"
    using bt.below_last [OF ok b(1)] b(2) by (auto simp: in_force_def less_imp_le)
  then show ?thesis ..
qed

lemma get_authorized_voter_None:
  assumes ok: "bt_ok m" and "get_authorized_voter m e = None" and "j \<le> e"
  shows "bt_get m j = None"
proof (cases "j = e")
  case True
  then show ?thesis
    using assms(2) by (simp add: get_authorized_voter_def get_or_calculate_authorized_voter_for_epoch_def
      split: option.splits)
next
  case False
  then have "j < e" using assms(3) by simp
  moreover have "bt_range_below e m = []"
    using assms(2) by (simp add: get_authorized_voter_def get_or_calculate_authorized_voter_for_epoch_def
      bt_last_def split: option.splits if_splits)
  ultimately show ?thesis using bt.below_empty [OF ok] by blast
qed

lemma get_authorized_voter_iff:
  assumes ok: "bt_ok m"
  shows "get_authorized_voter m e = Some k \<longleftrightarrow> (\<exists>j. in_force m e j k)"
proof
  show "get_authorized_voter m e = Some k \<Longrightarrow> \<exists>j. in_force m e j k"
    by (rule get_authorized_voter_in_force [OF ok])
  assume "\<exists>j. in_force m e j k"
  then obtain j where j: "in_force m e j k" ..
  then obtain k' where k': "get_authorized_voter m e = Some k'"
    using get_authorized_voter_None [OF ok, of e j] by (auto simp: in_force_def)
  with get_authorized_voter_in_force [OF ok] obtain j' where "in_force m e j' k'" by blast
  with in_force_unique(2) [OF j] k' show "get_authorized_voter m e = Some k" by simp
qed

lemma get_authorized_voter_eqI:
  assumes "bt_ok m" and "bt_ok m'" and "\<And>k. (\<exists>j. in_force m e j k) \<longleftrightarrow> (\<exists>j. in_force m' e j k)"
  shows "get_authorized_voter m e = get_authorized_voter m' e"
proof -
  have "get_authorized_voter m e = Some k \<longleftrightarrow> get_authorized_voter m' e = Some k" for k
    unfolding get_authorized_voter_iff [OF assms(1)] get_authorized_voter_iff [OF assms(2)]
    by (rule assms(3))
  then show ?thesis by (metis not_None_eq)
qed

section \<open>Caching and purging\<close>

lemma cache_voter:
  assumes ok: "bt_ok m" and "get_and_cache_authorized_voter_for_epoch m e = (Some k, m')"
  shows "bt_ok m'" and "get_authorized_voter m e = Some k"
    and "bt_get m' j = (if j = e then Some k else bt_get m j)"
  using assms
  by (auto simp: get_and_cache_authorized_voter_for_epoch_def get_authorized_voter_def
    get_or_calculate_authorized_voter_for_epoch_def bt.get_ins bt.ok_ins
    split: option.splits prod.splits if_splits)

lemma purge_voters:
  assumes ok: "bt_ok m" and "purge_authorized_voters m e = Some m'"
  shows "bt_ok m'" and "bt_get m' j = (if j < e then None else bt_get m j)"
  using assms bt.ok_dels [OF ok] bt.get_purge [OF ok]
  by (auto simp: purge_authorized_voters_def Let_def split: if_splits)

lemma purge_keeps_voters:
  assumes ok: "bt_ok m" and e: "bt_get m e \<noteq> None"
  shows "\<exists>m'. purge_authorized_voters m e = Some m'"
proof -
  let ?m = "foldl (\<lambda>m k. bt_remove k m) m (map fst (bt_range_below e m))"
  have "bt_get ?m e \<noteq> None" using e bt.get_purge [OF ok, of e e] by simp
  then have "?m \<noteq> []" by (auto simp: bt.get_empty)
  then show ?thesis by (simp add: purge_authorized_voters_def Let_def)
qed

text \<open>Caching and purging, as one step.\<close>

lemma voters_kept:
  assumes "bt_ok m" and "get_authorized_voter m current = Some k"
  shows "\<exists>m1 m2. get_and_cache_authorized_voter_for_epoch m current = (Some k, m1) \<and>
    purge_authorized_voters m1 current = Some m2 \<and> bt_ok m2 \<and>
    (\<forall>e\<ge>current. get_authorized_voter m2 e = get_authorized_voter m e) \<and>
    (\<forall>j<current. bt_get m2 j = None)"
proof -
  obtain m1 where m1: "get_and_cache_authorized_voter_for_epoch m current = (Some k, m1)"
    using assms(2) by (auto simp: get_authorized_voter_def get_and_cache_authorized_voter_for_epoch_def
      split: option.splits prod.splits)
  note cache = cache_voter [OF assms(1) m1]
  obtain m2 where m2: "purge_authorized_voters m1 current = Some m2"
    using purge_keeps_voters [OF cache(1), of current] cache(3) by auto
  note purge = purge_voters [OF cache(1) m2]
  have get: "bt_get m2 j = (if j < current then None else if j = current then Some k else bt_get m j)" for j
    by (simp add: purge(2) cache(3))
  obtain j0 where j0: "in_force m current j0 k" using get_authorized_voter_in_force [OF assms] by blast
  have "get_authorized_voter m2 e = get_authorized_voter m e" if e: "current \<le> e" for e
  proof (rule get_authorized_voter_eqI [OF purge(1) assms(1)])
    fix k'
    show "(\<exists>j. in_force m2 e j k') \<longleftrightarrow> (\<exists>j. in_force m e j k')"
    proof (cases "\<exists>i. current < i \<and> i \<le> e \<and> bt_get m i \<noteq> None")
      case True
      then obtain i where i: "current < i" "i \<le> e" "bt_get m i \<noteq> None" by blast
      have later: "bt_get m2 j = bt_get m j" if "current < j" for j using that by (auto simp: get)
      have "in_force m2 e j k' \<longleftrightarrow> in_force m e j k'" for j
      proof
        assume j: "in_force m2 e j k'"
        then have "current < j" using i later [of i] by (auto simp: in_force_def)
        moreover have "i' \<le> j" if "i' \<le> e" "bt_get m i' \<noteq> None" for i'
          using that j later [of i'] \<open>current < j\<close> by (cases "current < i'") (auto simp: in_force_def)
        ultimately show "in_force m e j k'" using j later [of j] by (simp add: in_force_def)
      next
        assume j: "in_force m e j k'"
        then have "current < j" using i by (auto simp: in_force_def)
        moreover have "i' \<le> j" if "i' \<le> e" "bt_get m2 i' \<noteq> None" for i'
          using that j later [of i'] \<open>current < j\<close> by (cases "current < i'") (auto simp: in_force_def)
        ultimately show "in_force m2 e j k'" using j later [of j] by (simp add: in_force_def)
      qed
      then show ?thesis by simp
    next
      case False
      then have early: "i \<le> current" if "i \<le> e" "bt_get m i \<noteq> None" for i using that not_less by blast
      then have "in_force m e j0 k" using j0 e by (auto simp: in_force_def)
      moreover have "i \<le> current" if "i \<le> e" "bt_get m2 i \<noteq> None" for i
        using that early [of i] by (simp add: get split: if_splits)
      then have "in_force m2 e current k" using e by (simp add: in_force_def get)
      ultimately show ?thesis using in_force_unique(2) by blast
    qed
  qed
  with m1 m2 purge(1) get show ?thesis by auto
qed

text \<open>
  (C36) Looking up the voter of the current epoch, caching it and purging the earlier epochs, as every
  vote and authorization does, never fails once the epoch has a voter, and changes nobody's
  authorization: for the current and every later epoch the authorized voter is the one it was.
\<close>

theorem cache_and_purge_keeps_voters:
  assumes "bt_ok m" and "get_authorized_voter m current = Some k"
  shows "\<exists>m1 m2. get_and_cache_authorized_voter_for_epoch m current = (Some k, m1) \<and>
    purge_authorized_voters m1 current = Some m2 \<and> bt_ok m2 \<and>
    (\<forall>e\<ge>current. get_authorized_voter m2 e = get_authorized_voter m e) \<and>
    (\<forall>j<current. bt_get m2 j = None)"
  using assms by (rule voters_kept)

theorem cache_and_purge_keeps_voters_witness:
  "\<exists>m1 m2. get_and_cache_authorized_voter_for_epoch [(3, 30), (8, 80)] 5 = (Some 30, m1) \<and>
     purge_authorized_voters m1 5 = Some m2 \<and> get_authorized_voter m2 7 = Some 30 \<and>
     get_authorized_voter m2 9 = Some 80 \<and> bt_get m2 3 = None"
proof -
  let ?m = "[(3, 30), (8, 80)] :: authorized_voters"
  have "bt_ok ?m" "get_authorized_voter ?m 5 = Some 30" "get_authorized_voter ?m 7 = Some 30"
    "get_authorized_voter ?m 9 = Some 80"
    by (simp_all add: bt_ok_def get_authorized_voter_def get_or_calculate_authorized_voter_for_epoch_def
      bt_get_def bt_last_def bt_range_below_def)
  with cache_and_purge_keeps_voters [of ?m 5 30] show ?thesis by fastforce
qed

end
