(* ===== verification/VoteState.thy ===== *)
theory VoteState
  imports AuthorizedVoters Accounts Rent "HOL-Library.Sublist"
begin

text \<open>
  The state of a vote account (\<open>programs/vote/src/vote_state/mod.rs\<close> and its versions): the tower of
  lockouts, the credits, the timestamps, and the authorized and prior voters. Deques and vectors
  are lists with the oldest element first. Log and metrics output is not modelled.
\<close>

section \<open>Data\<close>

definition MAX_LOCKOUT_HISTORY :: nat where
  "MAX_LOCKOUT_HISTORY = 31"

definition INITIAL_LOCKOUT :: u64 where
  "INITIAL_LOCKOUT = 2"

definition MAX_EPOCH_CREDITS_HISTORY :: nat where
  "MAX_EPOCH_CREDITS_HISTORY = 64"

record vote =
  vote_slots :: "slot list"
  vote_hash :: hash
  vote_timestamp :: "i64 option"

record lockout =
  lockout_slot :: slot
  confirmation_count :: u32

definition lockout_new :: "slot \<Rightarrow> lockout" where
  "lockout_new sl = \<lparr>lockout_slot = sl, confirmation_count = 1\<rparr>"

definition lockout_lockout :: "lockout \<Rightarrow> u64" where
  "lockout_lockout v = INITIAL_LOCKOUT ^ unat (confirmation_count v)"

definition expiration_slot :: "lockout \<Rightarrow> slot" where
  "expiration_slot v = lockout_slot v + lockout_lockout v"

definition is_expired :: "lockout \<Rightarrow> slot \<Rightarrow> bool" where
  "is_expired v sl \<longleftrightarrow> expiration_slot v < sl"

record vote_init =
  init_node_pubkey :: pubkey
  init_authorized_voter :: pubkey
  init_authorized_withdrawer :: pubkey
  init_commission :: u8

datatype vote_authorize = Voter | Withdrawer

record block_timestamp =
  bts_slot :: slot
  bts_timestamp :: i64

definition MAX_ITEMS :: nat where
  "MAX_ITEMS = 32"

record 'i circ_buf =
  cb_buf :: "'i list"
  cb_idx :: nat
  cb_is_empty :: bool

definition circ_buf_default :: "'i \<Rightarrow> 'i circ_buf" where
  "circ_buf_default d = \<lparr>cb_buf = replicate MAX_ITEMS d, cb_idx = MAX_ITEMS - 1, cb_is_empty = True\<rparr>"

definition circ_buf_append :: "'i \<Rightarrow> 'i circ_buf \<Rightarrow> 'i circ_buf" where
  "circ_buf_append item c =
     (let i = (cb_idx c + 1) mod MAX_ITEMS
      in \<lparr>cb_buf = (cb_buf c)[i := item], cb_idx = i, cb_is_empty = False\<rparr>)"

definition circ_buf_last :: "'i circ_buf \<Rightarrow> 'i option" where
  "circ_buf_last c = (if \<not> cb_is_empty c then Some (cb_buf c ! cb_idx c) else None)"

record vote_state =
  node_pubkey :: pubkey
  authorized_withdrawer :: pubkey
  commission :: u8
  votes :: "lockout list"
  root_slot :: "slot option"
  vs_authorized_voters :: authorized_voters
  prior_voters :: "(pubkey \<times> epoch \<times> epoch) circ_buf"
  epoch_credits :: "(epoch \<times> u64 \<times> u64) list"
  last_timestamp :: block_timestamp

record clock =
  clock_slot :: slot
  epoch_start_timestamp :: i64
  clock_epoch :: epoch
  leader_schedule_epoch :: epoch
  unix_timestamp :: i64

datatype vote_error =
  VoteTooOld | SlotsMismatch | SlotHashMismatch | EmptySlots | TimestampTooOld | TooSoonToReauthorize

text \<open>The conversion of a vote error to an instruction error: its index in the enumeration.\<close>

fun vote_error_code :: "vote_error \<Rightarrow> instruction_error" where
  "vote_error_code VoteTooOld = Custom 0"
| "vote_error_code SlotsMismatch = Custom 1"
| "vote_error_code SlotHashMismatch = Custom 2"
| "vote_error_code EmptySlots = Custom 3"
| "vote_error_code TimestampTooOld = Custom 4"
| "vote_error_code TooSoonToReauthorize = Custom 5"

definition default_vote_state :: vote_state where
  "default_vote_state =
     \<lparr>node_pubkey = 0, authorized_withdrawer = 0, commission = 0, votes = [], root_slot = None,
      vs_authorized_voters = [], prior_voters = circ_buf_default (0, 0, 0), epoch_credits = [],
      last_timestamp = \<lparr>bts_slot = 0, bts_timestamp = 0\<rparr>\<rparr>"

definition vote_state_new :: "vote_init \<Rightarrow> clock \<Rightarrow> vote_state" where
  "vote_state_new i c =
     default_vote_state\<lparr>node_pubkey := init_node_pubkey i,
       vs_authorized_voters := authorized_voters_new (clock_epoch c) (init_authorized_voter i),
       authorized_withdrawer := init_authorized_withdrawer i,
       commission := init_commission i\<rparr>"

section \<open>Commission\<close>

definition commission_split :: "vote_state \<Rightarrow> u64 \<Rightarrow> u64 \<times> u64 \<times> bool" where
  "commission_split s on =
     (let split = min (commission s) 100
      in if split = 0 then (0, on, False)
         else if split = 100 then (on, 0, False)
         else
           let on' = ucast on :: u128;
               mine = on' * ucast split div 100;
               theirs = on' * ucast (100 - split) div 100
           in (ucast mine, ucast theirs, True))"

section \<open>Votes\<close>

definition last_lockout :: "vote_state \<Rightarrow> lockout option" where
  "last_lockout s = (if votes s = [] then None else Some (last (votes s)))"

definition last_voted_slot :: "vote_state \<Rightarrow> slot option" where
  "last_voted_slot s = map_option lockout_slot (last_lockout s)"

text \<open>\<open>last_voted_slot().map_or(false, |last| slot <= last)\<close>\<close>

definition already_voted :: "vote_state \<Rightarrow> slot \<Rightarrow> bool" where
  "already_voted s sl = (case last_voted_slot s of None \<Rightarrow> False | Some l \<Rightarrow> sl \<le> l)"

definition nth_recent_vote :: "vote_state \<Rightarrow> nat \<Rightarrow> lockout option" where
  "nth_recent_vote s pos =
     (if pos < length (votes s) then Some (votes s ! (length (votes s) - 1 - pos)) else None)"

text \<open>
  The loop of \<open>check_slots_are_valid\<close> over the indices \<open>i\<close> into the vote's slots and \<open>j\<close> into the slot
  hashes, returning their final values.
\<close>

function check_slots_loop ::
  "(slot \<Rightarrow> bool) \<Rightarrow> slot list \<Rightarrow> (slot \<times> hash) list \<Rightarrow> nat \<Rightarrow> nat \<Rightarrow> nat \<times> nat" where
  "check_slots_loop old slots slot_hashes i j =
     (if i < length slots \<and> 0 < j then
        if old (slots ! i) then check_slots_loop old slots slot_hashes (i + 1) j
        else if slots ! i \<noteq> fst (slot_hashes ! (j - 1)) then check_slots_loop old slots slot_hashes i (j - 1)
        else check_slots_loop old slots slot_hashes (i + 1) (j - 1)
      else (i, j))"
  by pat_completeness auto
termination
  by (relation "measure (\<lambda>(_, slots, _, i, j). (length slots - i) + j)") auto

declare check_slots_loop.simps [simp del]

definition check_slots_are_valid ::
  "vote_state \<Rightarrow> vote \<Rightarrow> (slot \<times> hash) list \<Rightarrow> (vote_error, unit) outcome" where
  "check_slots_are_valid s v slot_hashes =
     (let (i, j) = check_slots_loop (already_voted s) (vote_slots v) slot_hashes 0 (length slot_hashes)
      in if j = length slot_hashes then Inl (Err VoteTooOld)
         else if i \<noteq> length (vote_slots v) then Inl (Err SlotsMismatch)
         else if snd (slot_hashes ! j) \<noteq> vote_hash v then Inl (Err SlotHashMismatch)
         else Inr ())"

text \<open>\<open>pop_expired_votes\<close> pops from the back while the last lockout is expired.\<close>

definition pop_expired :: "slot \<Rightarrow> lockout list \<Rightarrow> lockout list" where
  "pop_expired sl vs = rev (dropWhile (\<lambda>v. is_expired v sl) (rev vs))"

definition pop_expired_votes :: "slot \<Rightarrow> vote_state \<Rightarrow> vote_state" where
  "pop_expired_votes sl s = s\<lparr>votes := pop_expired sl (votes s)\<rparr>"

definition double_lockout :: "nat \<Rightarrow> nat \<times> lockout \<Rightarrow> lockout" where
  "double_lockout stack_depth = (\<lambda>(i, v).
     if i + unat (confirmation_count v) < stack_depth
     then v\<lparr>confirmation_count := confirmation_count v + 1\<rparr> else v)"

definition double_lockouts :: "vote_state \<Rightarrow> vote_state" where
  "double_lockouts s =
     s\<lparr>votes := map (double_lockout (length (votes s))) (enumerate 0 (votes s))\<rparr>"

definition bump_credits :: "(epoch \<times> u64 \<times> u64) list \<Rightarrow> (epoch \<times> u64 \<times> u64) list" where
  "bump_credits cs = butlast cs @ [case last cs of (e, credits, prev) \<Rightarrow> (e, credits + 1, prev)]"

definition next_epoch_credits :: "epoch \<Rightarrow> (epoch \<times> u64 \<times> u64) list \<Rightarrow> (epoch \<times> u64 \<times> u64) list" where
  "next_epoch_credits e cs =
     (if cs = [] then [(e, 0, 0)]
      else
        case last cs of (last_epoch, credits, prev_credits) \<Rightarrow>
          if e \<noteq> last_epoch then
            let cs' = (if credits \<noteq> prev_credits then cs @ [(e, credits, credits)]
                       else butlast cs @ [(e, credits, prev_credits)])
            in if MAX_EPOCH_CREDITS_HISTORY < length cs' then tl cs' else cs'
          else cs)"

definition increment_credits :: "epoch \<Rightarrow> vote_state \<Rightarrow> vote_state" where
  "increment_credits e s = s\<lparr>epoch_credits := bump_credits (next_epoch_credits e (epoch_credits s))\<rparr>"

definition process_slot :: "slot \<Rightarrow> epoch \<Rightarrow> vote_state \<Rightarrow> vote_state" where
  "process_slot sl e s =
     (if already_voted s sl then s
      else
        let s1 = pop_expired_votes sl s;
            s2 = (if length (votes s1) = MAX_LOCKOUT_HISTORY
                  then increment_credits e
                         (s1\<lparr>votes := tl (votes s1), root_slot := Some (lockout_slot (hd (votes s1)))\<rparr>)
                  else s1)
        in double_lockouts (s2\<lparr>votes := votes s2 @ [lockout_new sl]\<rparr>))"

definition process_vote :: "vote \<Rightarrow> (slot \<times> hash) list \<Rightarrow> epoch \<Rightarrow> vote_state \<Rightarrow> (vote_error, vote_state) outcome" where
  "process_vote v slot_hashes e s =
     (if vote_slots v = [] then Inl (Err EmptySlots)
      else and_then (check_slots_are_valid s v slot_hashes)
             (\<lambda>_. Inr (fold (\<lambda>sl. process_slot sl e) (vote_slots v) s)))"

definition current_epoch :: "vote_state \<Rightarrow> epoch" where
  "current_epoch s = (if epoch_credits s = [] then 0 else fst (last (epoch_credits s)))"

definition credits :: "vote_state \<Rightarrow> u64" where
  "credits s = (if epoch_credits s = [] then 0 else fst (snd (last (epoch_credits s))))"

definition process_vote_unchecked :: "vote \<Rightarrow> vote_state \<Rightarrow> vote_state" where
  "process_vote_unchecked v s =
     (case process_vote v (map (\<lambda>x. (x, vote_hash v)) (rev (vote_slots v))) (current_epoch s) s of
        Inl _ \<Rightarrow> s
      | Inr s' \<Rightarrow> s')"

definition process_slot_vote_unchecked :: "slot \<Rightarrow> vote_state \<Rightarrow> vote_state" where
  "process_slot_vote_unchecked sl s =
     process_vote_unchecked \<lparr>vote_slots = [sl], vote_hash = 0, vote_timestamp = None\<rparr> s"

definition process_timestamp :: "slot \<Rightarrow> i64 \<Rightarrow> vote_state \<Rightarrow> (vote_error, vote_state) outcome" where
  "process_timestamp sl ts s =
     (let lt = last_timestamp s
      in if (sl < bts_slot lt \<or> sint ts < sint (bts_timestamp lt)) \<or>
            (sl = bts_slot lt \<and> \<lparr>bts_slot = sl, bts_timestamp = ts\<rparr> \<noteq> lt \<and> bts_slot lt \<noteq> 0)
         then Inl (Err TimestampTooOld)
         else Inr (s\<lparr>last_timestamp := \<lparr>bts_slot = sl, bts_timestamp = ts\<rparr>\<rparr>))"

section \<open>Authorized voters\<close>

text \<open>A failed \<open>expect\<close> is a panic.\<close>

definition get_and_update_authorized_voter ::
  "epoch \<Rightarrow> vote_state \<Rightarrow> (pubkey \<times> vote_state) program_result" where
  "get_and_update_authorized_voter e s =
     (case get_and_cache_authorized_voter_for_epoch (vs_authorized_voters s) e of
        (None, _) \<Rightarrow> Inl Panic
      | (Some k, m) \<Rightarrow>
          (case purge_authorized_voters m e of
             None \<Rightarrow> Inl Panic
           | Some m' \<Rightarrow> Inr (k, s\<lparr>vs_authorized_voters := m'\<rparr>)))"

definition set_new_authorized_voter ::
  "pubkey \<Rightarrow> epoch \<Rightarrow> epoch \<Rightarrow> (pubkey \<Rightarrow> unit program_result) \<Rightarrow> vote_state \<Rightarrow>
     vote_state program_result" where
  "set_new_authorized_voter authorized_pubkey current target verify s =
     and_then (get_and_update_authorized_voter current s) (\<lambda>(epoch_authorized_voter, s1).
     and_then (verify epoch_authorized_voter) (\<lambda>_.
       if authorized_voters_contains (vs_authorized_voters s1) target then Inl (Err (vote_error_code TooSoonToReauthorize))
       else
         case bt_last (vs_authorized_voters s1) of
           None \<Rightarrow> Inl Panic
         | Some (latest_epoch, latest_authorized_pubkey) \<Rightarrow>
             if latest_authorized_pubkey \<noteq> authorized_pubkey \<and> \<not> latest_epoch < target then Inl Panic
             else
               let switch = (case circ_buf_last (prior_voters s1) of None \<Rightarrow> 0 | Some r \<Rightarrow> snd (snd r));
                   s2 = (if latest_authorized_pubkey \<noteq> authorized_pubkey
                         then s1\<lparr>prior_voters :=
                                circ_buf_append (latest_authorized_pubkey, switch, target) (prior_voters s1)\<rparr>
                         else s1)
               in Inr (s2\<lparr>vs_authorized_voters :=
                      bt_insert target authorized_pubkey (vs_authorized_voters s2)\<rparr>)))"

section \<open>Versions\<close>

record vote_state_0_23_5 =
  v0_node_pubkey :: pubkey
  v0_authorized_voter :: pubkey
  v0_authorized_voter_epoch :: epoch
  v0_prior_voters :: "(pubkey \<times> epoch \<times> epoch \<times> slot) list \<times> nat"
  v0_authorized_withdrawer :: pubkey
  v0_commission :: u8
  v0_votes :: "lockout list"
  v0_root_slot :: "slot option"
  v0_epoch_credits :: "(epoch \<times> u64 \<times> u64) list"
  v0_last_timestamp :: block_timestamp

datatype vote_state_versions = V0_23_5 vote_state_0_23_5 | Current vote_state

fun convert_to_current :: "vote_state_versions \<Rightarrow> vote_state" where
  "convert_to_current (V0_23_5 s) =
     \<lparr>node_pubkey = v0_node_pubkey s, authorized_withdrawer = v0_authorized_withdrawer s,
      commission = v0_commission s, votes = v0_votes s, root_slot = v0_root_slot s,
      vs_authorized_voters = authorized_voters_new (v0_authorized_voter_epoch s) (v0_authorized_voter s),
      prior_voters = circ_buf_default (0, 0, 0), epoch_credits = v0_epoch_credits s,
      last_timestamp = v0_last_timestamp s\<rparr>"
| "convert_to_current (Current s) = s"

fun is_uninitialized :: "vote_state_versions \<Rightarrow> bool" where
  "is_uninitialized (V0_23_5 s) = (v0_authorized_voter s = 0)"
| "is_uninitialized (Current s) = (vs_authorized_voters s = [])"

end
