(* ===== verification/VoteTower.thy ===== *)
theory VoteTower
  imports VoteState
begin

text \<open>
  The tower of a vote account is well formed after every operation of \<open>VoteState\<close>: at most 31 votes
  in ascending order of slots above the root, each confirmed at least as often as there are votes on
  top of it. From it follow the lockout rule, the maximal lockout of a vote that becomes the root,
  and the meaning of a valid vote.
\<close>

section \<open>The tower\<close>

abbreviation confirmations :: "lockout \<Rightarrow> nat" where
  "confirmations v \<equiv> unat (confirmation_count v)"

definition tower_ok :: "lockout list \<Rightarrow> bool" where
  "tower_ok vs \<longleftrightarrow>
     length vs \<le> 31 \<and> sorted_wrt (<) (map lockout_slot vs) \<and>
     (\<forall>i<length vs. length vs \<le> i + confirmations (vs ! i) \<and> i + confirmations (vs ! i) \<le> 31) \<and>
     sorted_wrt (>) (map confirmations vs)"

lemma tower_okI:
  assumes "length vs \<le> 31" and "sorted_wrt (<) (map lockout_slot vs)"
    and "\<And>i. i < length vs \<Longrightarrow> length vs \<le> i + confirmations (vs ! i)"
    and "\<And>i. i < length vs \<Longrightarrow> i + confirmations (vs ! i) \<le> 31"
    and "sorted_wrt (>) (map confirmations vs)"
  shows "tower_ok vs"
  using assms by (auto simp: tower_ok_def)

lemma tower_ok_Nil [simp]: "tower_ok []"
  by (simp add: tower_ok_def)

lemma tower_ok_take:
  assumes "tower_ok vs"
  shows "tower_ok (take k vs)"
proof (rule tower_okI)
  show "sorted_wrt (<) (map lockout_slot (take k vs))" "sorted_wrt (>) (map confirmations (take k vs))"
    using assms by (simp_all add: tower_ok_def take_map [symmetric] sorted_wrt_take)
  show "length (take k vs) \<le> i + confirmations (take k vs ! i)" if "i < length (take k vs)" for i
  proof -
    have "length vs \<le> i + confirmations (vs ! i)" using assms that by (simp add: tower_ok_def)
    then show ?thesis using that by simp
  qed
qed (use assms in \<open>auto simp: tower_ok_def\<close>)

lemma tower_ok_tl:
  assumes "tower_ok (v # vs)"
  shows "tower_ok vs" and "length vs = 30 \<Longrightarrow> confirmations v = 31"
proof -
  have nth: "Suc (length vs) \<le> Suc i + confirmations (vs ! i)" "Suc i + confirmations (vs ! i) \<le> 31"
    if "i < length vs" for i
    using assms that unfolding tower_ok_def by (metis Suc_less_eq length_Cons nth_Cons_Suc)+
  show "tower_ok vs"
    by (rule tower_okI) (use assms nth in \<open>force simp: tower_ok_def\<close>)+
  show "confirmations v = 31" if "length vs = 30"
    using assms that by (auto simp: tower_ok_def dest: spec [of _ 0])
qed

lemma confirmations_double:
  assumes "confirmations v \<le> 31"
  shows "confirmations (double_lockout d (i, v)) =
    (if i + confirmations v < d then confirmations v + 1 else confirmations v)"
proof -
  have "unat (confirmation_count v + 1) = confirmations v + 1"
    using assms unat_add_exact [of "confirmation_count v" 1] by simp
  then show ?thesis by (simp add: double_lockout_def)
qed

lemma slot_double [simp]: "lockout_slot (double_lockout d p) = lockout_slot (snd p)"
  by (simp add: double_lockout_def case_prod_unfold)

lemma slots_double: "map lockout_slot (map (double_lockout d) (enumerate n vs)) = map lockout_slot vs"
  by (induction vs arbitrary: n) simp_all

lemma tower_ok_push:
  assumes ok: "tower_ok vs" and len: "length vs \<le> 30" and new: "\<forall>v\<in>set vs. lockout_slot v < sl"
  defines "ws \<equiv> vs @ [lockout_new sl]"
  shows "tower_ok (map (double_lockout (length ws)) (enumerate 0 ws))"
proof -
  let ?n = "length vs" and ?r = "map (double_lockout (length ws)) (enumerate 0 ws)"
  have old: "?n \<le> i + confirmations (vs ! i)" "i + confirmations (vs ! i) \<le> 31" if "i < ?n" for i
    using ok that by (auto simp: tower_ok_def)
  have c: "confirmations (?r ! i) =
      (if i < ?n then (if i + confirmations (vs ! i) < Suc ?n then confirmations (vs ! i) + 1
         else confirmations (vs ! i)) else 1)"
    if "i < Suc ?n" for i
  proof (cases "i < ?n")
    case True
    have "confirmations (vs ! i) \<le> 31" using old(2) [OF True] by simp
    with True show ?thesis by (simp add: ws_def nth_append nth_enumerate_eq confirmations_double)
  next
    case False
    with that have "i = ?n" by simp
    then show ?thesis
      by (simp add: ws_def nth_append nth_enumerate_eq confirmations_double lockout_new_def)
  qed
  show ?thesis
  proof (rule tower_okI)
    show "length ?r \<le> 31" using len by (simp add: ws_def)
    have "map lockout_slot ?r = map lockout_slot vs @ [sl]"
      by (simp only: slots_double) (simp add: ws_def lockout_new_def)
    then show "sorted_wrt (<) (map lockout_slot ?r)"
      using ok new by (auto simp: tower_ok_def sorted_wrt_append)
    show "length ?r \<le> i + confirmations (?r ! i)" if "i < length ?r" for i
      using that c [of i] old [of i] by (auto simp: ws_def split: if_splits)
    show "i + confirmations (?r ! i) \<le> 31" if "i < length ?r" for i
      using that c [of i] old [of i] len by (auto simp: ws_def split: if_splits)
    show "sorted_wrt (>) (map confirmations ?r)"
      unfolding sorted_wrt_iff_nth_less
    proof (intro allI impI)
      fix i k
      assume ik: "i < k" "k < length (map confirmations ?r)"
      then have k: "k < Suc ?n" by (simp add: ws_def)
      have "confirmations (vs ! k) < confirmations (vs ! i)" if "k < ?n"
        using ok that ik(1) by (auto simp: tower_ok_def sorted_wrt_iff_nth_less)
      then show "map confirmations ?r ! k < map confirmations ?r ! i"
        using ik k c [of i] c [of k] old [of i] old [of k] by (auto simp: ws_def split: if_splits)
    qed
  qed
qed

lemma pop_expired_take: "\<exists>k. pop_expired sl vs = take k vs \<and> (\<forall>v\<in>set (drop k vs). is_expired v sl)"
proof -
  have "vs = pop_expired sl vs @ rev (takeWhile (\<lambda>v. is_expired v sl) (rev vs))"
    unfolding pop_expired_def rev_append [symmetric] by simp
  moreover have "\<forall>v\<in>set (rev (takeWhile (\<lambda>v. is_expired v sl) (rev vs))). is_expired v sl"
    by (auto dest: set_takeWhileD)
  ultimately show ?thesis
    by (intro exI [of _ "length (pop_expired sl vs)"]) (metis append_eq_conv_conj)
qed

section \<open>One slot\<close>

text \<open>The state of a tower: well formed, with the root below every vote.\<close>

definition vote_state_ok :: "vote_state \<Rightarrow> bool" where
  "vote_state_ok s \<longleftrightarrow>
     tower_ok (votes s) \<and>
     (\<forall>r. root_slot s = Some r \<longrightarrow> votes s \<noteq> [] \<and> (\<forall>v\<in>set (votes s). r < lockout_slot v))"

lemma already_voted_iff:
  "already_voted s sl \<longleftrightarrow> votes s \<noteq> [] \<and> sl \<le> lockout_slot (last (votes s))"
  by (simp add: already_voted_def last_voted_slot_def last_lockout_def)

lemma new_slot_above:
  assumes "tower_ok (votes s)" and "\<not> already_voted s sl" and "v \<in> set (votes s)"
  shows "lockout_slot v < sl"
proof -
  have "lockout_slot v \<le> lockout_slot (last (votes s))"
    using assms(1,3) by (cases "votes s" rule: rev_cases) (auto simp: tower_ok_def sorted_wrt_append less_imp_le)
  also have "\<dots> < sl" using assms(2,3) by (auto simp: already_voted_iff)
  finally show ?thesis .
qed

text \<open>
  What a new slot does to the tower: a suffix of expired votes goes, a vote that would be the 32nd
  pushes the oldest out as the root, and the slot goes on top.
\<close>

lemma process_slot_cases:
  assumes ok: "tower_ok (votes s)" and new: "\<not> already_voted s sl"
  obtains (push) vs where "\<exists>k. vs = take k (votes s) \<and> (\<forall>v\<in>set (drop k (votes s)). is_expired v sl)"
      "length vs \<le> 30" "root_slot (process_slot sl e s) = root_slot s"
      "epoch_credits (process_slot sl e s) = epoch_credits s"
      "votes (process_slot sl e s) =
        map (double_lockout (Suc (length vs))) (enumerate 0 (vs @ [lockout_new sl]))"
  | (root) v vs where "votes s = v # vs" "length vs = 30" "confirmations v = 31"
      "root_slot (process_slot sl e s) = Some (lockout_slot v)"
      "epoch_credits (process_slot sl e s) = bump_credits (next_epoch_credits e (epoch_credits s))"
      "votes (process_slot sl e s) = map (double_lockout 31) (enumerate 0 (vs @ [lockout_new sl]))"
proof -
  obtain k where k: "pop_expired sl (votes s) = take k (votes s)" "\<forall>v\<in>set (drop k (votes s)). is_expired v sl"
    using pop_expired_take by blast
  let ?vs = "take k (votes s)"
  have len: "length (votes s) \<le> 31" using ok by (simp add: tower_ok_def)
  show thesis
  proof (cases "length ?vs = 31")
    case False
    with len have "length ?vs \<le> 30" by simp
    with False new k show thesis
      by (intro push [of ?vs]) (auto simp: process_slot_def pop_expired_votes_def MAX_LOCKOUT_HISTORY_def
        Let_def double_lockouts_def)
  next
    case True
    with len have all: "?vs = votes s" by simp
    with True obtain v vs where v: "votes s = v # vs" "length vs = 30" by (cases "votes s") auto
    moreover have "confirmations v = 31" using ok v tower_ok_tl(2) by simp
    ultimately show thesis
      using new k(1) all by (intro root [of v vs]) (simp_all add: process_slot_def pop_expired_votes_def
        MAX_LOCKOUT_HISTORY_def Let_def double_lockouts_def increment_credits_def)
  qed
qed

lemma set_double: "lockout_slot ` set (map (double_lockout d) (enumerate n vs)) = lockout_slot ` set vs"
  using arg_cong [OF slots_double, of set] by (metis set_map)

lemma process_slot_ok:
  assumes "vote_state_ok s"
  shows "vote_state_ok (process_slot sl e s)"
proof (cases "already_voted s sl")
  case True
  then show ?thesis using assms by (simp add: process_slot_def)
next
  case False
  from assms have ok: "tower_ok (votes s)" by (simp add: vote_state_ok_def)
  note above = new_slot_above [OF ok False]
  have root: "r < lockout_slot v" if "root_slot s = Some r" "v \<in> set (votes s)" for r v
    using assms that by (auto simp: vote_state_ok_def)
  from ok False show ?thesis
  proof (cases rule: process_slot_cases [where e = e])
    case (push vs)
    then obtain k where vs: "vs = take k (votes s)" by blast
    have "tower_ok (votes (process_slot sl e s))"
      using tower_ok_push [of vs sl] push(2,5) tower_ok_take [OF ok, of k] above
      by (auto simp: vs dest: in_set_takeD)
    moreover have "r < lockout_slot v" if "root_slot s = Some r" "v \<in> set (votes (process_slot sl e s))" for r v
    proof -
      have "lockout_slot v \<in> lockout_slot ` set (vs @ [lockout_new sl])"
        using imageI [OF that(2), of lockout_slot] unfolding push(5) set_double .
      moreover have "r < sl"
        using assms that(1) root above unfolding vote_state_ok_def by (metis hd_in_set less_trans)
      ultimately show ?thesis using root [OF that(1)] by (auto simp: vs lockout_new_def dest: in_set_takeD)
    qed
    moreover have "votes (process_slot sl e s) \<noteq> []" by (simp add: push(5) flip: length_0_conv)
    ultimately show ?thesis using push(3) by (auto simp: vote_state_ok_def)
  next
    case (root v vs)
    have tl: "tower_ok vs" using ok root(1) tower_ok_tl by simp
    then have "tower_ok (votes (process_slot sl e s))"
      using tower_ok_push [OF tl, of sl] root(2,6) above by (simp add: root(1))
    moreover have "lockout_slot v < lockout_slot w" if "w \<in> set (votes (process_slot sl e s))" for w
    proof -
      have "lockout_slot w \<in> lockout_slot ` set (vs @ [lockout_new sl])"
        using imageI [OF that, of lockout_slot] unfolding root(6) set_double .
      moreover have "\<forall>w\<in>set vs. lockout_slot v < lockout_slot w" using ok by (simp add: root(1) tower_ok_def)
      ultimately show ?thesis using above by (auto simp: root(1) lockout_new_def)
    qed
    moreover have "votes (process_slot sl e s) \<noteq> []" by (simp add: root(6) flip: length_0_conv)
    ultimately show ?thesis using root(4) by (auto simp: vote_state_ok_def)
  qed
qed

text \<open>
  (C4) The lockout rule: processing a slot never drops a vote before its lockout expires. A vote
  that is no longer in the tower was expired by the slot, or has become the root; and the slot
  itself is recorded exactly when it is newer than the last vote.
\<close>

theorem process_slot_lockout:
  assumes "vote_state_ok s" and "v \<in> set (votes s)"
    and "lockout_slot v \<notin> lockout_slot ` set (votes (process_slot sl e s))"
  shows "\<not> already_voted s sl \<and> (is_expired v sl \<or> root_slot (process_slot sl e s) = Some (lockout_slot v))"
proof -
  from assms have new: "\<not> already_voted s sl" by (auto simp: process_slot_def)
  have ok: "tower_ok (votes s)" using assms(1) by (simp add: vote_state_ok_def)
  from ok new have "is_expired v sl \<or> root_slot (process_slot sl e s) = Some (lockout_slot v)"
  proof (cases rule: process_slot_cases [where e = e])
    case (push vs)
    then obtain k where k: "vs = take k (votes s)" "\<forall>v\<in>set (drop k (votes s)). is_expired v sl" by blast
    have "v \<notin> set vs" using assms(3) unfolding push(5) set_double by auto
    moreover have "v \<in> set (take k (votes s)) \<union> set (drop k (votes s))"
      using assms(2) by (metis append_take_drop_id set_append)
    ultimately show ?thesis using k by blast
  next
    case (root w vs)
    have "v \<notin> set vs" using assms(3) unfolding root(6) set_double by auto
    with assms(2) root(1,4) show ?thesis by auto
  qed
  with new show ?thesis by blast
qed

definition two_votes :: vote_state where
  "two_votes = default_vote_state\<lparr>votes :=
     [\<lparr>lockout_slot = 5, confirmation_count = 2\<rparr>, \<lparr>lockout_slot = 6, confirmation_count = 1\<rparr>]\<rparr>"

lemma two_votes_ok: "vote_state_ok two_votes"
  by (simp add: two_votes_def default_vote_state_def vote_state_ok_def tower_ok_def less_Suc_eq nth_Cons')

lemmas tower_eval =
  process_slot_def already_voted_iff pop_expired_votes_def pop_expired_def is_expired_def
  expiration_slot_def lockout_lockout_def INITIAL_LOCKOUT_def MAX_LOCKOUT_HISTORY_def
  double_lockouts_def double_lockout_def lockout_new_def default_vote_state_def Let_def

theorem process_slot_lockout_witness:
  "is_expired \<lparr>lockout_slot = 6, confirmation_count = 1\<rparr> 9 \<and>
   map lockout_slot (votes (process_slot 9 0 two_votes)) = [5, 9]"
proof -
  have after: "map lockout_slot (votes (process_slot 9 0 two_votes)) = [5, 9]"
    by (simp add: two_votes_def tower_eval)
  have "root_slot (process_slot 9 0 two_votes) = None"
    by (simp add: two_votes_def tower_eval)
  moreover have "lockout_slot ` set (votes (process_slot 9 0 two_votes)) = {5, 9}"
    using arg_cong [OF after, of set] by simp
  ultimately show ?thesis
    using process_slot_lockout [OF two_votes_ok, of "\<lparr>lockout_slot = 6, confirmation_count = 1\<rparr>" 9 0] after
    by (simp add: two_votes_def)
qed

text \<open>
  A vote becomes the root only at the maximal lockout, after 31 confirmations, and only when a
  new slot arrives; the root never moves back, and each new root earns exactly one credit.
\<close>

theorem process_slot_root:
  assumes ok: "vote_state_ok s" and changed: "root_slot (process_slot sl e s) \<noteq> root_slot s"
  shows "\<exists>v vs. votes s = v # vs \<and> length vs = 30 \<and> confirmations v = 31 \<and>
    lockout_lockout v = 2 ^ 31 \<and> root_slot (process_slot sl e s) = Some (lockout_slot v) \<and>
    (\<forall>r. root_slot s = Some r \<longrightarrow> r < lockout_slot v) \<and>
    epoch_credits (process_slot sl e s) = bump_credits (next_epoch_credits e (epoch_credits s))"
proof -
  have new: "\<not> already_voted s sl" using changed by (auto simp: process_slot_def)
  have tower: "tower_ok (votes s)" using ok by (simp add: vote_state_ok_def)
  from tower new show ?thesis
  proof (cases rule: process_slot_cases [where e = e])
    case push
    with changed show ?thesis by simp
  next
    case (root v vs)
    then show ?thesis
      using ok by (auto simp: vote_state_ok_def lockout_lockout_def INITIAL_LOCKOUT_def)
  qed
qed

text \<open>A full tower: slots 1 to 31, the oldest confirmed 31 times.\<close>

definition full_tower :: vote_state where
  "full_tower = default_vote_state\<lparr>votes :=
     map (\<lambda>i. \<lparr>lockout_slot = of_nat (i + 1), confirmation_count = of_nat (31 - i)\<rparr>) [0..<31]\<rparr>"

lemma full_tower_ok: "vote_state_ok full_tower"
proof -
  have small: "unat (of_nat n :: u32) = n" "unat (of_nat n :: u64) = n" if "n \<le> 31" for n
    using that by (simp_all add: unat_of_nat)
  let ?vs = "map (\<lambda>i. \<lparr>lockout_slot = of_nat (i + 1), confirmation_count = of_nat (31 - i)\<rparr>) [0..<31]"
  have "tower_ok ?vs"
  proof (rule tower_okI)
    show "sorted_wrt (<) (map lockout_slot ?vs)" "sorted_wrt (>) (map confirmations ?vs)"
      by (auto simp: sorted_wrt_iff_nth_less word_less_nat_alt small simp del: of_nat_Suc of_nat_add of_nat_diff)
  qed (auto simp: small simp del: of_nat_diff)
  then show ?thesis by (simp add: full_tower_def vote_state_ok_def default_vote_state_def)
qed

theorem process_slot_root_witness:
  "root_slot (process_slot 32 7 full_tower) = Some 1 \<and> epoch_credits (process_slot 32 7 full_tower) = [(7, 1, 0)]"
proof -
  have eval: "[0..<31] = [0,1,2,3,4,5,6,7,8,9,10,11,12,13,14,15,16,17,18,19,20,21,22,23,24,25,26,27,28,29,30 :: nat]"
    by (simp add: upt_rec)
  have "root_slot (process_slot 32 7 full_tower) \<noteq> root_slot full_tower"
    by (simp add: full_tower_def eval tower_eval increment_credits_def)
  with process_slot_root [OF full_tower_ok, of 32 7]
  show ?thesis
    by (auto simp: full_tower_def eval default_vote_state_def next_epoch_credits_def bump_credits_def)
qed

section \<open>Credits\<close>

text \<open>
  The history of credits: bounded, each entry starting from the credits of the one before, with
  some credits earned in every epoch but the last.
\<close>

definition follows :: "epoch \<times> u64 \<times> u64 \<Rightarrow> epoch \<times> u64 \<times> u64 \<Rightarrow> bool" where
  "follows a b \<longleftrightarrow> snd (snd b) = fst (snd a) \<and> snd (snd a) < fst (snd a)"

definition credits_ok :: "(epoch \<times> u64 \<times> u64) list \<Rightarrow> bool" where
  "credits_ok cs \<longleftrightarrow>
     length cs \<le> 64 \<and> successively follows cs \<and> (\<forall>c\<in>set cs. snd (snd c) \<le> fst (snd c))"

definition total_credits :: "(epoch \<times> u64 \<times> u64) list \<Rightarrow> u64" where
  "total_credits cs = (if cs = [] then 0 else fst (snd (last cs)))"

lemma credits_total: "credits s = total_credits (epoch_credits s)"
  by (simp add: credits_def total_credits_def)

text \<open>The history that a new epoch leaves: an entry added or moved, and the oldest dropped.\<close>

lemma next_epoch_credits_snoc:
  "next_epoch_credits e (ds @ [(le, cr, pr)]) =
     (if e = le then ds @ [(le, cr, pr)]
      else if cr \<noteq> pr then (if 62 < length ds then tl ds @ [(le, cr, pr)] else ds @ [(le, cr, pr)]) @ [(e, cr, cr)]
      else (if 63 < length ds then tl ds else ds) @ [(e, cr, pr)])"
  by (cases ds) (simp_all add: next_epoch_credits_def Let_def MAX_EPOCH_CREDITS_HISTORY_def)

lemma bump_credits_snoc [simp]: "bump_credits (ds @ [(e, cr, pr)]) = ds @ [(e, cr + 1, pr)]"
  by (simp add: bump_credits_def)

lemma total_credits_increment:
  "total_credits (bump_credits (next_epoch_credits e cs)) = total_credits cs + 1"
proof (cases cs rule: rev_cases)
  case (snoc ds c)
  obtain le cr pr where "c = (le, cr, pr)" by (cases c)
  then show ?thesis
    by (simp add: snoc next_epoch_credits_snoc total_credits_def flip: append_assoc)
qed (simp add: next_epoch_credits_def bump_credits_def total_credits_def)

lemma successively_tl: "successively P xs \<Longrightarrow> successively P (tl xs)"
  by (cases xs) (auto simp: successively_Cons)

lemma last_tl_follows:
  "successively follows (ds @ [c]) \<Longrightarrow> successively follows (tl ds @ [c])"
  by (cases ds) (auto simp: successively_Cons split: if_splits)

text \<open>Only the last entry's credits grow, so the chain is kept.\<close>

lemma bump_credits_ok:
  assumes "credits_ok cs" and "cs \<noteq> []" and "total_credits cs \<noteq> - 1"
  shows "credits_ok (bump_credits cs)"
proof (cases cs rule: rev_cases)
  case (snoc ds c)
  obtain e cr pr where c: "c = (e, cr, pr)" by (cases c)
  have "unat (cr + 1) = unat cr + 1"
    using assms(3) by (intro unat_succ) (simp add: snoc c total_credits_def)
  then have "pr \<le> cr + 1" using assms(1) by (simp add: snoc c credits_ok_def word_le_nat_alt)
  then show ?thesis
    using assms(1) by (auto simp: snoc c credits_ok_def successively_append_iff follows_def)
qed (use assms in simp)

lemma next_epoch_credits_ok:
  assumes "credits_ok cs"
  shows "credits_ok (next_epoch_credits e cs)"
proof (cases cs rule: rev_cases)
  case (snoc ds c)
  obtain le cr pr where c: "c = (le, cr, pr)" by (cases c)
  from assms have ok: "length ds \<le> 63" "successively follows (ds @ [(le, cr, pr)])"
    "\<forall>c\<in>set ds. snd (snd c) \<le> fst (snd c)" "pr \<le> cr"
    by (simp_all add: snoc c credits_ok_def)
  note tl = last_tl_follows [OF ok(2)]
  have set_tl: "set (tl ds) \<subseteq> set ds" by (cases ds) auto
  have moved: "successively follows (xs @ [(e, cr, pr)])" if "successively follows (xs @ [(le, cr, pr)])" for xs
    using that by (auto simp: successively_append_iff follows_def)
  have added: "successively follows ((xs @ [(le, cr, pr)]) @ [(e, cr, cr)])"
    if "successively follows (xs @ [(le, cr, pr)])" "cr \<noteq> pr" for xs
  proof -
    have "pr < cr" using ok(4) that(2) by simp
    then show ?thesis using that(1) by (subst successively_append_iff) (simp add: follows_def)
  qed
  show ?thesis
    unfolding snoc c next_epoch_credits_snoc credits_ok_def
    using ok set_tl moved [OF tl] moved [OF ok(2)] added [OF tl] added [OF ok(2)] by auto
qed (simp add: next_epoch_credits_def credits_ok_def)

text \<open>
  A credit is worth exactly one, whatever the epoch, and the history keeps its shape: at most 64
  epochs, each starting from the credits of the one before, with credits earned in all but the last.
\<close>

theorem increment_credits_ok:
  assumes "credits_ok (epoch_credits s)" and "credits s \<noteq> - 1"
  shows "credits (increment_credits e s) = credits s + 1 \<and> credits_ok (epoch_credits (increment_credits e s))"
proof -
  let ?n = "next_epoch_credits e (epoch_credits s)"
  have "total_credits ?n = total_credits (epoch_credits s)"
    by (cases "epoch_credits s" rule: rev_cases; cases "last (epoch_credits s)")
      (simp_all add: next_epoch_credits_snoc total_credits_def next_epoch_credits_def [of _ "[]"])
  moreover have "?n \<noteq> []"
    by (cases "epoch_credits s" rule: rev_cases; cases "last (epoch_credits s)")
      (simp_all add: next_epoch_credits_snoc next_epoch_credits_def [of _ "[]"])
  ultimately show ?thesis
    using assms by (simp add: increment_credits_def credits_total total_credits_increment
      bump_credits_ok next_epoch_credits_ok)
qed

theorem increment_credits_ok_witness:
  "credits (increment_credits 8 (default_vote_state\<lparr>epoch_credits := [(7, 3, 1)]\<rparr>)) = 4 \<and>
   credits_ok (epoch_credits (increment_credits 8 (default_vote_state\<lparr>epoch_credits := [(7, 3, 1)]\<rparr>)))"
  using increment_credits_ok [of "default_vote_state\<lparr>epoch_credits := [(7, 3, 1)]\<rparr>" 8]
  by (simp add: default_vote_state_def credits_ok_def credits_def)

section \<open>Valid votes\<close>

lemma rev_take_pred:
  "0 < j \<Longrightarrow> j \<le> length xs \<Longrightarrow> rev (map f (take j xs)) = f (xs ! (j - 1)) # rev (map f (take (j - 1) xs))"
  by (cases j) (simp_all add: take_Suc_conv_app_nth)

text \<open>When the loop matches every slot, it has found the new ones, in order, among the slot hashes.\<close>

lemma check_slots_loop_sound:
  assumes "check_slots_loop old slots sh i j = (length slots, j')" and "i \<le> length slots" and "j \<le> length sh"
  defines "ns \<equiv> filter (\<lambda>sl. \<not> old sl) (drop i slots)"
  shows "subseq ns (rev (map fst (take j sh))) \<and> (if ns = [] then j' = j else j' < j \<and> fst (sh ! j') = last ns)"
  unfolding ns_def using assms(1-3)
proof (induction old slots sh i j rule: check_slots_loop.induct)
  case (1 old slots sh i j)
  show ?case
  proof (cases "i < length slots \<and> 0 < j")
    case False
    then have "check_slots_loop old slots sh i j = (i, j)"
      by (subst check_slots_loop.simps) (simp only: if_False)
    with "1.prems"(1) have "i = length slots" "j' = j" by simp_all
    then show ?thesis by simp
  next
    case True
    then have i: "drop i slots = slots ! i # drop (i + 1) slots" by (simp add: Cons_nth_drop_Suc)
    have rev: "rev (map fst (take j sh)) = fst (sh ! (j - 1)) # rev (map fst (take (j - 1) sh))"
      using True "1.prems"(3) by (intro rev_take_pred) auto
    consider "old (slots ! i)" | "\<not> old (slots ! i)" "slots ! i \<noteq> fst (sh ! (j - 1))"
      | "\<not> old (slots ! i)" "slots ! i = fst (sh ! (j - 1))" by blast
    then show ?thesis
    proof cases
      case 1
      then have "check_slots_loop old slots sh (i + 1) j = (length slots, j')"
        using True "1.prems"(1) by (subst (asm) check_slots_loop.simps) simp
      then show ?thesis using "1.IH"(1) True 1 "1.prems"(3) by (simp add: i)
    next
      case 2
      then have "check_slots_loop old slots sh i (j - 1) = (length slots, j')"
        using True "1.prems"(1) by (subst (asm) check_slots_loop.simps) simp
      moreover have "j - 1 \<le> length sh" using "1.prems"(3) by simp
      ultimately show ?thesis using "1.IH"(2) True 2 "1.prems"(2) unfolding rev by (auto simp: i)
    next
      case 3
      then have "check_slots_loop old slots sh (i + 1) (j - 1) = (length slots, j')"
        using True "1.prems"(1) by (subst (asm) check_slots_loop.simps) simp
      moreover have "j - 1 \<le> length sh" using "1.prems"(3) by simp
      ultimately show ?thesis using "1.IH"(3) True 3 unfolding rev by (auto simp: i split: if_splits)
    qed
  qed
qed

text \<open>
  It matches every slot when they are there, as long as it does not run out of slot hashes before it
  has skipped the old ones, which come first in an ascending vote.
\<close>

lemma check_slots_loop_complete:
  assumes "subseq (filter (\<lambda>sl. \<not> old sl) (drop i slots)) (rev (map fst (take j sh)))"
    and "i \<le> length slots" and "j \<le> length sh"
    and "sorted_wrt (\<lambda>a b. old b \<longrightarrow> old a) slots" and "0 < j \<or> (\<forall>sl\<in>set (drop i slots). \<not> old sl)"
  shows "fst (check_slots_loop old slots sh i j) = length slots"
  using assms
proof (induction old slots sh i j rule: check_slots_loop.induct)
  case (1 old slots sh i j)
  show ?case
  proof (cases "i < length slots \<and> 0 < j")
    case False
    have "i = length slots"
    proof (rule ccontr)
      assume "i \<noteq> length slots"
      with False "1.prems"(2) have "j = 0" by simp
      with "1.prems"(1,5) have "drop i slots = []" using list_emb_Nil2 by fastforce
      with \<open>i \<noteq> length slots\<close> "1.prems"(2) show False by simp
    qed
    then show ?thesis by (subst check_slots_loop.simps) simp
  next
    case True
    then have i: "drop i slots = slots ! i # drop (i + 1) slots" by (simp add: Cons_nth_drop_Suc)
    have rev: "rev (map fst (take j sh)) = fst (sh ! (j - 1)) # rev (map fst (take (j - 1) sh))"
      using True "1.prems"(3) by (intro rev_take_pred) auto
    have later: "\<forall>sl\<in>set (drop i slots). \<not> old sl" if "\<not> old (slots ! i)"
    proof -
      have "sorted_wrt (\<lambda>a b. old b \<longrightarrow> old a) (drop i slots)" using "1.prems"(4) by (rule sorted_wrt_drop)
      then show ?thesis using that unfolding i by auto
    qed
    consider "old (slots ! i)" | "\<not> old (slots ! i)" "slots ! i \<noteq> fst (sh ! (j - 1))"
      | "\<not> old (slots ! i)" "slots ! i = fst (sh ! (j - 1))" by blast
    then show ?thesis
    proof cases
      case 1
      then have "fst (check_slots_loop old slots sh (i + 1) j) = length slots"
        using "1.IH"(1) True "1.prems" by (simp add: i)
      then show ?thesis using True 1 by (subst check_slots_loop.simps) simp
    next
      case 2
      have "subseq (filter (\<lambda>sl. \<not> old sl) (drop i slots)) (rev (map fst (take (j - 1) sh)))"
        using "1.prems"(1) 2 unfolding rev i by simp
      then have "fst (check_slots_loop old slots sh i (j - 1)) = length slots"
        using "1.IH"(2) True 2 "1.prems"(2-4) later by simp
      then show ?thesis using True 2 by (subst check_slots_loop.simps) simp
    next
      case 3
      have "subseq (filter (\<lambda>sl. \<not> old sl) (drop (i + 1) slots)) (rev (map fst (take (j - 1) sh)))"
        using "1.prems"(1) 3 unfolding rev i by simp
      moreover have "\<forall>sl\<in>set (drop (i + 1) slots). \<not> old sl" using later [OF 3(1)] by (simp add: i)
      ultimately have "fst (check_slots_loop old slots sh (i + 1) (j - 1)) = length slots"
        using "1.IH"(3) True 3 "1.prems"(3,4) by simp
      then show ?thesis using True 3 by (subst check_slots_loop.simps) simp
    qed
  qed
qed

definition new_slots :: "vote_state \<Rightarrow> vote \<Rightarrow> slot list" where
  "new_slots s v = filter (\<lambda>sl. \<not> already_voted s sl) (vote_slots v)"

lemma check_slots_sound:
  assumes "check_slots_are_valid s v sh = Inr ()"
  shows "new_slots s v \<noteq> [] \<and> subseq (new_slots s v) (rev (map fst sh)) \<and>
    (last (new_slots s v), vote_hash v) \<in> set sh"
proof -
  obtain i j where loop: "check_slots_loop (already_voted s) (vote_slots v) sh 0 (length sh) = (i, j)"
    by fastforce
  with assms have ij: "j \<noteq> length sh" "i = length (vote_slots v)" "snd (sh ! j) = vote_hash v"
    by (auto simp: check_slots_are_valid_def split: if_splits)
  from check_slots_loop_sound [OF loop [unfolded ij(2)]] ij(1)
  have "new_slots s v \<noteq> []" "subseq (new_slots s v) (rev (map fst sh))"
    "j < length sh" "fst (sh ! j) = last (new_slots s v)"
    by (auto simp: new_slots_def split: if_splits)
  moreover from this have "(last (new_slots s v), vote_hash v) \<in> set sh"
    using ij(3) by (metis nth_mem prod.collapse)
  ultimately show ?thesis by blast
qed

text \<open>
  (C34) A vote with ascending slots passes the check exactly when it has a slot newer than the last
  vote, all its newer slots are, in order, slots of the recent history, and its hash is the bank
  hash of the last one.
\<close>

theorem check_slots_are_valid_iff:
  assumes "sorted (vote_slots v)" and "distinct (map fst sh)"
  shows "check_slots_are_valid s v sh = Inr () \<longleftrightarrow>
    new_slots s v \<noteq> [] \<and> subseq (new_slots s v) (rev (map fst sh)) \<and>
    map_of sh (last (new_slots s v)) = Some (vote_hash v)"
proof
  assume "check_slots_are_valid s v sh = Inr ()"
  from check_slots_sound [OF this] assms(2)
  show "new_slots s v \<noteq> [] \<and> subseq (new_slots s v) (rev (map fst sh)) \<and>
      map_of sh (last (new_slots s v)) = Some (vote_hash v)" by simp
next
  assume R: "new_slots s v \<noteq> [] \<and> subseq (new_slots s v) (rev (map fst sh)) \<and>
    map_of sh (last (new_slots s v)) = Some (vote_hash v)"
  obtain i j where loop: "check_slots_loop (already_voted s) (vote_slots v) sh 0 (length sh) = (i, j)"
    by fastforce
  have "sorted_wrt (\<lambda>a b. already_voted s b \<longrightarrow> already_voted s a) (vote_slots v)"
    by (rule sorted_wrt_mono_rel [OF _ assms(1)]) (auto simp: already_voted_iff)
  moreover have "sh \<noteq> []" using R by auto
  ultimately have i: "i = length (vote_slots v)"
    using R check_slots_loop_complete [of "already_voted s" 0 "vote_slots v" "length sh" sh] loop
    by (simp add: new_slots_def)
  from check_slots_loop_sound [OF loop [unfolded i]] R
  have j: "j < length sh" "fst (sh ! j) = last (new_slots s v)"
    by (auto simp: new_slots_def split: if_splits)
  then have "map_of sh (last (new_slots s v)) = Some (snd (sh ! j))"
    using assms(2) by (metis map_of_is_SomeI nth_mem prod.collapse)
  with R have "snd (sh ! j) = vote_hash v" by simp
  with j(1) i loop show "check_slots_are_valid s v sh = Inr ()" by (simp add: check_slots_are_valid_def)
qed

theorem check_slots_are_valid_iff_witness:
  "check_slots_are_valid two_votes \<lparr>vote_slots = [6, 7, 9], vote_hash = 90, vote_timestamp = None\<rparr>
     [(9, 90), (8, 80), (7, 70), (6, 60)] = Inr () \<and>
   check_slots_are_valid two_votes \<lparr>vote_slots = [6, 7, 9], vote_hash = 80, vote_timestamp = None\<rparr>
     [(9, 90), (8, 80), (7, 70), (6, 60)] \<noteq> Inr ()"
  using check_slots_are_valid_iff [of "\<lparr>vote_slots = [6, 7, 9], vote_hash = 90, vote_timestamp = None\<rparr>"
      "[(9, 90), (8, 80), (7, 70), (6, 60)]" two_votes]
    check_slots_are_valid_iff [of "\<lparr>vote_slots = [6, 7, 9], vote_hash = 80, vote_timestamp = None\<rparr>"
      "[(9, 90), (8, 80), (7, 70), (6, 60)]" two_votes]
  by (simp add: new_slots_def already_voted_iff two_votes_def)

section \<open>Reachable vote states\<close>

text \<open>
  The operations of the vote program on a vote state. \<open>voter\<close> is any re-authorization the signer
  check lets through; \<open>settings\<close> are the fields the withdrawer changes.
\<close>

inductive vote_step :: "vote_state \<Rightarrow> vote_state \<Rightarrow> bool" where
  vote: "process_vote v sh e s = Inr s' \<Longrightarrow> vote_step s s'"
| slot: "vote_step s (process_slot sl e s)"
| timestamp: "process_timestamp sl ts s = Inr s' \<Longrightarrow> vote_step s s'"
| update: "get_and_update_authorized_voter e s = Inr (k, s') \<Longrightarrow> vote_step s s'"
| voter: "set_new_authorized_voter k current target verify s = Inr s' \<Longrightarrow> vote_step s s'"
| settings: "vote_step s (s\<lparr>node_pubkey := n, authorized_withdrawer := w, commission := c\<rparr>)"

inductive reachable_vote_state :: "vote_state \<Rightarrow> bool" where
  start: "reachable_vote_state (vote_state_new i c)"
| step: "reachable_vote_state s \<Longrightarrow> vote_step s s' \<Longrightarrow> reachable_vote_state s'"

text \<open>The parts of the state outside the tower: bounded credits, ordered voters, a full ring.\<close>

definition circ_buf_ok :: "'i circ_buf \<Rightarrow> bool" where
  "circ_buf_ok c \<longleftrightarrow> length (cb_buf c) = 32 \<and> cb_idx c < 32"

definition voters_ok :: "vote_state \<Rightarrow> bool" where
  "voters_ok s \<longleftrightarrow>
     bt_ok (vs_authorized_voters s) \<and> vs_authorized_voters s \<noteq> [] \<and> circ_buf_ok (prior_voters s) \<and>
     length (epoch_credits s) \<le> 64"

lemma circ_buf_append_last:
  "circ_buf_ok c \<Longrightarrow> circ_buf_ok (circ_buf_append x c) \<and> circ_buf_last (circ_buf_append x c) = Some x"
  by (simp add: circ_buf_ok_def circ_buf_append_def circ_buf_last_def MAX_ITEMS_def Let_def)

lemma bt_insert_nonempty [simp]: "bt_insert k v m \<noteq> []"
  using keys_bt_insert [of k v m] by auto

lemma length_increment_credits:
  "length cs \<le> 64 \<Longrightarrow> length (bump_credits (next_epoch_credits e cs)) \<le> 64"
proof (cases cs rule: rev_cases)
  case (snoc ds c)
  assume "length cs \<le> 64"
  then show ?thesis
    by (cases c) (auto simp: snoc next_epoch_credits_snoc simp flip: append_assoc)
qed (simp add: next_epoch_credits_def bump_credits_def)

lemma process_slot_frame:
  "vs_authorized_voters (process_slot sl e s) = vs_authorized_voters s"
  "prior_voters (process_slot sl e s) = prior_voters s"
  "authorized_withdrawer (process_slot sl e s) = authorized_withdrawer s"
  "length (epoch_credits s) \<le> 64 \<Longrightarrow> length (epoch_credits (process_slot sl e s)) \<le> 64"
  by (simp_all add: process_slot_def pop_expired_votes_def double_lockouts_def increment_credits_def Let_def
    length_increment_credits)

lemma process_slot_inv:
  "vote_state_ok s \<and> voters_ok s \<Longrightarrow> vote_state_ok (process_slot sl e s) \<and> voters_ok (process_slot sl e s)"
  by (simp add: process_slot_ok voters_ok_def process_slot_frame)

lemma process_vote_inv:
  assumes "process_vote v sh e s = Inr s'" and "vote_state_ok s \<and> voters_ok s"
  shows "vote_state_ok s' \<and> voters_ok s'"
proof -
  have "vote_state_ok (fold (\<lambda>sl. process_slot sl e) sls t) \<and> voters_ok (fold (\<lambda>sl. process_slot sl e) sls t)"
    if "vote_state_ok t \<and> voters_ok t" for sls t
    using that by (induction sls arbitrary: t) (simp_all add: process_slot_inv)
  with assms show ?thesis by (auto simp: process_vote_def and_then_Inr_iff split: if_splits)
qed

lemma update_voter_inv:
  assumes "get_and_update_authorized_voter e s = Inr (k, s')" and "voters_ok s"
  shows "voters_ok s'" and "votes s' = votes s" and "root_slot s' = root_slot s"
    and "get_authorized_voter (vs_authorized_voters s) e = Some k"
    and "authorized_withdrawer s' = authorized_withdrawer s" and "prior_voters s' = prior_voters s"
proof -
  from assms(1) obtain m m' where
    m: "get_and_cache_authorized_voter_for_epoch (vs_authorized_voters s) e = (Some k, m)"
      "purge_authorized_voters m e = Some m'" and s': "s' = s\<lparr>vs_authorized_voters := m'\<rparr>"
    by (auto simp: get_and_update_authorized_voter_def split: prod.splits option.splits)
  have ok: "bt_ok (vs_authorized_voters s)" using assms(2) by (simp add: voters_ok_def)
  note cache = cache_voter [OF ok m(1)]
  have "bt_ok m'" "m' \<noteq> []"
    using purge_voters [OF cache(1) m(2)] m(2) by (auto simp: purge_authorized_voters_def Let_def split: if_splits)
  with assms(2) s' cache(2) show "voters_ok s'" "votes s' = votes s" "root_slot s' = root_slot s"
    "get_authorized_voter (vs_authorized_voters s) e = Some k"
    "authorized_withdrawer s' = authorized_withdrawer s" "prior_voters s' = prior_voters s"
    by (simp_all add: voters_ok_def)
qed

lemma set_voter_inv:
  assumes "set_new_authorized_voter k current target verify s = Inr s'" and "voters_ok s"
  shows "voters_ok s'" and "votes s' = votes s" and "root_slot s' = root_slot s"
proof -
  from assms(1) obtain old s1 where s1: "get_and_update_authorized_voter current s = Inr (old, s1)"
    and s': "set_new_authorized_voter k current target verify s = Inr s'"
    by (auto simp: set_new_authorized_voter_def and_then_Inr_iff)
  note upd = update_voter_inv [OF s1 assms(2)]
  show "voters_ok s'" "votes s' = votes s" "root_slot s' = root_slot s"
    using s' upd s1
    by (auto simp: set_new_authorized_voter_def and_then_Inr_iff Let_def voters_ok_def bt.ok_ins
      circ_buf_append_last split: if_splits option.splits)
qed

lemma vote_step_inv:
  assumes "vote_step s s'" and "vote_state_ok s \<and> voters_ok s"
  shows "vote_state_ok s' \<and> voters_ok s'"
  using assms
proof (cases rule: vote_step.cases)
  case (vote v sh e)
  then show ?thesis using assms(2) by (rule process_vote_inv)
next
  case (slot sl e)
  then show ?thesis using process_slot_inv [OF assms(2)] by simp
next
  case (timestamp sl ts)
  then show ?thesis
    using assms(2) by (auto simp: process_timestamp_def Let_def vote_state_ok_def voters_ok_def split: if_splits)
next
  case (update e k)
  then show ?thesis using assms(2) update_voter_inv [OF update] by (simp add: vote_state_ok_def)
next
  case (voter k current target verify)
  then show ?thesis using assms(2) set_voter_inv [OF voter] by (simp add: vote_state_ok_def)
next
  case (settings n w c)
  then show ?thesis using assms(2) by (simp add: vote_state_ok_def voters_ok_def)
qed



end
