(* ===== verification/VoteAuthority.thy ===== *)
theory VoteAuthority
  imports VoteTower
begin

text \<open>
  Commission and the change of the authorized voter of a vote state: what each party of a split
  receives, and from which epoch a new voter is in force.
\<close>

section \<open>Commission\<close>

lemma unat_ucast_up: "LENGTH('a) \<le> LENGTH('b) \<Longrightarrow> unat (ucast (w :: 'a::len word) :: 'b::len word) = unat w"
proof -
  assume le: "LENGTH('a) \<le> LENGTH('b)"
  have "unat w < 2 ^ LENGTH('a)" by (rule unsigned_less)
  also have "(2 :: nat) ^ LENGTH('a) \<le> 2 ^ LENGTH('b)" using le by (rule power_increasing) simp
  finally show ?thesis by (simp add: unsigned_ucast_eq take_bit_nat_eq_self)
qed

lemma unat_ucast_down:
  "unat (w :: 'a::len word) < 2 ^ LENGTH('b) \<Longrightarrow> unat (ucast w :: 'b::len word) = unat w"
  by (simp add: unsigned_ucast_eq take_bit_nat_eq_self)

lemma commission_part:
  fixes on :: u64 and p :: u8
  assumes "unat p \<le> 100"
  shows "unat (ucast ((ucast on :: u128) * ucast p div 100) :: u64) = unat on * unat p div 100"
proof -
  have on: "unat (ucast on :: u128) = unat on" and p: "unat (ucast p :: u128) = unat p"
    by (simp_all add: unat_ucast_up)
  have "unat on * unat p \<le> unat on * 100" using assms by (rule mult_le_mono2)
  also have "unat on * 100 < 2 ^ 128"
    using unat_lt2p_u64 [of on] by (simp del: unat_lt2p_u64)
  finally have "unat ((ucast on :: u128) * ucast p) = unat on * unat p"
    by (subst unat_mult_exact) (simp_all add: on p)
  then have part: "unat ((ucast on :: u128) * ucast p div 100) = unat on * unat p div 100"
    by (simp add: unat_div)
  have "unat on * unat p div 100 \<le> unat on * 100 div 100" 
    using assms by (intro div_le_mono mult_le_mono2)
  then have "unat on * unat p div 100 < 2 ^ 64"
    using unat_lt2p_u64 [of on] by (simp del: unat_lt2p_u64)
  then show ?thesis by (subst unat_ucast_down) (simp_all add: part)
qed

lemma commission_split_exact:
  fixes s :: vote_state and on :: u64
  defines "c \<equiv> min (unat (commission s)) 100"
  shows "\<exists>mine theirs. commission_split s on = (mine, theirs, 0 < c \<and> c < 100) \<and>
    unat mine = unat on * c div 100 \<and> unat theirs = unat on * (100 - c) div 100 \<and>
    unat mine + unat theirs \<le> unat on \<and> unat on \<le> unat mine + unat theirs + 1"
proof -
  define split where "split = min (commission s) 100"
  have split: "unat split = c" unfolding split_def c_def by (simp add: unat_min)
  have c: "c \<le> 100" by (simp add: c_def)
  have "split \<le> 100" by (simp add: split_def)
  then have rest: "unat (100 - split) = 100 - c" by (simp add: unat_sub_exact split)
  obtain mine theirs where eq: "commission_split s on = (mine, theirs, 0 < c \<and> c < 100)"
    and parts: "unat mine = unat on * c div 100" "unat theirs = unat on * (100 - c) div 100"
  proof (cases "split = 0 \<or> split = 100")
    case True
    then have "c = 0 \<or> c = 100" using split by auto
    with True show thesis
      using split by (intro that [of "fst (commission_split s on)" "fst (snd (commission_split s on))"])
        (auto simp: commission_split_def split_def [symmetric] Let_def)
  next
    case False
    then have "c \<noteq> 0" "c \<noteq> 100" using split by (auto simp: unat_eq_iff)
    with False c show thesis
      using commission_part [of split on] commission_part [of "100 - split" on] split rest
      by (intro that [of "ucast ((ucast on :: u128) * ucast split div 100)"
            "ucast ((ucast on :: u128) * ucast (100 - split) div 100)"])
        (simp_all add: commission_split_def split_def [symmetric] Let_def)
  qed
  have "unat on * c + unat on * (100 - c) = unat on * 100"
    using c by (simp flip: distrib_left)
  then have "unat on * c div 100 + unat on * (100 - c) div 100 \<le> unat on"
    "unat on \<le> unat on * c div 100 + unat on * (100 - c) div 100 + 1"
    by linarith+
  with eq parts show ?thesis by auto
qed

text \<open>
  A commission above 100 counts as 100. Each party gets its percentage rounded down, computed
  without overflow for every amount, the parts never exceed the whole, and at most one lamport
  is discarded.
\<close>

theorem commission_split_parts:
  fixes s :: vote_state and on :: u64
  defines "c \<equiv> min (unat (commission s)) 100"
  shows "\<exists>mine theirs. commission_split s on = (mine, theirs, 0 < c \<and> c < 100) \<and>
    unat mine = unat on * c div 100 \<and> unat theirs = unat on * (100 - c) div 100 \<and>
    unat mine + unat theirs \<le> unat on \<and> unat on \<le> unat mine + unat theirs + 1"
  unfolding c_def by (rule commission_split_exact)

section \<open>A new authorized voter\<close>

lemma insert_later_voter:
  assumes ok: "bt_ok m" and later: "\<And>j. bt_get m j \<noteq> None \<Longrightarrow> j < target"
  shows "get_authorized_voter (bt_insert target k m) e =
    (if target \<le> e then Some k else get_authorized_voter m e)"
proof (cases "target \<le> e")
  case True
  have "in_force (bt_insert target k m) e target k"
    using True later by (auto simp: in_force_def bt.get_ins [OF ok] less_imp_le)
  then show ?thesis
    using True get_authorized_voter_iff [OF bt.ok_ins [OF ok]] by auto
next
  case False
  then have "bt_get (bt_insert target k m) i = bt_get m i" if "i \<le> e" for i
    using that by (auto simp: bt.get_ins [OF ok])
  then have "in_force (bt_insert target k m) e j k' \<longleftrightarrow> in_force m e j k'" for j k'
    by (auto simp: in_force_def)
  then show ?thesis
    using False by (simp add: get_authorized_voter_eqI [OF bt.ok_ins [OF ok] ok])
qed

text \<open>
  Re-authorizing a voter succeeds only with the consent of the voter of the current epoch. Then
  the new voter is in force from the target epoch on, and nobody's authorization before it changes.
\<close>

theorem set_new_authorized_voter_effect:
  assumes "voters_ok s" and "set_new_authorized_voter k current target verify s = Inr s'"
    and "current < target" and "\<And>j. bt_get (vs_authorized_voters s) j \<noteq> None \<Longrightarrow> j < target"
  shows "\<exists>voter. get_authorized_voter (vs_authorized_voters s) current = Some voter \<and>
    verify voter = Inr () \<and>
    (\<forall>e\<ge>current. get_authorized_voter (vs_authorized_voters s') e =
       (if target \<le> e then Some k else get_authorized_voter (vs_authorized_voters s) e))"
proof -
  let ?m = "vs_authorized_voters s"
  from assms(2) obtain voter s1 where s1: "get_and_update_authorized_voter current s = Inr (voter, s1)"
    and "verify voter = Inr ()"
    and s': "vs_authorized_voters s' = bt_insert target k (vs_authorized_voters s1)"
    by (auto simp: set_new_authorized_voter_def and_then_Inr_iff Let_def split: if_splits option.splits)
  have ok: "bt_ok ?m" using assms(1) by (simp add: voters_ok_def)
  have voter: "get_authorized_voter ?m current = Some voter"
    using update_voter_inv(4) [OF s1 assms(1)] .
  from s1 obtain m1 m2 where
    m: "get_and_cache_authorized_voter_for_epoch ?m current = (Some voter, m1)"
      "purge_authorized_voters m1 current = Some m2" "vs_authorized_voters s1 = m2"
    by (auto simp: get_and_update_authorized_voter_def split: prod.splits option.splits)
  from voters_kept [OF ok voter] m have kept: "bt_ok m2"
    "\<And>e. current \<le> e \<Longrightarrow> get_authorized_voter m2 e = get_authorized_voter ?m e" by auto
  have "j < target" if "bt_get m2 j \<noteq> None" for j
    using that cache_voter(3) [OF ok m(1), of j] purge_voters(2) [OF cache_voter(1) [OF ok m(1)] m(2), of j]
      assms(3,4) by (auto split: if_splits)
  from insert_later_voter [OF kept(1) this] kept(2) voter \<open>verify voter = Inr ()\<close>
  show ?thesis by (auto simp: s' m(3))
qed

theorem set_new_authorized_voter_effect_witness:
  "\<exists>s'. set_new_authorized_voter 20 5 7 (\<lambda>v. ensure (v = 10) (Err MissingRequiredSignature))
       (default_vote_state\<lparr>vs_authorized_voters := [(3, 10)]\<rparr>) = Inr s' \<and>
     get_authorized_voter (vs_authorized_voters s') 6 = Some 10 \<and>
     get_authorized_voter (vs_authorized_voters s') 7 = Some 20"
proof -
  let ?s = "default_vote_state\<lparr>vs_authorized_voters := [(3, 10)]\<rparr>"
  let ?v = "\<lambda>v. ensure (v = 10) (Err MissingRequiredSignature)"
  have ok: "voters_ok ?s"
    by (simp add: voters_ok_def default_vote_state_def bt_ok_def circ_buf_ok_def circ_buf_default_def
      MAX_ITEMS_def)
  obtain s' where s': "set_new_authorized_voter 20 5 7 ?v ?s = Inr s'"
    by (simp add: set_new_authorized_voter_def get_and_update_authorized_voter_def Let_def
      get_and_cache_authorized_voter_for_epoch_def get_or_calculate_authorized_voter_for_epoch_def
      bt_get_def bt_range_below_def bt_last_def purge_authorized_voters_def bt_remove_def
      authorized_voters_contains_def)
  have "get_authorized_voter (vs_authorized_voters ?s) 6 = Some 10"
    by (simp add: get_authorized_voter_def get_or_calculate_authorized_voter_for_epoch_def bt_get_def
      bt_last_def bt_range_below_def)
  with set_new_authorized_voter_effect [OF ok s'] show ?thesis
    using s' by (force simp: bt_get_def split: if_splits)
qed

end
