(* ===== verification/VoteProgram.thy ===== *)
theory VoteProgram
  imports VoteAuthority Message SlotHashes
begin

text \<open>
  The vote program (\<open>programs/vote/src/vote_instruction.rs\<close> and the functions on vote accounts of
  \<open>vote_state/mod.rs\<close>): instruction handlers on keyed accounts, the dispatcher
  \<open>process_instruction\<close>, and the instruction builders. bincode's encodings of the instruction, of the
  stored state and of the sysvars, and base58 text, come from crates outside the repository; the
  record \<open>vote_lib\<close> passes them in.
\<close>

section \<open>Instructions\<close>

datatype vote_instruction =
    InitializeAccount vote_init
  | Authorize pubkey vote_authorize
  | Vote vote
  | Withdraw u64
  | UpdateValidatorIdentity
  | UpdateCommission u8
  | VoteSwitch vote hash

record vote_lib =
  vl_state :: "vote_state_versions serde"
  vl_instruction :: "vote_instruction serde"
  vl_rent :: "rent serde"
  vl_clock :: "clock serde"
  vl_slot_hashes :: "(slot \<times> hash) list serde"
  vl_bs58 :: "256 word \<Rightarrow> string"

section \<open>Size of a vote state\<close>

definition MAX_LEADER_SCHEDULE_EPOCH_OFFSET :: nat where
  "MAX_LEADER_SCHEDULE_EPOCH_OFFSET = 3"

text \<open>The random keys of the largest vote state are the values of \<open>new_rand\<close>.\<close>

definition get_max_sized_vote_state :: "(nat \<Rightarrow> pubkey) \<Rightarrow> vote_state" where
  "get_max_sized_vote_state new_rand =
     default_vote_state\<lparr>
       votes := replicate MAX_LOCKOUT_HISTORY \<lparr>lockout_slot = 0, confirmation_count = 0\<rparr>,
       root_slot := Some (- 1),
       epoch_credits := replicate MAX_EPOCH_CREDITS_HISTORY (0, 0, 0),
       vs_authorized_voters :=
         fold (\<lambda>i. bt_insert (of_nat i) (new_rand i)) [0..<Suc MAX_LEADER_SCHEDULE_EPOCH_OFFSET] []\<rparr>"

definition vote_state_size_of :: "vote_lib \<Rightarrow> (nat \<Rightarrow> pubkey) \<Rightarrow> nat" where
  "vote_state_size_of L new_rand = length (ser (vl_state L) (Current (get_max_sized_vote_state new_rand)))"

definition get_rent_exempt_reserve :: "vote_lib \<Rightarrow> (nat \<Rightarrow> pubkey) \<Rightarrow> rent \<Rightarrow> u64" where
  "get_rent_exempt_reserve L new_rand r = minimum_balance r (vote_state_size_of L new_rand)"

section \<open>Handlers\<close>

definition verify_authorized_signer :: "pubkey \<Rightarrow> pubkey set \<Rightarrow> unit program_result" where
  "verify_authorized_signer authorized signers =
     (if authorized \<in> signers then Inr () else Inl (Err MissingRequiredSignature))"

definition vote_authorize_account ::
  "vote_lib \<Rightarrow> keyed_account \<Rightarrow> pubkey \<Rightarrow> vote_authorize \<Rightarrow> pubkey set \<Rightarrow> clock \<Rightarrow> store \<Rightarrow>
     store program_result" where
  "vote_authorize_account L vote_account authorized vote_authorize signers c s =
     and_then (keyed_state (vl_state L) s vote_account) (\<lambda>versioned.
       let vs = convert_to_current versioned
       in and_then
            (case vote_authorize of
               Voter \<Rightarrow>
                 set_new_authorized_voter authorized (clock_epoch c) (leader_schedule_epoch c + 1)
                   (\<lambda>voter. verify_authorized_signer voter signers) vs
             | Withdrawer \<Rightarrow>
                 and_then (verify_authorized_signer (authorized_withdrawer vs) signers) (\<lambda>_.
                   Inr (vs\<lparr>authorized_withdrawer := authorized\<rparr>)))
            (\<lambda>vs'. keyed_set_state (vl_state L) vote_account (Current vs') s))"

definition update_validator_identity ::
  "vote_lib \<Rightarrow> keyed_account \<Rightarrow> pubkey \<Rightarrow> pubkey set \<Rightarrow> store \<Rightarrow> store program_result" where
  "update_validator_identity L vote_account node signers s =
     and_then (keyed_state (vl_state L) s vote_account) (\<lambda>versioned.
       let vs = convert_to_current versioned
       in and_then (verify_authorized_signer (authorized_withdrawer vs) signers) (\<lambda>_.
          and_then (verify_authorized_signer node signers) (\<lambda>_.
            keyed_set_state (vl_state L) vote_account (Current (vs\<lparr>node_pubkey := node\<rparr>)) s)))"

definition update_commission ::
  "vote_lib \<Rightarrow> keyed_account \<Rightarrow> u8 \<Rightarrow> pubkey set \<Rightarrow> store \<Rightarrow> store program_result" where
  "update_commission L vote_account c signers s =
     and_then (keyed_state (vl_state L) s vote_account) (\<lambda>versioned.
       let vs = convert_to_current versioned
       in and_then (verify_authorized_signer (authorized_withdrawer vs) signers) (\<lambda>_.
            keyed_set_state (vl_state L) vote_account (Current (vs\<lparr>commission := c\<rparr>)) s))"

definition vote_withdraw ::
  "vote_lib \<Rightarrow> keyed_account \<Rightarrow> u64 \<Rightarrow> keyed_account \<Rightarrow> pubkey set \<Rightarrow> store \<Rightarrow> store program_result" where
  "vote_withdraw L vote_account amount to_account signers s =
     and_then (keyed_state (vl_state L) s vote_account) (\<lambda>versioned.
       let vs = convert_to_current versioned; balance = lamports (s (acct vote_account))
       in and_then (verify_authorized_signer (authorized_withdrawer vs) signers) (\<lambda>_.
          and_then
            (if balance < amount then Inl (Err InsufficientFunds)
             else if balance = amount
             then keyed_set_state (vl_state L) vote_account (Current default_vote_state) s
             else Inr s)
            (\<lambda>s1. Inr (credit (acct to_account) amount (debit (acct vote_account) amount s1)))))"

definition initialize_account ::
  "vote_lib \<Rightarrow> keyed_account \<Rightarrow> vote_init \<Rightarrow> pubkey set \<Rightarrow> clock \<Rightarrow> store \<Rightarrow> store program_result" where
  "initialize_account L vote_account vi signers c s =
     and_then (keyed_state (vl_state L) s vote_account) (\<lambda>versioned.
       if \<not> is_uninitialized versioned then Inl (Err AccountAlreadyInitialized)
       else and_then (verify_authorized_signer (init_node_pubkey vi) signers) (\<lambda>_.
              keyed_set_state (vl_state L) vote_account (Current (vote_state_new vi c)) s))"

text \<open>
  The gate that decides which voter may vote in a slot. \<open>last_char\<close> is \<open>chars().last().unwrap()\<close>
  as a number, \<open>find_x\<close> the index of the first x in the lower-case text.
\<close>

definition last_char :: "string \<Rightarrow> nat program_result" where
  "last_char t = (if t = [] then Inl Panic else Inr (of_char (last t)))"

definition find_x :: "string \<Rightarrow> nat option" where
  "find_x t = map_option fst (find (\<lambda>(i, ch). ch = CHR ''x'' \<or> ch = CHR ''X'') (enumerate 0 t))"

definition vote_gate ::
  "(256 word \<Rightarrow> string) \<Rightarrow> clock \<Rightarrow> (slot \<times> hash) list \<Rightarrow> pubkey \<Rightarrow> unit program_result" where
  "vote_gate bs58 c slot_hashes authorized_voter =
     (case slot_hashes of
        [] \<Rightarrow> Inl Panic
      | (_, newest) # _ \<Rightarrow>
          and_then
            (if 1626222605 < sint (unix_timestamp c) then
               and_then (last_char (bs58 authorized_voter)) (\<lambda>a.
               and_then (last_char (bs58 newest)) (\<lambda>b.
                 Inr (unat (clock_slot c) mod 10 =
                   ((unat (clock_slot c) mod 9 + 1) * (a + b) div 10 + a + b) mod 10)))
             else
               Inr ((case find_x (bs58 newest) of None \<Rightarrow> 3 | Some i \<Rightarrow> i) mod 10 =
                 (case find_x (bs58 authorized_voter) of None \<Rightarrow> 2 | Some i \<Rightarrow> i) mod 10))
            (\<lambda>pass.
               if \<not> pass \<and> bs58 authorized_voter \<noteq> ''83E5RMejo6d98FV1EAXTx5t4bvoDMoxE4DboDee3VJsu''
               then Inl (Err UninitializedAccount) else Inr ()))"

definition vote_result :: "(vote_error, 'a) outcome \<Rightarrow> 'a program_result" where
  "vote_result r =
     (case r of Inl (Err e) \<Rightarrow> Inl (Err (vote_error_code e)) | Inl Panic \<Rightarrow> Inl Panic | Inr x \<Rightarrow> Inr x)"

definition vote_process_vote ::
  "vote_lib \<Rightarrow> keyed_account \<Rightarrow> (slot \<times> hash) list \<Rightarrow> clock \<Rightarrow> vote \<Rightarrow> pubkey set \<Rightarrow> store \<Rightarrow>
     store program_result" where
  "vote_process_vote L vote_account slot_hashes c v signers s =
     and_then (keyed_state (vl_state L) s vote_account) (\<lambda>versioned.
       if is_uninitialized versioned then Inl (Err UninitializedAccount)
       else
         and_then (get_and_update_authorized_voter (clock_epoch c) (convert_to_current versioned))
           (\<lambda>(authorized_voter, vs1).
         and_then (vote_gate (vl_bs58 L) c slot_hashes authorized_voter) (\<lambda>_.
         and_then (verify_authorized_signer authorized_voter signers) (\<lambda>_.
         and_then (vote_result (process_vote v slot_hashes (clock_epoch c) vs1)) (\<lambda>vs2.
         and_then
           (case vote_timestamp v of
              None \<Rightarrow> Inr vs2
            | Some ts \<Rightarrow>
                if vote_slots v = [] then Inl (Err (vote_error_code EmptySlots))
                else vote_result (process_timestamp (Max (set (vote_slots v))) ts vs2))
           (\<lambda>vs3. keyed_set_state (vl_state L) vote_account (Current vs3) s))))))"

definition create_account_with_authorized ::
  "vote_lib \<Rightarrow> (nat \<Rightarrow> pubkey) \<Rightarrow> pubkey \<Rightarrow> pubkey \<Rightarrow> pubkey \<Rightarrow> u8 \<Rightarrow> u64 \<Rightarrow> account program_result" where
  "create_account_with_authorized L new_rand node voter withdrawer c amount =
     (let vs = vote_state_new
            \<lparr>init_node_pubkey = node, init_authorized_voter = voter,
             init_authorized_withdrawer = withdrawer, init_commission = c\<rparr>
            \<lparr>clock_slot = 0, epoch_start_timestamp = 0, clock_epoch = 0, leader_schedule_epoch = 0,
             unix_timestamp = 0\<rparr>
      in ok_or (serialize_data (vl_state L) (Current vs)
           (new_account amount (vote_state_size_of L new_rand) vote_program_id)) Panic)"

section \<open>The instruction processor\<close>

definition verify_rent_exemption ::
  "rent serde \<Rightarrow> keyed_account \<Rightarrow> keyed_account \<Rightarrow> store \<Rightarrow> unit program_result" where
  "verify_rent_exemption C k rent_sysvar_account s =
     and_then (from_keyed_account sysvar_rent_id C s rent_sysvar_account) (\<lambda>r.
       if \<not> is_exempt r (lamports (s (acct k))) (length (data (s (acct k))))
       then Inl (Err InsufficientFunds) else Inr ())"

text \<open>The arm that the instructions \<open>Vote\<close> and \<open>VoteSwitch\<close> share.\<close>

definition vote_handler ::
  "vote_lib \<Rightarrow> keyed_account \<Rightarrow> keyed_account list \<Rightarrow> vote \<Rightarrow> pubkey set \<Rightarrow> store \<Rightarrow> store program_result" where
  "vote_handler L me ks1 v signers s =
     and_then (next_keyed_account ks1) (\<lambda>(slot_hashes_account, ks2).
     and_then (from_keyed_account sysvar_slot_hashes_id (vl_slot_hashes L) s slot_hashes_account) (\<lambda>sh.
     and_then (next_keyed_account ks2) (\<lambda>(clock_account, _).
     and_then (from_keyed_account sysvar_clock_id (vl_clock L) s clock_account) (\<lambda>c.
       vote_process_vote L me sh c v signers s))))"

text \<open>The match on the instruction.\<close>

definition vote_dispatch ::
  "vote_lib \<Rightarrow> keyed_account \<Rightarrow> keyed_account list \<Rightarrow> pubkey set \<Rightarrow> vote_instruction \<Rightarrow> store \<Rightarrow>
     store program_result" where
  "vote_dispatch L me ks1 signers ix s =
     (case ix of
        InitializeAccount vi \<Rightarrow>
          and_then (next_keyed_account ks1) (\<lambda>(rent_account, ks2).
          and_then (verify_rent_exemption (vl_rent L) me rent_account s) (\<lambda>_.
          and_then (next_keyed_account ks2) (\<lambda>(clock_account, _).
          and_then (from_keyed_account sysvar_clock_id (vl_clock L) s clock_account) (\<lambda>c.
            initialize_account L me vi signers c s))))
      | Authorize voter_pubkey vote_authorize \<Rightarrow>
          and_then (next_keyed_account ks1) (\<lambda>(clock_account, _).
          and_then (from_keyed_account sysvar_clock_id (vl_clock L) s clock_account) (\<lambda>c.
            vote_authorize_account L me voter_pubkey vote_authorize signers c s))
      | UpdateValidatorIdentity \<Rightarrow>
          and_then (next_keyed_account ks1) (\<lambda>(node, _).
            update_validator_identity L me (key node) signers s)
      | UpdateCommission c \<Rightarrow> update_commission L me c signers s
      | Vote v \<Rightarrow> vote_handler L me ks1 v signers s
      | VoteSwitch v _ \<Rightarrow> vote_handler L me ks1 v signers s
      | Withdraw amount \<Rightarrow>
          and_then (next_keyed_account ks1) (\<lambda>(to, _). vote_withdraw L me amount to signers s))"

definition vote_process_instruction ::
  "vote_lib \<Rightarrow> keyed_account list \<Rightarrow> bytes \<Rightarrow> store \<Rightarrow> store program_result" where
  "vote_process_instruction L keyed_accounts bs s =
     (let signers = get_signers keyed_accounts
      in and_then (next_keyed_account keyed_accounts) (\<lambda>(me, ks1).
         and_then (limited_deserialize (vl_instruction L) bs) (\<lambda>ix.
           vote_dispatch L me ks1 signers ix s)))"

section \<open>What an instruction can change\<close>

lemma verify_authorized_signer_Inr [simp]: "verify_authorized_signer k S = Inr u \<longleftrightarrow> k \<in> S"
  by (simp add: verify_authorized_signer_def)

text \<open>A successful instruction writes the state of the first account, or withdraws from it.\<close>

definition vote_write :: "vote_lib \<Rightarrow> keyed_account \<Rightarrow> store \<Rightarrow> store \<Rightarrow> bool" where
  "vote_write L me s s' \<longleftrightarrow> (\<exists>x. keyed_set_state (vl_state L) me x s = Inr s')"

definition vote_paid :: "vote_lib \<Rightarrow> keyed_account \<Rightarrow> keyed_account \<Rightarrow> store \<Rightarrow> store \<Rightarrow> bool" where
  "vote_paid L me to s s' \<longleftrightarrow>
     (\<exists>amount s1. amount \<le> lamports (s (acct me)) \<and> (s1 = s \<or> vote_write L me s s1) \<and>
        s' = credit (acct to) amount (debit (acct me) amount s1))"

lemma vote_handlers_write:
  "vote_authorize_account L me k a S c s = Inr s' \<Longrightarrow> vote_write L me s s'"
  "update_validator_identity L me k S s = Inr s' \<Longrightarrow> vote_write L me s s'"
  "update_commission L me cm S s = Inr s' \<Longrightarrow> vote_write L me s s'"
  "initialize_account L me vi S c s = Inr s' \<Longrightarrow> vote_write L me s s'"
  "vote_process_vote L me sh c v S s = Inr s' \<Longrightarrow> vote_write L me s s'"
  by (auto simp: vote_authorize_account_def update_validator_identity_def update_commission_def
    initialize_account_def vote_process_vote_def vote_write_def and_then_Inr_iff Let_def split: if_splits)

lemma vote_withdraw_paid: "vote_withdraw L me n to S s = Inr s' \<Longrightarrow> vote_paid L me to s s'"
  unfolding vote_withdraw_def vote_paid_def vote_write_def
  by (auto simp: and_then_Inr_iff Let_def not_less split: if_splits)

text \<open>Which handler ran, by the instruction.\<close>

definition voted ::
  "vote_lib \<Rightarrow> keyed_account \<Rightarrow> keyed_account list \<Rightarrow> pubkey set \<Rightarrow> vote \<Rightarrow> store \<Rightarrow> store \<Rightarrow> bool" where
  "voted L me ks S v s s' \<longleftrightarrow>
     (\<exists>j k sh c. from_keyed_account sysvar_slot_hashes_id (vl_slot_hashes L) s j = Inr sh \<and>
        from_keyed_account sysvar_clock_id (vl_clock L) s k = Inr c \<and>
        j \<in> set ks \<and> k \<in> set ks \<and> vote_process_vote L me sh c v S s = Inr s')"

fun vote_ran ::
  "vote_lib \<Rightarrow> keyed_account \<Rightarrow> keyed_account list \<Rightarrow> pubkey set \<Rightarrow> vote_instruction \<Rightarrow> store \<Rightarrow> store \<Rightarrow> bool" where
  "vote_ran L me ks S (InitializeAccount vi) s s' \<longleftrightarrow>
     (\<exists>k c. from_keyed_account sysvar_clock_id (vl_clock L) s k = Inr c \<and>
        k \<in> set ks \<and> initialize_account L me vi S c s = Inr s')"
| "vote_ran L me ks S (Authorize p a) s s' \<longleftrightarrow>
     (\<exists>k c. from_keyed_account sysvar_clock_id (vl_clock L) s k = Inr c \<and>
        k \<in> set ks \<and> vote_authorize_account L me p a S c s = Inr s')"
| "vote_ran L me ks S UpdateValidatorIdentity s s' \<longleftrightarrow>
     ks \<noteq> [] \<and> update_validator_identity L me (key (hd ks)) S s = Inr s'"
| "vote_ran L me ks S (UpdateCommission c) s s' \<longleftrightarrow> update_commission L me c S s = Inr s'"
| "vote_ran L me ks S (Vote v) s s' \<longleftrightarrow> voted L me ks S v s s'"
| "vote_ran L me ks S (VoteSwitch v h) s s' \<longleftrightarrow> voted L me ks S v s s'"
| "vote_ran L me ks S (Withdraw n) s s' \<longleftrightarrow>
     (\<exists>to\<in>set ks. vote_withdraw L me n to S s = Inr s')"

lemma vote_handler_voted: "vote_handler L me ks v S s = Inr s' \<Longrightarrow> voted L me ks S v s s'"
proof -
  assume "vote_handler L me ks v S s = Inr s'"
  then obtain j k r sh c where "ks = j # k # r"
    "from_keyed_account sysvar_slot_hashes_id (vl_slot_hashes L) s j = Inr sh"
    "from_keyed_account sysvar_clock_id (vl_clock L) s k = Inr c"
    "vote_process_vote L me sh c v S s = Inr s'"
    by (auto simp: vote_handler_def and_then_Inr_iff)
  then show ?thesis
    unfolding voted_def
    by - (rule exI [of _ j], rule exI [of _ k], rule exI [of _ sh], rule exI [of _ c], simp)
qed

lemma vote_dispatch_ran: "vote_dispatch L me ks S ix s = Inr s' \<Longrightarrow> vote_ran L me ks S ix s s'"
proof (cases ix)
  case (InitializeAccount vi)
  assume "vote_dispatch L me ks S ix s = Inr s'"
  then obtain a k r c where "ks = a # k # r" "from_keyed_account sysvar_clock_id (vl_clock L) s k = Inr c"
    "initialize_account L me vi S c s = Inr s'"
    by (auto simp: InitializeAccount vote_dispatch_def and_then_Inr_iff)
  then show ?thesis by (auto simp: InitializeAccount intro!: exI [of _ k] exI [of _ c])
next
  case (Authorize p a)
  assume "vote_dispatch L me ks S ix s = Inr s'"
  then obtain k r c where "ks = k # r" "from_keyed_account sysvar_clock_id (vl_clock L) s k = Inr c"
    "vote_authorize_account L me p a S c s = Inr s'"
    by (auto simp: Authorize vote_dispatch_def and_then_Inr_iff)
  then show ?thesis by (auto simp: Authorize intro!: exI [of _ k] exI [of _ c])
qed (auto simp: vote_dispatch_def and_then_Inr_iff dest: vote_handler_voted)

lemma vote_instruction_ran:
  assumes "vote_process_instruction L ks bs s = Inr s'"
  shows "\<exists>me rest ix. ks = me # rest \<and> limited_deserialize (vl_instruction L) bs = Inr ix \<and>
    vote_ran L me rest (get_signers ks) ix s s'"
  using assms
  by (auto simp: vote_process_instruction_def and_then_Inr_iff dest: vote_dispatch_ran)

lemma vote_ran_changes:
  "vote_ran L me ks S ix s s' \<Longrightarrow> vote_write L me s s' \<or> (\<exists>to\<in>set ks. vote_paid L me to s s')"
  by (cases ix) (auto simp: voted_def dest: vote_handlers_write vote_withdraw_paid)

lemma vote_instruction_changes:
  assumes "vote_process_instruction L ks bs s = Inr s'"
  shows "\<exists>me rest. ks = me # rest \<and> (vote_write L me s s' \<or> (\<exists>to\<in>set rest. vote_paid L me to s s'))"
proof -
  from vote_instruction_ran [OF assms] obtain me rest ix where
    "ks = me # rest" "vote_ran L me rest (get_signers ks) ix s s'" by blast
  with vote_ran_changes [of L me rest "get_signers ks" ix s s'] show ?thesis by simp
qed

lemma vote_write_keeps:
  assumes "vote_write L me s s'"
  shows "r \<noteq> acct me \<Longrightarrow> s' r = s r" and "lamports (s' r) = lamports (s r)"
    and "wrapped_total R s' = wrapped_total R s" and "total_lamports R s' = total_lamports R s"
  using assms by (auto simp: vote_write_def keyed_set_state_frame keyed_set_state_keeps
    wrapped_total_keyed_set_state total_lamports_keyed_set_state)

lemma vote_paid_keeps:
  assumes "vote_paid L me to s s'" and "finite R" and "{acct me, acct to} \<subseteq> R"
  shows "r \<notin> R \<Longrightarrow> s' r = s r" and "wrapped_total R s' = wrapped_total R s"
    and "total_lamports R s < 2 ^ 64 \<Longrightarrow> total_lamports R s' = total_lamports R s"
proof -
  from assms(1) obtain n s1 where n: "n \<le> lamports (s (acct me))"
    and s1: "s1 = s \<or> vote_write L me s s1" and s': "s' = credit (acct to) n (debit (acct me) n s1)"
    by (auto simp: vote_paid_def)
  have s1_keeps: "\<And>r. r \<noteq> acct me \<Longrightarrow> s1 r = s r" "lamports (s1 (acct me)) = lamports (s (acct me))"
    "wrapped_total R s1 = wrapped_total R s" "total_lamports R s1 = total_lamports R s"
    using s1 vote_write_keeps by blast+
  then show "r \<notin> R \<Longrightarrow> s' r = s r" "wrapped_total R s' = wrapped_total R s"
    using assms(2,3) by (auto simp: s' debit_def credit_def lamport_simps)
  show "total_lamports R s' = total_lamports R s" if "total_lamports R s < 2 ^ 64"
    unfolding s' using total_lamports_move [of R "acct me" "acct to" n s1] assms(2,3) n s1_keeps that by auto
qed

definition vote_run :: "vote_lib \<Rightarrow> keyed_account list \<times> bytes \<Rightarrow> store \<Rightarrow> store program_result" where
  "vote_run L = (\<lambda>(ks, bs). vote_process_instruction L ks bs)"

lemma vote_run_keeps:
  assumes "vote_run L i s = Inr s'" and "finite R" and "passed_accounts i \<subseteq> R"
  shows "r \<notin> R \<Longrightarrow> s' r = s r" and "wrapped_total R s' = wrapped_total R s"
    and "total_lamports R s < 2 ^ 64 \<Longrightarrow> total_lamports R s' = total_lamports R s"
proof -
  obtain ks bs where i: "i = (ks, bs)" by fastforce
  with assms(1) obtain me rest where ks: "ks = me # rest"
    and change: "vote_write L me s s' \<or> (\<exists>to\<in>set rest. vote_paid L me to s s')"
    using vote_instruction_changes [of L ks bs s s'] by (auto simp: vote_run_def)
  from assms(3) have R: "acct me \<in> R" "\<And>to. to \<in> set rest \<Longrightarrow> acct to \<in> R"
    by (auto simp: i ks passed_accounts_def)
  from change have "(r \<notin> R \<longrightarrow> s' r = s r) \<and> wrapped_total R s' = wrapped_total R s \<and>
    (total_lamports R s < 2 ^ 64 \<longrightarrow> total_lamports R s' = total_lamports R s)"
  proof
    assume "vote_write L me s s'"
    note keeps = vote_write_keeps [OF this]
    show ?thesis using R(1) keeps(3,4) by (auto intro: keeps(1))
  next
    assume "\<exists>to\<in>set rest. vote_paid L me to s s'"
    then obtain to where paid: "vote_paid L me to s s'" and "{acct me, acct to} \<subseteq> R" using R by blast
    from vote_paid_keeps [OF paid assms(2) this(2)] show ?thesis by blast
  qed
  then show "r \<notin> R \<Longrightarrow> s' r = s r" "wrapped_total R s' = wrapped_total R s"
    "total_lamports R s < 2 ^ 64 \<Longrightarrow> total_lamports R s' = total_lamports R s"
    by simp_all
qed

interpretation vote: exact_program "vote_run L" passed_accounts for L
proof
  show "s' r = s r" if "vote_run L i s = Inr s'" "r \<notin> passed_accounts i" for i s s' r
    using vote_run_keeps(1) [OF that(1) _ order.refl that(2)] by (simp add: passed_accounts_def split: prod.splits)
qed (rule vote_run_keeps(2,3); assumption)+

end
