(* ===== verification/VoteLib.thy ===== *)
theory VoteLib
  imports VoteProgram
begin

text \<open>
  A concrete instance of the parameters of the vote program: an injective encoding of its
  instructions and of the stored vote state, built from the combinators of the codec theory. It
  shows that what the theorems assume of bincode can hold, and the account state of the vote program
  is an instance of the contract \<open>serde_state\<close> with it.
\<close>

section \<open>The vote state\<close>

type_synonym lockout_repr = "slot \<times> u32"
type_synonym vote_state_repr =
  "pubkey \<times> pubkey \<times> u8 \<times> lockout_repr list \<times> slot option \<times> (epoch \<times> pubkey) list \<times>
   ((pubkey \<times> epoch \<times> epoch) list \<times> nat \<times> bool) \<times> (epoch \<times> u64 \<times> u64) list \<times> (slot \<times> i64)"
type_synonym vote_state_0_23_5_repr =
  "pubkey \<times> pubkey \<times> epoch \<times> ((pubkey \<times> epoch \<times> epoch \<times> slot) list \<times> nat) \<times> pubkey \<times> u8 \<times>
   lockout_repr list \<times> slot option \<times> (epoch \<times> u64 \<times> u64) list \<times> (slot \<times> i64)"

definition lockout_repr :: "lockout \<Rightarrow> lockout_repr" where
  "lockout_repr v = (lockout_slot v, confirmation_count v)"

definition lockout_of :: "lockout_repr \<Rightarrow> lockout" where
  "lockout_of = (\<lambda>(sl, n). \<lparr>lockout_slot = sl, confirmation_count = n\<rparr>)"

definition timestamp_repr :: "block_timestamp \<Rightarrow> slot \<times> i64" where
  "timestamp_repr t = (bts_slot t, bts_timestamp t)"

definition timestamp_of :: "slot \<times> i64 \<Rightarrow> block_timestamp" where
  "timestamp_of = (\<lambda>(sl, t). \<lparr>bts_slot = sl, bts_timestamp = t\<rparr>)"

lemma lockout_of_repr [simp]: "lockout_of (lockout_repr v) = v"
  by (simp add: lockout_repr_def lockout_of_def)

lemma lockouts_of_repr [simp]: "map lockout_of (map lockout_repr vs) = vs"
  by (induction vs) simp_all

lemma timestamp_of_repr [simp]: "timestamp_of (timestamp_repr t) = t"
  by (simp add: timestamp_repr_def timestamp_of_def)

definition vote_state_repr :: "vote_state \<Rightarrow> vote_state_repr" where
  "vote_state_repr s =
     (node_pubkey s, authorized_withdrawer s, commission s, map lockout_repr (votes s), root_slot s,
      vs_authorized_voters s,
      (cb_buf (prior_voters s), cb_idx (prior_voters s), cb_is_empty (prior_voters s)),
      epoch_credits s, timestamp_repr (last_timestamp s))"

definition vote_state_of :: "vote_state_repr \<Rightarrow> vote_state" where
  "vote_state_of = (\<lambda>(n, w, c, vs, r, m, (b, i, em), cr, t).
     \<lparr>node_pubkey = n, authorized_withdrawer = w, commission = c, votes = map lockout_of vs,
      root_slot = r, vs_authorized_voters = m,
      prior_voters = \<lparr>cb_buf = b, cb_idx = i, cb_is_empty = em\<rparr>, epoch_credits = cr,
      last_timestamp = timestamp_of t\<rparr>)"

definition vote_state_0_23_5_repr :: "vote_state_0_23_5 \<Rightarrow> vote_state_0_23_5_repr" where
  "vote_state_0_23_5_repr s =
     (v0_node_pubkey s, v0_authorized_voter s, v0_authorized_voter_epoch s, v0_prior_voters s,
      v0_authorized_withdrawer s, v0_commission s, map lockout_repr (v0_votes s), v0_root_slot s,
      v0_epoch_credits s, timestamp_repr (v0_last_timestamp s))"

definition vote_state_0_23_5_of :: "vote_state_0_23_5_repr \<Rightarrow> vote_state_0_23_5" where
  "vote_state_0_23_5_of = (\<lambda>(n, a, e, p, w, c, vs, r, cr, t).
     \<lparr>v0_node_pubkey = n, v0_authorized_voter = a, v0_authorized_voter_epoch = e, v0_prior_voters = p,
      v0_authorized_withdrawer = w, v0_commission = c, v0_votes = map lockout_of vs, v0_root_slot = r,
      v0_epoch_credits = cr, v0_last_timestamp = timestamp_of t\<rparr>)"

fun versions_repr :: "vote_state_versions \<Rightarrow> vote_state_0_23_5_repr + vote_state_repr" where
  "versions_repr (V0_23_5 s) = Inl (vote_state_0_23_5_repr s)"
| "versions_repr (Current s) = Inr (vote_state_repr s)"

fun versions_of :: "vote_state_0_23_5_repr + vote_state_repr \<Rightarrow> vote_state_versions" where
  "versions_of (Inl s) = V0_23_5 (vote_state_0_23_5_of s)"
| "versions_of (Inr s) = Current (vote_state_of s)"

lemma versions_of_repr: "versions_of (versions_repr v) = v"
  by (cases v) (simp_all add: vote_state_repr_def vote_state_of_def vote_state_0_23_5_repr_def
    vote_state_0_23_5_of_def del: map_map)

abbreviation "enc_lockouts \<equiv> enc_list (enc_pair enc_u64 enc_u32)"
abbreviation "dec_lockouts \<equiv> dec_list (dec_pair dec_u64 dec_u32)"
abbreviation "enc_credits \<equiv> enc_list (enc_pair enc_u64 (enc_pair enc_u64 enc_u64))"
abbreviation "dec_credits \<equiv> dec_list (dec_pair dec_u64 (dec_pair dec_u64 dec_u64))"

definition vote_serde :: "vote_state_versions serde" where
  "vote_serde =
     \<lparr>ser = enc_via versions_repr
        (enc_sum
          (enc_pair enc_key (enc_pair enc_key (enc_pair enc_u64 (enc_pair
            (enc_pair (enc_list (enc_pair enc_key (enc_pair enc_u64 (enc_pair enc_u64 enc_u64)))) enc_nat)
            (enc_pair enc_key (enc_pair enc_u8 (enc_pair enc_lockouts (enc_pair (enc_option enc_u64)
              (enc_pair enc_credits (enc_pair enc_u64 enc_u64))))))))))
          (enc_pair enc_key (enc_pair enc_key (enc_pair enc_u8 (enc_pair enc_lockouts
            (enc_pair (enc_option enc_u64) (enc_pair (enc_list (enc_pair enc_u64 enc_key))
              (enc_pair
                (enc_pair (enc_list (enc_pair enc_key (enc_pair enc_u64 enc_u64))) (enc_pair enc_nat enc_bool))
                (enc_pair enc_credits (enc_pair enc_u64 enc_u64)))))))))),
      de = dec_via versions_of
        (dec_sum
          (dec_pair dec_key (dec_pair dec_key (dec_pair dec_u64 (dec_pair
            (dec_pair (dec_list (dec_pair dec_key (dec_pair dec_u64 (dec_pair dec_u64 dec_u64)))) dec_nat)
            (dec_pair dec_key (dec_pair dec_u8 (dec_pair dec_lockouts (dec_pair (dec_option dec_u64)
              (dec_pair dec_credits (dec_pair dec_u64 dec_u64))))))))))
          (dec_pair dec_key (dec_pair dec_key (dec_pair dec_u8 (dec_pair dec_lockouts
            (dec_pair (dec_option dec_u64) (dec_pair (dec_list (dec_pair dec_u64 dec_key))
              (dec_pair
                (dec_pair (dec_list (dec_pair dec_key (dec_pair dec_u64 dec_u64))) (dec_pair dec_nat dec_bool))
                (dec_pair dec_credits (dec_pair dec_u64 dec_u64))))))))))\<rparr>"

interpretation vote_account: serde_state vote_serde
  unfolding serde_state_def vote_serde_def serde.simps
  by (intro codec_via codec_rules versions_of_repr)

section \<open>Instructions\<close>

type_synonym vote_repr = "slot list \<times> hash \<times> i64 option"
type_synonym vote_instruction_repr =
  "(pubkey \<times> pubkey \<times> pubkey \<times> u8) + (pubkey \<times> bool) + vote_repr + u64 + bool + u8 + vote_repr \<times> hash"

definition vote_repr :: "vote \<Rightarrow> vote_repr" where
  "vote_repr v = (vote_slots v, vote_hash v, vote_timestamp v)"

definition vote_of :: "vote_repr \<Rightarrow> vote" where
  "vote_of = (\<lambda>(sls, h, t). \<lparr>vote_slots = sls, vote_hash = h, vote_timestamp = t\<rparr>)"

fun vote_instruction_repr :: "vote_instruction \<Rightarrow> vote_instruction_repr" where
  "vote_instruction_repr (InitializeAccount vi) =
     Inl (init_node_pubkey vi, init_authorized_voter vi, init_authorized_withdrawer vi, init_commission vi)"
| "vote_instruction_repr (Authorize k a) = Inr (Inl (k, a = Voter))"
| "vote_instruction_repr (Vote v) = Inr (Inr (Inl (vote_repr v)))"
| "vote_instruction_repr (Withdraw n) = Inr (Inr (Inr (Inl n)))"
| "vote_instruction_repr UpdateValidatorIdentity = Inr (Inr (Inr (Inr (Inl True))))"
| "vote_instruction_repr (UpdateCommission c) = Inr (Inr (Inr (Inr (Inr (Inl c)))))"
| "vote_instruction_repr (VoteSwitch v h) = Inr (Inr (Inr (Inr (Inr (Inr (vote_repr v, h))))))"

fun vote_instruction_of :: "vote_instruction_repr \<Rightarrow> vote_instruction" where
  "vote_instruction_of (Inl (n, v, w, c)) =
     InitializeAccount \<lparr>init_node_pubkey = n, init_authorized_voter = v,
       init_authorized_withdrawer = w, init_commission = c\<rparr>"
| "vote_instruction_of (Inr (Inl (k, a))) = Authorize k (if a then Voter else Withdrawer)"
| "vote_instruction_of (Inr (Inr (Inl v))) = Vote (vote_of v)"
| "vote_instruction_of (Inr (Inr (Inr (Inl n)))) = Withdraw n"
| "vote_instruction_of (Inr (Inr (Inr (Inr (Inl _))))) = UpdateValidatorIdentity"
| "vote_instruction_of (Inr (Inr (Inr (Inr (Inr (Inl c)))))) = UpdateCommission c"
| "vote_instruction_of (Inr (Inr (Inr (Inr (Inr (Inr (v, h))))))) = VoteSwitch (vote_of v) h"

lemma vote_instruction_of_repr: "vote_instruction_of (vote_instruction_repr ix) = ix"
proof (cases ix)
  case (Authorize k a)
  then show ?thesis by (cases a) simp_all
qed (simp_all add: vote_repr_def vote_of_def)

abbreviation "enc_vote \<equiv> enc_pair (enc_list enc_u64) (enc_pair enc_key (enc_option enc_u64))"
abbreviation "dec_vote \<equiv> dec_pair (dec_list dec_u64) (dec_pair dec_key (dec_option dec_u64))"

definition vote_instruction_serde :: "vote_instruction serde" where
  "vote_instruction_serde =
     \<lparr>ser = enc_via vote_instruction_repr
        (enc_sum (enc_pair enc_key (enc_pair enc_key (enc_pair enc_key enc_u8)))
        (enc_sum (enc_pair enc_key enc_bool)
        (enc_sum enc_vote
        (enc_sum enc_u64
        (enc_sum enc_bool
        (enc_sum enc_u8
          (enc_pair enc_vote enc_key))))))),
      de = dec_via vote_instruction_of
        (dec_sum (dec_pair dec_key (dec_pair dec_key (dec_pair dec_key dec_u8)))
        (dec_sum (dec_pair dec_key dec_bool)
        (dec_sum dec_vote
        (dec_sum dec_u64
        (dec_sum dec_bool
        (dec_sum dec_u8
          (dec_pair dec_vote dec_key)))))))\<rparr>"

interpretation vote_instruction: codec "ser vote_instruction_serde" "de vote_instruction_serde"
  unfolding vote_instruction_serde_def serde.simps
  by (intro codec_via codec_rules vote_instruction_of_repr)

section \<open>Sysvars and the whole instance\<close>

definition clock_serde :: "clock serde" where
  "clock_serde =
     \<lparr>ser = enc_via
        (\<lambda>c. (clock_slot c, epoch_start_timestamp c, clock_epoch c, leader_schedule_epoch c, unix_timestamp c))
        (enc_pair enc_u64 (enc_pair enc_u64 (enc_pair enc_u64 (enc_pair enc_u64 enc_u64)))),
      de = dec_via
        (\<lambda>(a, b, c, d, e). \<lparr>clock_slot = a, epoch_start_timestamp = b, clock_epoch = c,
           leader_schedule_epoch = d, unix_timestamp = e\<rparr>)
        (dec_pair dec_u64 (dec_pair dec_u64 (dec_pair dec_u64 (dec_pair dec_u64 dec_u64))))\<rparr>"

definition slot_hashes_serde :: "(slot \<times> hash) list serde" where
  "slot_hashes_serde =
     \<lparr>ser = enc_list (enc_pair enc_u64 enc_key), de = dec_list (dec_pair dec_u64 dec_key)\<rparr>"

interpretation clock_sysvar: codec "ser clock_serde" "de clock_serde"
  unfolding clock_serde_def serde.simps by (intro codec_via codec_rules) simp

interpretation slot_hashes_sysvar: codec "ser slot_hashes_serde" "de slot_hashes_serde"
  unfolding slot_hashes_serde_def serde.simps by (intro codec_rules)

text \<open>Every key is rendered as the letter x, with which the gate of the vote handler lets all votes pass.\<close>

definition demo_lib :: vote_lib where
  "demo_lib =
     \<lparr>vl_state = vote_serde, vl_instruction = vote_instruction_serde,
      vl_rent = \<lparr>ser = (\<lambda>_. []), de = (\<lambda>bs. Some (default_rent, bs))\<rparr>,
      vl_clock = clock_serde, vl_slot_hashes = slot_hashes_serde, vl_bs58 = (\<lambda>_. ''x'')\<rparr>"

end
