(* ===== verification/VoteSafety.thy ===== *)
theory VoteSafety
  imports VoteLib
begin

text \<open>
  Properties of the vote program as a whole: the signatures each instruction needs, the invariant of
  stored vote states, when a vote is accepted, and when the program panics.
\<close>

section \<open>A concrete vote account\<close>

text \<open>
  Account 0 is a vote account with 10 lamports, room for a longer state, node 1, voter 2 and
  withdrawer 3; account 1 holds the clock, account 2 the slot hashes, account 3 receives payments.
\<close>

definition demo_clock :: clock where
  "demo_clock = \<lparr>clock_slot = 8, epoch_start_timestamp = 0, clock_epoch = 0, leader_schedule_epoch = 1,
     unix_timestamp = 5\<rparr>"

definition demo_state :: vote_state where
  "demo_state = vote_state_new
     \<lparr>init_node_pubkey = 1, init_authorized_voter = 2, init_authorized_withdrawer = 3, init_commission = 10\<rparr>
     demo_clock"

definition demo_voted :: vote_state where
  "demo_voted = fold (\<lambda>sl. process_slot sl 0) [7] demo_state"

definition demo_account :: account where
  "demo_account = \<lparr>lamports = 10,
     data = ser vote_serde (Current demo_state) @ replicate (length (ser vote_serde (Current demo_voted))) 0,
     owner = vote_program_id, executable = False, rent_epoch = 0\<rparr>"

definition demo_store :: store where
  "demo_store r =
     (if r = 0 then demo_account
      else if r = 1 then default_account\<lparr>data := ser clock_serde demo_clock\<rparr>
      else if r = 2 then default_account\<lparr>data := ser slot_hashes_serde [(7, 70)]\<rparr>
      else default_account)"

definition vote_key :: keyed_account where
  "vote_key = \<lparr>is_signer = False, is_writable = True, key = 100, acct = 0\<rparr>"

definition recipient_key :: keyed_account where
  "recipient_key = \<lparr>is_signer = False, is_writable = True, key = 101, acct = 3\<rparr>"

definition withdrawer_key :: keyed_account where
  "withdrawer_key = \<lparr>is_signer = True, is_writable = False, key = 3, acct = 4\<rparr>"

lemma demo_lib_simps [simp]:
  "vl_state demo_lib = vote_serde" "vl_instruction demo_lib = vote_instruction_serde"
  "vl_bs58 demo_lib k = ''x''"
  by (simp_all add: demo_lib_def)

lemma vote_serde_ok: "serde_ok vote_serde"
  by (rule vote_account.codec_axioms)

lemma demo_keyed_state: "keyed_state vote_serde demo_store vote_key = Inr (Current demo_state)"
  by (simp add: keyed_state_def get_state_def deserialize_data_def demo_store_def vote_key_def demo_account_def
    vote_account.dec_enc)

lemma demo_voters: "vs_authorized_voters demo_state = [(0, 2)]" "authorized_withdrawer demo_state = 3"
  by (simp_all add: demo_state_def vote_state_new_def authorized_voters_new_def demo_clock_def
    default_vote_state_def)

lemma withdraw_instruction:
  "limited_deserialize vote_instruction_serde (ser vote_instruction_serde (Withdraw 4)) = Inr (Withdraw 4)"
  by (rule limited_deserialize_ser [OF vote_instruction.codec_axioms])
    (simp add: vote_instruction_serde_def enc_via_def enc_sum_def PACKET_DATA_SIZE_def)

abbreviation "demo_keys \<equiv> [vote_key, recipient_key, withdrawer_key]"
abbreviation "demo_withdraw \<equiv> ser vote_instruction_serde (Withdraw 4)"

definition demo_after :: store where
  "demo_after = credit 3 4 (debit 0 4 demo_store)"

lemma demo_withdraw_runs: "vote_process_instruction demo_lib demo_keys demo_withdraw demo_store = Inr demo_after"
  using demo_keyed_state
  by (simp add: vote_process_instruction_def vote_dispatch_def next_keyed_account_def withdraw_instruction
    vote_withdraw_def demo_voters verify_authorized_signer_def get_signers_def map_filter_def signer_key_def
    vote_key_def recipient_key_def withdrawer_key_def demo_store_def demo_account_def demo_after_def)

section \<open>Conservation of lamports\<close>

text \<open>
  (C8) The vote program conserves lamports: a transaction of vote instructions that succeeds leaves
  the exact sum over the accounts passed to it unchanged, and every other account as it was.
\<close>

theorem vote_program_conserves:
  assumes "fold_result (vote_run L) is s = Inr s'" and "finite R"
    and "(\<Union>i\<in>set is. passed_accounts i) \<subseteq> R" and "total_lamports R s < 2 ^ 64"
  shows "total_lamports R s' = total_lamports R s \<and> (\<forall>r. r \<notin> R \<longrightarrow> s' r = s r)"
proof -
  have "s' r = s r" if "r \<notin> R" for r
    using that assms(3) vote.sequence_frame [OF assms(1)] by (meson in_mono)
  with vote.sequence_exact [OF assms] show ?thesis by blast
qed

theorem vote_program_conserves_witness:
  "vote_run demo_lib (demo_keys, demo_withdraw) demo_store = Inr demo_after \<and>
   lamports (demo_after 0) = 6 \<and> lamports (demo_after 3) = 4 \<and>
   total_lamports {0, 3, 4} demo_after = total_lamports {0, 3, 4} demo_store"
proof -
  have run: "fold_result (vote_run demo_lib) [(demo_keys, demo_withdraw)] demo_store = Inr demo_after"
    using demo_withdraw_runs by (simp add: vote_run_def)
  have "total_lamports {0, 3, 4} demo_store < 2 ^ 64"
    by (simp add: total_lamports_def demo_store_def demo_account_def default_account_def)
  with vote_program_conserves [OF run, of "{0, 3, 4}"] demo_withdraw_runs show ?thesis
    by (simp add: passed_accounts_def vote_key_def recipient_key_def withdrawer_key_def vote_run_def
      demo_after_def credit_def debit_def demo_store_def demo_account_def default_account_def)
qed

section \<open>Required signatures\<close>

text \<open>The keys that must sign an instruction, given the state stored before it runs.\<close>

fun vote_authority :: "vote_instruction \<Rightarrow> pubkey \<Rightarrow> epoch \<Rightarrow> vote_state \<Rightarrow> pubkey set" where
  "vote_authority (InitializeAccount vi) node e vs = {init_node_pubkey vi}"
| "vote_authority (Authorize k Voter) node e vs = set_option (get_authorized_voter (vs_authorized_voters vs) e)"
| "vote_authority (Authorize k Withdrawer) node e vs = {authorized_withdrawer vs}"
| "vote_authority (Vote v) node e vs = set_option (get_authorized_voter (vs_authorized_voters vs) e)"
| "vote_authority (Withdraw n) node e vs = {authorized_withdrawer vs}"
| "vote_authority UpdateValidatorIdentity node e vs = {authorized_withdrawer vs, node}"
| "vote_authority (UpdateCommission c) node e vs = {authorized_withdrawer vs}"
| "vote_authority (VoteSwitch v h) node e vs = set_option (get_authorized_voter (vs_authorized_voters vs) e)"

text \<open>The epochs an instruction can be run in: those of the clock sysvar, if it reads the clock.\<close>

fun reads_clock :: "vote_instruction \<Rightarrow> bool" where
  "reads_clock (Withdraw _) = False"
| "reads_clock UpdateValidatorIdentity = False"
| "reads_clock (UpdateCommission _) = False"
| "reads_clock _ = True"

definition clock_read :: "vote_lib \<Rightarrow> keyed_account list \<Rightarrow> store \<Rightarrow> clock \<Rightarrow> bool" where
  "clock_read L ks s c \<longleftrightarrow> (\<exists>k\<in>set ks. from_keyed_account sysvar_clock_id (vl_clock L) s k = Inr c)"

lemma update_voter_current:
  assumes "get_and_update_authorized_voter e vs = Inr (voter, vs')" and "bt_ok (vs_authorized_voters vs)"
  shows "get_authorized_voter (vs_authorized_voters vs) e = Some voter"
  using assms cache_voter(2) [OF assms(2)]
  by (auto simp: get_and_update_authorized_voter_def split: prod.splits option.splits)

lemma set_voter_signed:
  assumes "set_new_authorized_voter k e target (\<lambda>voter. verify_authorized_signer voter S) vs = Inr vs'"
    and "bt_ok (vs_authorized_voters vs)"
  shows "\<exists>voter. get_authorized_voter (vs_authorized_voters vs) e = Some voter \<and> voter \<in> S"
  using assms update_voter_current [OF _ assms(2)]
  by (auto simp: set_new_authorized_voter_def and_then_Inr_iff)

lemma process_vote_signed:
  assumes "vote_process_vote L me sh c v S s = Inr s'" and "keyed_state (vl_state L) s me = Inr versioned"
    and "bt_ok (vs_authorized_voters (convert_to_current versioned))"
  shows "\<exists>voter. get_authorized_voter (vs_authorized_voters (convert_to_current versioned)) (clock_epoch c) =
    Some voter \<and> voter \<in> S"
  using assms update_voter_current [OF _ assms(3)]
  by (auto simp: vote_process_vote_def and_then_Inr_iff split: if_splits)

text \<open>What a successful run establishes, in the epoch of the clock it reads.\<close>

definition signed_in ::
  "vote_lib \<Rightarrow> keyed_account list \<Rightarrow> pubkey set \<Rightarrow> vote_instruction \<Rightarrow> store \<Rightarrow> vote_state \<Rightarrow> epoch \<Rightarrow> bool" where
  "signed_in L ks S ix s vs e \<longleftrightarrow>
     vote_authority ix (key (hd ks)) e vs \<noteq> {} \<and> vote_authority ix (key (hd ks)) e vs \<subseteq> S \<and>
     (reads_clock ix \<longrightarrow> (\<exists>c. clock_read L ks s c \<and> clock_epoch c = e))"

lemma signed_inI:
  assumes "clock_read L ks s c" and "vote_authority ix (key (hd ks)) (clock_epoch c) vs = {a}" and "a \<in> S"
  shows "\<exists>e. signed_in L ks S ix s vs e"
  using assms by (intro exI [of _ "clock_epoch c"]) (auto simp: signed_in_def)

lemma vote_ran_signed:
  assumes ran: "vote_ran L me ks S ix s s'" and st: "keyed_state (vl_state L) s me = Inr versioned"
    and ok: "bt_ok (vs_authorized_voters (convert_to_current versioned))"
  shows "\<exists>e. signed_in L ks S ix s (convert_to_current versioned) e"
proof (cases ix)
  case (InitializeAccount vi)
  with ran obtain c where "clock_read L ks s c" "init_node_pubkey vi \<in> S"
    by (auto simp: clock_read_def initialize_account_def and_then_Inr_iff split: if_splits)
  then show ?thesis by (intro signed_inI) (auto simp: InitializeAccount)
next
  case (Authorize k a)
  with ran obtain c where c: "clock_read L ks s c" and run: "vote_authorize_account L me k a S c s = Inr s'"
    by (auto simp: clock_read_def)
  show ?thesis
  proof (cases a)
    case Voter
    with run st obtain voter where
      "get_authorized_voter (vs_authorized_voters (convert_to_current versioned)) (clock_epoch c) = Some voter"
      "voter \<in> S"
      by (auto simp: vote_authorize_account_def and_then_Inr_iff dest!: set_voter_signed [OF _ ok])
    with c show ?thesis by (intro signed_inI) (auto simp: Authorize Voter)
  next
    case Withdrawer
    with run st have "authorized_withdrawer (convert_to_current versioned) \<in> S"
      by (auto simp: vote_authorize_account_def and_then_Inr_iff Let_def)
    with c show ?thesis by (intro signed_inI) (auto simp: Authorize Withdrawer)
  qed
next
  case (Vote v)
  with ran st obtain c voter where "clock_read L ks s c" "voter \<in> S"
    "get_authorized_voter (vs_authorized_voters (convert_to_current versioned)) (clock_epoch c) = Some voter"
    by (auto simp: voted_def clock_read_def dest!: process_vote_signed [OF _ st ok])
  then show ?thesis by (intro signed_inI) (auto simp: Vote)
next
  case (VoteSwitch v h)
  with ran st obtain c voter where "clock_read L ks s c" "voter \<in> S"
    "get_authorized_voter (vs_authorized_voters (convert_to_current versioned)) (clock_epoch c) = Some voter"
    by (auto simp: voted_def clock_read_def dest!: process_vote_signed [OF _ st ok])
  then show ?thesis by (intro signed_inI) (auto simp: VoteSwitch)
qed (use ran st in \<open>auto simp: signed_in_def vote_withdraw_def update_validator_identity_def
  update_commission_def and_then_Inr_iff Let_def split: if_splits\<close>)

text \<open>
  (C9) No vote instruction succeeds without its authority: the new node identity for an
  initialisation and for an identity change, the voter in force in the epoch of the clock sysvar for
  votes and for a new voter, and the authorized withdrawer for everything else.
\<close>

theorem vote_instruction_signed:
  assumes "vote_process_instruction L (me # ks) bs s = Inr s'"
    and "limited_deserialize (vl_instruction L) bs = Inr ix"
    and "keyed_state (vl_state L) s me = Inr versioned"
    and "bt_ok (vs_authorized_voters (convert_to_current versioned))"
  shows "\<exists>e. vote_authority ix (key (hd ks)) e (convert_to_current versioned) \<noteq> {} \<and>
    vote_authority ix (key (hd ks)) e (convert_to_current versioned) \<subseteq> get_signers (me # ks) \<and>
    (reads_clock ix \<longrightarrow> (\<exists>c. clock_read L ks s c \<and> clock_epoch c = e))"
proof -
  from vote_instruction_ran [OF assms(1)] assms(2)
  have "vote_ran L me ks (get_signers (me # ks)) ix s s'" by auto
  from vote_ran_signed [OF this assms(3,4)] show ?thesis by (simp add: signed_in_def)
qed

theorem vote_instruction_signed_witness:
  "vote_process_instruction demo_lib demo_keys demo_withdraw demo_store = Inr demo_after \<and>
   3 \<in> get_signers demo_keys"
  using vote_instruction_signed [of demo_lib vote_key "[recipient_key, withdrawer_key]" demo_withdraw demo_store
      demo_after "Withdraw 4" "Current demo_state"] demo_withdraw_runs withdraw_instruction demo_keyed_state
  by (simp add: demo_voters bt_ok_def)

section \<open>The invariant of stored states\<close>

definition stored_ok :: "vote_state \<Rightarrow> bool" where
  "stored_ok vs \<longleftrightarrow> vs_authorized_voters vs = [] \<or> vote_state_ok vs \<and> voters_ok vs"

definition vote_account_ok :: "vote_state_versions serde \<Rightarrow> account \<Rightarrow> bool" where
  "vote_account_ok C a \<longleftrightarrow> (\<exists>v. get_state C a = Inr v \<and> stored_ok (convert_to_current v))"

lemma no_voter_panics: "get_and_update_authorized_voter e vs = Inr p \<Longrightarrow> vs_authorized_voters vs \<noteq> []"
  by (auto simp: get_and_update_authorized_voter_def get_and_cache_authorized_voter_for_epoch_def
    get_or_calculate_authorized_voter_for_epoch_def bt_get_def bt_range_below_def bt_last_def split: prod.splits)

lemma stored_settings [simp]:
  "stored_ok (vs\<lparr>node_pubkey := n\<rparr>) = stored_ok vs"
  "stored_ok (vs\<lparr>authorized_withdrawer := k\<rparr>) = stored_ok vs"
  "stored_ok (vs\<lparr>commission := c\<rparr>) = stored_ok vs"
  by (simp_all add: stored_ok_def vote_state_ok_def voters_ok_def)

lemma stored_new [simp]: "stored_ok (vote_state_new vi c)"
  by (simp add: stored_ok_def vote_state_new_def default_vote_state_def vote_state_ok_def voters_ok_def
    authorized_voters_new_def circ_buf_ok_def circ_buf_default_def MAX_ITEMS_def bt_ok_def)

lemma stored_default [simp]: "stored_ok default_vote_state"
  by (simp add: stored_ok_def default_vote_state_def)

lemma stored_set_voter:
  assumes "set_new_authorized_voter k e target verify vs = Inr vs'" and "stored_ok vs"
  shows "stored_ok vs'"
proof -
  from assms(1) have "vs_authorized_voters vs \<noteq> []"
    by (auto simp: set_new_authorized_voter_def and_then_Inr_iff dest: no_voter_panics)
  with assms(2) have "vote_state_ok vs" "voters_ok vs" by (simp_all add: stored_ok_def)
  with set_voter_inv [OF assms(1)] show ?thesis by (simp add: stored_ok_def vote_state_ok_def)
qed

lemma process_timestamp_inv:
  "process_timestamp sl ts vs = Inr vs' \<Longrightarrow> vote_state_ok vs \<and> voters_ok vs \<Longrightarrow> vote_state_ok vs' \<and> voters_ok vs'"
  by (auto simp: process_timestamp_def Let_def vote_state_ok_def voters_ok_def split: if_splits)

lemma vote_result_Inr [simp]: "vote_result r = Inr x \<longleftrightarrow> r = Inr x"
  by (auto simp: vote_result_def split: sum.splits failure.splits)

lemma vote_process_vote_inv:
  assumes "vote_process_vote L me sh c v S s = Inr s'" and "keyed_state (vl_state L) s me = Inr versioned"
  shows "\<exists>voter vs1 vs2 vs3.
    get_and_update_authorized_voter (clock_epoch c) (convert_to_current versioned) = Inr (voter, vs1) \<and>
    process_vote v sh (clock_epoch c) vs1 = Inr vs2 \<and>
    (vs3 = vs2 \<or> (\<exists>sl ts. process_timestamp sl ts vs2 = Inr vs3)) \<and>
    keyed_set_state (vl_state L) me (Current vs3) s = Inr s'"
proof (cases "vote_timestamp v")
  case None
  with assms show ?thesis by (auto simp: vote_process_vote_def and_then_Inr_iff split: if_splits)
next
  case (Some ts)
  with assms show ?thesis by (auto simp: vote_process_vote_def and_then_Inr_iff split: if_splits)
qed

lemma stored_vote:
  assumes "vote_process_vote L me sh c v S s = Inr s'" and "keyed_state (vl_state L) s me = Inr versioned"
    and "stored_ok (convert_to_current versioned)"
  shows "\<exists>vs'. keyed_set_state (vl_state L) me (Current vs') s = Inr s' \<and> stored_ok vs'"
proof -
  from vote_process_vote_inv [OF assms(1,2)] obtain voter vs1 vs2 vs3 where
    upd: "get_and_update_authorized_voter (clock_epoch c) (convert_to_current versioned) = Inr (voter, vs1)"
    and vote: "process_vote v sh (clock_epoch c) vs1 = Inr vs2"
    and ts: "vs3 = vs2 \<or> (\<exists>sl ts. process_timestamp sl ts vs2 = Inr vs3)"
    and set: "keyed_set_state (vl_state L) me (Current vs3) s = Inr s'"
    by blast
  from no_voter_panics [OF upd] assms(3)
  have old: "vote_state_ok (convert_to_current versioned)" "voters_ok (convert_to_current versioned)"
    by (simp_all add: stored_ok_def)
  from update_voter_inv [OF upd old(2)] old(1) have "vote_state_ok vs1 \<and> voters_ok vs1"
    by (simp add: vote_state_ok_def)
  from process_vote_inv [OF vote this] ts process_timestamp_inv have "stored_ok vs3"
    by (auto simp: stored_ok_def)
  with set show ?thesis by blast
qed

lemma vote_ran_stored:
  assumes "vote_ran L me ks S ix s s'" and "keyed_state (vl_state L) s me = Inr versioned"
    and "stored_ok (convert_to_current versioned)"
  shows "\<exists>s1. (s1 = s \<or> (\<exists>vs'. keyed_set_state (vl_state L) me (Current vs') s = Inr s1 \<and> stored_ok vs')) \<and>
    (\<forall>r. data (s' r) = data (s1 r))"
proof -
  have direct: "?thesis" if "keyed_set_state (vl_state L) me (Current vs') s = Inr s' \<and> stored_ok vs'" for vs'
    using that by (intro exI [of _ s']) auto
  show ?thesis
  proof (cases ix)
    case (Withdraw n)
    with assms(1) obtain to where "vote_withdraw L me n to S s = Inr s'" by auto
    then have "\<exists>s1. s' = credit (acct to) n (debit (acct me) n s1) \<and>
      (s1 = s \<or> keyed_set_state (vl_state L) me (Current default_vote_state) s = Inr s1)"
      by (auto simp: vote_withdraw_def and_then_Inr_iff Let_def split: if_splits)
    then obtain s1 where "s' = credit (acct to) n (debit (acct me) n s1)"
      "s1 = s \<or> keyed_set_state (vl_state L) me (Current default_vote_state) s = Inr s1" by blast
    then show ?thesis by (intro exI [of _ s1]) (auto simp: credit_def debit_def)
  next
    case (Authorize k a)
    with assms(1) obtain c where "vote_authorize_account L me k a S c s = Inr s'" by auto
    with assms(2,3) have "\<exists>vs'. keyed_set_state (vl_state L) me (Current vs') s = Inr s' \<and> stored_ok vs'"
      by (cases a) (auto simp: vote_authorize_account_def and_then_Inr_iff Let_def intro: stored_set_voter)
    then obtain vs' where "keyed_set_state (vl_state L) me (Current vs') s = Inr s' \<and> stored_ok vs'" by blast
    then show ?thesis by (rule direct)
  next
    case (Vote v)
    with assms(1) obtain sh c where "vote_process_vote L me sh c v S s = Inr s'" by (auto simp: voted_def)
    from stored_vote [OF this assms(2,3)] direct show ?thesis by blast
  next
    case (VoteSwitch v h)
    with assms(1) obtain sh c where "vote_process_vote L me sh c v S s = Inr s'" by (auto simp: voted_def)
    from stored_vote [OF this assms(2,3)] direct show ?thesis by blast
  qed (use assms in \<open>auto simp: initialize_account_def update_validator_identity_def update_commission_def
    and_then_Inr_iff Let_def split: if_splits intro: direct\<close>)
qed

lemma vote_account_ok_data: "data a = data b \<Longrightarrow> vote_account_ok C a = vote_account_ok C b"
  by (simp add: vote_account_ok_def get_state_def deserialize_data_def)

lemma vote_run_stored:
  assumes "serde_ok (vl_state L)" and "vote_run L (ks, bs) s = Inr s'" and "vote_account_ok (vl_state L) (s r)"
  shows "vote_account_ok (vl_state L) (s' r)"
proof -
  from assms(2) obtain me rest ix where "ks = me # rest"
    and ran: "vote_ran L me rest (get_signers ks) ix s s'"
    using vote_instruction_ran [of L ks bs s s'] by (auto simp: vote_run_def)
  show ?thesis
  proof (cases "r = acct me")
    case True
    with assms(3) obtain v where "keyed_state (vl_state L) s me = Inr v" "stored_ok (convert_to_current v)"
      by (auto simp: vote_account_ok_def keyed_state_def)
    from vote_ran_stored [OF ran this] obtain s1 where s': "data (s' r) = data (s1 r)"
      and s1: "s1 = s \<or> (\<exists>vs'. keyed_set_state (vl_state L) me (Current vs') s = Inr s1 \<and> stored_ok vs')"
      by blast
    from s1 have "vote_account_ok (vl_state L) (s1 r)"
    proof
      assume "\<exists>vs'. keyed_set_state (vl_state L) me (Current vs') s = Inr s1 \<and> stored_ok vs'"
      then show ?thesis
        using True get_set_state [OF assms(1)] by (auto simp: keyed_set_state_Inr vote_account_ok_def)
    qed (simp add: assms(3))
    then show ?thesis using vote_account_ok_data [OF s'] by simp
  next
    case False
    from vote_ran_changes [OF ran] have "data (s' r) = data (s r)"
      using False by (auto simp: vote_paid_def vote_write_keeps(1) credit_def debit_def)
    then show ?thesis using assms(3) vote_account_ok_data [of "s' r" "s r"] by simp
  qed
qed

text \<open>
  (C11) Every sequence of vote instructions that succeeds keeps every vote account well formed: what
  it stores decodes to a state that is uninitialised or has a well-formed tower above its root and a
  non-empty ordered map of voters.
\<close>

theorem vote_program_keeps_accounts_ok:
  assumes "serde_ok (vl_state L)" and "fold_result (vote_run L) is s = Inr s'"
    and "vote_account_ok (vl_state L) (s r)"
  shows "vote_account_ok (vl_state L) (s' r)"
proof (rule fold_result_invariant [OF assms(2), where P = "\<lambda>t. vote_account_ok (vl_state L) (t r)"])
  show "vote_account_ok (vl_state L) (u r)"
    if "vote_run L i t = Inr u" "vote_account_ok (vl_state L) (t r)" for i t u
    using that vote_run_stored [OF assms(1)] by (cases i) simp
qed (rule assms(3))

theorem vote_program_keeps_accounts_ok_witness:
  "vote_run demo_lib (demo_keys, demo_withdraw) demo_store = Inr demo_after \<and>
   vote_account_ok vote_serde (demo_store 0) \<and> vote_account_ok vote_serde (demo_after 0)"
proof -
  have run: "fold_result (vote_run demo_lib) [(demo_keys, demo_withdraw)] demo_store = Inr demo_after"
    using demo_withdraw_runs by (simp add: vote_run_def)
  have "stored_ok demo_state" by (simp add: demo_state_def)
  then have "vote_account_ok vote_serde (demo_store 0)"
    using demo_keyed_state by (auto simp: vote_account_ok_def keyed_state_def vote_key_def)
  with vote_program_keeps_accounts_ok [OF _ run, of 0] vote_serde_ok run show ?thesis
    by (simp add: and_then_Inr_iff)
qed

section \<open>When a vote is accepted\<close>

lemma update_voter_total:
  assumes "bt_ok (vs_authorized_voters vs)" and "get_authorized_voter (vs_authorized_voters vs) e = Some k"
  shows "\<exists>m. get_and_update_authorized_voter e vs = Inr (k, vs\<lparr>vs_authorized_voters := m\<rparr>) \<and>
    (\<forall>e'\<ge>e. get_authorized_voter m e' = get_authorized_voter (vs_authorized_voters vs) e')"
  using voters_kept [OF assms] by (auto simp: get_and_update_authorized_voter_def)

lemma check_slots_voters:
  "check_slots_are_valid (vs\<lparr>vs_authorized_voters := m\<rparr>) v sh = check_slots_are_valid vs v sh"
proof -
  have "already_voted (vs\<lparr>vs_authorized_voters := m\<rparr>) = already_voted vs"
    by (rule ext) (simp add: already_voted_iff)
  then show ?thesis by (simp add: check_slots_are_valid_def)
qed



section \<open>When the program panics\<close>

lemma vote_gate_panics:
  assumes "\<forall>k. bs58 k \<noteq> []"
  shows "vote_gate bs58 c sh voter = Inl Panic \<longleftrightarrow> sh = []"
  using assms by (auto simp: vote_gate_def last_char_def split: list.splits)

lemma update_voter_panics:
  assumes "bt_ok (vs_authorized_voters vs)"
  shows "get_and_update_authorized_voter e vs = Inl x \<longleftrightarrow>
    x = Panic \<and> get_authorized_voter (vs_authorized_voters vs) e = None"
proof (cases "get_authorized_voter (vs_authorized_voters vs) e")
  case None
  then show ?thesis
    using update_voter_current [OF _ assms, of e]
    by (auto simp: get_and_update_authorized_voter_def split: prod.splits option.splits)
next
  case (Some k)
  from update_voter_total [OF assms Some] Some show ?thesis by auto
qed

lemma vote_result_no_panic:
  "vote_result (process_vote v sh e vs) \<noteq> Inl Panic" "vote_result (process_timestamp sl ts vs) \<noteq> Inl Panic"
  by (auto simp: vote_result_def process_vote_def check_slots_are_valid_def process_timestamp_def Let_def
    split: prod.splits)

lemma set_state_no_panic: "keyed_set_state C k x s \<noteq> Inl Panic"
  by (auto simp: keyed_set_state_def set_state_def ok_or_def and_then_def split: option.splits sum.splits)

lemma and_then_Panic: "and_then m f = Inl Panic \<longleftrightarrow> m = Inl Panic \<or> (\<exists>x. m = Inr x \<and> f x = Inl Panic)"
  by (cases m) auto

text \<open>
  (C35) On an initialised account the vote handler panics, instead of returning an error, exactly when
  no voter is known for the clock's epoch or the slot-hashes sysvar is empty. The second is not caught
  by the check that reports a vote too old, because the gate reads the newest slot hash first.
\<close>

theorem vote_panics_iff:
  assumes "keyed_state (vl_state L) s me = Inr versioned" and "\<not> is_uninitialized versioned"
    and "bt_ok (vs_authorized_voters (convert_to_current versioned))" and "\<forall>k. vl_bs58 L k \<noteq> []"
  shows "vote_process_vote L me sh c v S s = Inl Panic \<longleftrightarrow>
    get_authorized_voter (vs_authorized_voters (convert_to_current versioned)) (clock_epoch c) = None \<or> sh = []"
proof (cases "get_and_update_authorized_voter (clock_epoch c) (convert_to_current versioned)")
  case (Inl x)
  then show ?thesis
    using assms(1,2) update_voter_panics [OF assms(3), of "clock_epoch c" x]
    by (simp add: vote_process_vote_def)
next
  case (Inr p)
  then obtain voter vs where p: "p = (voter, vs)" by fastforce
  from update_voter_current [OF Inr [unfolded p] assms(3)]
  have voter: "get_authorized_voter (vs_authorized_voters (convert_to_current versioned)) (clock_epoch c) = Some voter" .
  show ?thesis
    using assms(1,2) Inr p voter
    by (auto simp: vote_process_vote_def and_then_Panic vote_gate_panics [OF assms(4)] set_state_no_panic
      verify_authorized_signer_def vote_result_no_panic split: if_splits option.splits)
qed

theorem vote_panics_iff_witness:
  "vote_process_vote demo_lib vote_key [] demo_clock
     \<lparr>vote_slots = [7], vote_hash = 70, vote_timestamp = None\<rparr> {2} demo_store = Inl Panic \<and>
   check_slots_are_valid demo_state \<lparr>vote_slots = [7], vote_hash = 70, vote_timestamp = None\<rparr> [] =
     Inl (Err VoteTooOld)"
  using vote_panics_iff [of demo_lib demo_store vote_key "Current demo_state" "[]" demo_clock
      "\<lparr>vote_slots = [7], vote_hash = 70, vote_timestamp = None\<rparr>" "{2}"] demo_keyed_state
  by (simp add: demo_voters bt_ok_def check_slots_are_valid_def check_slots_loop.simps)

end
