(* ===== verification/PubkeyDerive.thy ===== *)
theory PubkeyDerive
  imports Accounts
begin

text \<open>
  Hashing and derived addresses (\<open>sdk/program/src/hash.rs\<close>, \<open>sdk/program/src/pubkey.rs\<close>): addresses
  made from a seed, and program addresses, which must not be points of the curve. SHA-256 and the
  decompression of curve points come from crates outside the repository; they are the parameters
  \<open>sha256\<close> and \<open>on_curve\<close>. A \<open>String\<close> is the list of its UTF-8 bytes.
\<close>

section \<open>Hashing\<close>

text \<open>A hasher is the input it has seen.\<close>

type_synonym hasher = bytes

definition hasher_hash :: "bytes \<Rightarrow> hasher \<Rightarrow> hasher" where
  "hasher_hash val h = h @ val"

definition hasher_hashv :: "bytes list \<Rightarrow> hasher \<Rightarrow> hasher" where
  "hasher_hashv vals h = fold hasher_hash vals h"

definition hashv :: "(bytes \<Rightarrow> hash) \<Rightarrow> bytes list \<Rightarrow> hash" where
  "hashv sha256 vals = sha256 (hasher_hashv vals [])"

lemma hasher_hashv_concat: "hasher_hashv vals h = h @ concat vals"
  by (induction vals arbitrary: h) (simp_all add: hasher_hashv_def hasher_hash_def)

section \<open>Derived addresses\<close>

definition MAX_SEED_LEN :: nat where
  "MAX_SEED_LEN = 32"

definition MAX_SEEDS :: nat where
  "MAX_SEEDS = 16"

datatype pubkey_error = SeedLengthExceeded | SeedsInvalid

fun pubkey_error_code :: "pubkey_error \<Rightarrow> instruction_error" where
  "pubkey_error_code SeedLengthExceeded = Custom 0"
| "pubkey_error_code SeedsInvalid = Custom 1"

definition create_with_seed ::
  "(bytes \<Rightarrow> hash) \<Rightarrow> pubkey \<Rightarrow> bytes \<Rightarrow> pubkey \<Rightarrow> pubkey_error + pubkey" where
  "create_with_seed sha256 base seed own =
     (if MAX_SEED_LEN < length seed then Inl SeedLengthExceeded
      else Inr (hashv sha256 [pubkey_bytes base, seed, pubkey_bytes own]))"

definition pda_marker :: bytes where
  "pda_marker = map (of_nat \<circ> of_char) ''ProgramDerivedAddress''"

definition create_program_address ::
  "(bytes \<Rightarrow> hash) \<Rightarrow> (hash \<Rightarrow> bool) \<Rightarrow> bytes list \<Rightarrow> pubkey \<Rightarrow> pubkey_error + pubkey" where
  "create_program_address sha256 on_curve seeds pid =
     (if MAX_SEEDS < length seeds then Inl SeedLengthExceeded
      else if \<exists>seed\<in>set seeds. MAX_SEED_LEN < length seed then Inl SeedLengthExceeded
      else
        let h = sha256 (hasher_hashv [pubkey_bytes pid, pda_marker] (fold hasher_hash seeds []))
        in if on_curve h then Inl SeedsInvalid else Inr h)"

text \<open>The loop over bump seeds, with the number of rounds left.\<close>

fun find_bump :: "(u8 \<Rightarrow> 'e + pubkey) \<Rightarrow> nat \<Rightarrow> u8 \<Rightarrow> (pubkey \<times> u8) option" where
  "find_bump create 0 bump = None"
| "find_bump create (Suc n) bump =
     (case create bump of Inr address \<Rightarrow> Some (address, bump) | Inl _ \<Rightarrow> find_bump create n (bump - 1))"

definition try_find_program_address ::
  "(bytes \<Rightarrow> hash) \<Rightarrow> (hash \<Rightarrow> bool) \<Rightarrow> bytes list \<Rightarrow> pubkey \<Rightarrow> (pubkey \<times> u8) option" where
  "try_find_program_address sha256 on_curve seeds pid =
     find_bump (\<lambda>bump. create_program_address sha256 on_curve (seeds @ [[bump]]) pid) 255 255"

definition find_program_address ::
  "(bytes \<Rightarrow> hash) \<Rightarrow> (hash \<Rightarrow> bool) \<Rightarrow> bytes list \<Rightarrow> pubkey \<Rightarrow> (pubkey_error, pubkey \<times> u8) outcome" where
  "find_program_address sha256 on_curve seeds pid =
     (case try_find_program_address sha256 on_curve seeds pid of None \<Rightarrow> Inl Panic | Some r \<Rightarrow> Inr r)"

section \<open>Properties\<close>

lemma create_program_address_Inr:
  "create_program_address sha256 on_curve seeds pid = Inr a \<longleftrightarrow>
     length seeds \<le> 16 \<and> \<not> (\<exists>seed\<in>set seeds. 32 < length seed) \<and>
     a = sha256 (concat seeds @ pubkey_bytes pid @ pda_marker) \<and> \<not> on_curve a"
proof -
  have "fold hasher_hash seeds [] = concat seeds"
    using hasher_hashv_concat [of seeds "[]"] by (simp add: hasher_hashv_def)
  then show ?thesis
    by (auto simp: create_program_address_def hasher_hashv_concat MAX_SEEDS_def MAX_SEED_LEN_def Let_def)
qed

lemma unat_pred: "0 < unat b \<Longrightarrow> unat (b - 1 :: u8) = unat b - 1"
  by (subst unat_sub_exact) (auto simp: word_le_nat_alt)

lemma find_bump_iff:
  "unat bump = n \<Longrightarrow> find_bump create n bump = Some (a, b) \<longleftrightarrow>
     0 < unat b \<and> unat b \<le> n \<and> create b = Inr a \<and> (\<forall>c. unat b < unat c \<and> unat c \<le> n \<longrightarrow> \<not> is_ok (create c))"
proof (induction n arbitrary: bump)
  case (Suc n)
  have top: "unat c = Suc n \<longleftrightarrow> c = bump" for c using Suc.prems by (metis word_unat_eq_iff)
  show ?case
  proof (cases "create bump")
    case (Inr x)
    then have "is_ok (create bump)" by (simp add: is_ok_def)
    have "b = bump" if "unat b \<le> Suc n" "\<forall>c. unat b < unat c \<and> unat c \<le> Suc n \<longrightarrow> \<not> is_ok (create c)"
    proof (rule ccontr)
      assume "b \<noteq> bump"
      with that(1) top [of b] Suc.prems have "unat b < unat bump \<and> unat bump \<le> Suc n" by simp
      with that(2) \<open>is_ok (create bump)\<close> show False by blast
    qed
    with Inr Suc.prems show ?thesis by auto
  next
    case (Inl e)
    have "unat (bump - 1) = n" using Suc.prems by (simp add: unat_pred)
    from Suc.IH [OF this] Inl top show ?thesis
      by (auto simp: is_ok_def le_Suc_eq)
  qed
qed auto

text \<open>
  (C31) The search for a program address finds the largest bump seed, from 255 down to 1, whose
  address is valid, and returns that address; it answers \<open>None\<close> exactly when none of them is valid.
\<close>

theorem find_program_address_largest:
  "try_find_program_address sha256 on_curve seeds pid = Some (a, b) \<longleftrightarrow>
     b \<noteq> 0 \<and> create_program_address sha256 on_curve (seeds @ [[b]]) pid = Inr a \<and>
     (\<forall>c. b < c \<longrightarrow> \<not> is_ok (create_program_address sha256 on_curve (seeds @ [[c]]) pid))"
proof -
  have le: "unat c \<le> 255" for c :: u8 using unsigned_less [of c, where ?'a = nat] by simp
  show ?thesis
    unfolding try_find_program_address_def
    by (subst find_bump_iff) (simp_all add: le word_less_nat_alt unat_gt_0)
qed

theorem find_program_address_largest_witness:
  "try_find_program_address (\<lambda>bs. of_nat (length bs) * 2 + of_nat (unat (hd bs) mod 2)) odd [] 7 = Some (108, 254)"
proof -
  let ?sha = "\<lambda>bs. of_nat (length bs) * 2 + of_nat (unat (hd bs) mod 2) :: hash"
  have "length (pubkey_bytes 7) = 32" by (simp add: pubkey_bytes_def)
  then have create: "create_program_address ?sha odd [[b]] 7 = (if odd (unat b) then Inl SeedsInvalid else Inr 108)" for b
    by (simp add: create_program_address_def MAX_SEEDS_def MAX_SEED_LEN_def hasher_hashv_concat hasher_hash_def
      pda_marker_def Let_def)
  have "unat c = 255" if "254 < c" for c :: u8
    using that unsigned_less [of c, where ?'a = nat] by (simp add: word_less_nat_alt)
  with find_program_address_largest [of ?sha odd "[]" 7 108 254] show ?thesis
    by (auto simp: create is_ok_def)
qed

end
