(* ===== verification/Nonce.thy ===== *)
theory Nonce
  imports Accounts Fees Rent
begin

text \<open>
  Durable nonce accounts (\<open>sdk/program/src/nonce\<close>, \<open>sdk/src/nonce_account.rs\<close> and
  \<open>sdk/src/nonce_keyed_account.rs\<close>): a blockhash stored in an account of the system program, which
  stays usable until its authority advances it.
\<close>

section \<open>Data\<close>

record nonce_data =
  nonce_authority :: pubkey
  nonce_blockhash :: hash
  nonce_fee_calculator :: fee_calculator

datatype nonce_state = Uninitialized | Initialized nonce_data

datatype nonce_versions = VersionCurrent nonce_state

fun nonce_convert_to_current :: "nonce_versions \<Rightarrow> nonce_state" where
  "nonce_convert_to_current (VersionCurrent st) = st"

definition nonce_state_size :: "nonce_versions serde \<Rightarrow> nat" where
  "nonce_state_size C = length (ser C (VersionCurrent (Initialized
     \<lparr>nonce_authority = 0, nonce_blockhash = 0,
      nonce_fee_calculator = \<lparr>fc_lamports_per_signature = 0\<rparr>\<rparr>)))"

datatype nonce_error = NoRecentBlockhashes | NotExpired | UnexpectedValue | BadAccountState

fun nonce_error_code :: "nonce_error \<Rightarrow> instruction_error" where
  "nonce_error_code NoRecentBlockhashes = Custom 0"
| "nonce_error_code NotExpired = Custom 1"
| "nonce_error_code UnexpectedValue = Custom 2"
| "nonce_error_code BadAccountState = Custom 3"

text \<open>An entry of the recent-blockhashes sysvar; the newest is first.\<close>

record blockhash_entry =
  entry_blockhash :: hash
  entry_fee_calculator :: fee_calculator

section \<open>Operations on a nonce account\<close>

definition nonce_of :: "nonce_versions serde \<Rightarrow> store \<Rightarrow> keyed_account \<Rightarrow> nonce_state program_result" where
  "nonce_of C s me = and_then (keyed_state C s me) (\<lambda>v. Inr (nonce_convert_to_current v))"

definition advance_nonce_account ::
  "nonce_versions serde \<Rightarrow> keyed_account \<Rightarrow> blockhash_entry list \<Rightarrow> pubkey set \<Rightarrow> store \<Rightarrow>
     store program_result" where
  "advance_nonce_account C me recent_blockhashes signers s =
     (case recent_blockhashes of
        [] \<Rightarrow> Inl (Err (nonce_error_code NoRecentBlockhashes))
      | newest # _ \<Rightarrow>
          and_then (nonce_of C s me) (\<lambda>st.
            case st of
              Initialized d \<Rightarrow>
                if nonce_authority d \<notin> signers then Inl (Err MissingRequiredSignature)
                else if nonce_blockhash d = entry_blockhash newest
                then Inl (Err (nonce_error_code NotExpired))
                else keyed_set_state C me (VersionCurrent (Initialized
                       (d\<lparr>nonce_blockhash := entry_blockhash newest,
                          nonce_fee_calculator := entry_fee_calculator newest\<rparr>))) s
            | Uninitialized \<Rightarrow> Inl (Err (nonce_error_code BadAccountState))))"

text \<open>The sum \<open>lamports + min_balance\<close> is the wrapping one of the release profile.\<close>

definition withdraw_nonce_account ::
  "nonce_versions serde \<Rightarrow> keyed_account \<Rightarrow> u64 \<Rightarrow> keyed_account \<Rightarrow> blockhash_entry list \<Rightarrow> rent \<Rightarrow>
     pubkey set \<Rightarrow> store \<Rightarrow> store program_result" where
  "withdraw_nonce_account C me amount to recent_blockhashes r signers s =
     (let balance = lamports (s (acct me))
      in and_then (nonce_of C s me) (\<lambda>st.
         and_then
           (case st of
              Uninitialized \<Rightarrow>
                if balance < amount then Inl (Err InsufficientFunds) else Inr (key me, s)
            | Initialized d \<Rightarrow>
                if amount = balance then
                  (case recent_blockhashes of
                     [] \<Rightarrow> Inl Panic
                   | newest # _ \<Rightarrow>
                       if nonce_blockhash d = entry_blockhash newest
                       then Inl (Err (nonce_error_code NotExpired))
                       else and_then (keyed_set_state C me (VersionCurrent Uninitialized) s)
                              (\<lambda>s1. Inr (nonce_authority d, s1)))
                else
                  let min_balance = minimum_balance r (length (data (s (acct me))))
                  in if balance < amount + min_balance then Inl (Err InsufficientFunds)
                     else Inr (nonce_authority d, s))
           (\<lambda>(signer, s1).
              if signer \<notin> signers then Inl (Err MissingRequiredSignature)
              else Inr (credit (acct to) amount (debit (acct me) amount s1)))))"

definition initialize_nonce_account ::
  "nonce_versions serde \<Rightarrow> keyed_account \<Rightarrow> pubkey \<Rightarrow> blockhash_entry list \<Rightarrow> rent \<Rightarrow> store \<Rightarrow>
     store program_result" where
  "initialize_nonce_account C me auth recent_blockhashes r s =
     (case recent_blockhashes of
        [] \<Rightarrow> Inl (Err (nonce_error_code NoRecentBlockhashes))
      | newest # _ \<Rightarrow>
          and_then (nonce_of C s me) (\<lambda>st.
            case st of
              Uninitialized \<Rightarrow>
                let min_balance = minimum_balance r (length (data (s (acct me))))
                in if lamports (s (acct me)) < min_balance then Inl (Err InsufficientFunds)
                   else keyed_set_state C me (VersionCurrent (Initialized
                          \<lparr>nonce_authority = auth, nonce_blockhash = entry_blockhash newest,
                           nonce_fee_calculator = entry_fee_calculator newest\<rparr>)) s
            | Initialized _ \<Rightarrow> Inl (Err (nonce_error_code BadAccountState))))"

definition authorize_nonce_account ::
  "nonce_versions serde \<Rightarrow> keyed_account \<Rightarrow> pubkey \<Rightarrow> pubkey set \<Rightarrow> store \<Rightarrow> store program_result" where
  "authorize_nonce_account C me auth signers s =
     and_then (nonce_of C s me) (\<lambda>st.
       case st of
         Initialized d \<Rightarrow>
           if nonce_authority d \<notin> signers then Inl (Err MissingRequiredSignature)
           else keyed_set_state C me (VersionCurrent (Initialized (d\<lparr>nonce_authority := auth\<rparr>))) s
       | Uninitialized \<Rightarrow> Inl (Err (nonce_error_code BadAccountState)))"

section \<open>Queries\<close>

definition verify_nonce_account :: "nonce_versions serde \<Rightarrow> account \<Rightarrow> hash \<Rightarrow> bool" where
  "verify_nonce_account C a h =
     (if owner a \<noteq> system_program_id then False
      else case get_state C a of
             Inr (VersionCurrent (Initialized d)) \<Rightarrow> h = nonce_blockhash d
           | _ \<Rightarrow> False)"

definition fee_calculator_of :: "nonce_versions serde \<Rightarrow> account \<Rightarrow> fee_calculator option" where
  "fee_calculator_of C a =
     (case get_state C a of
        Inr (VersionCurrent (Initialized d)) \<Rightarrow> Some (nonce_fee_calculator d)
      | _ \<Rightarrow> None)"

section \<open>A concrete encoding\<close>

definition nonce_repr :: "nonce_versions \<Rightarrow> (pubkey \<times> hash \<times> u64) option" where
  "nonce_repr v =
     (case v of
        VersionCurrent Uninitialized \<Rightarrow> None
      | VersionCurrent (Initialized d) \<Rightarrow>
          Some (nonce_authority d, nonce_blockhash d, fc_lamports_per_signature (nonce_fee_calculator d)))"

definition nonce_from :: "(pubkey \<times> hash \<times> u64) option \<Rightarrow> nonce_versions" where
  "nonce_from m =
     VersionCurrent (case m of
        None \<Rightarrow> Uninitialized
      | Some (a, h, f) \<Rightarrow>
          Initialized \<lparr>nonce_authority = a, nonce_blockhash = h,
            nonce_fee_calculator = \<lparr>fc_lamports_per_signature = f\<rparr>\<rparr>)"

definition nonce_serde :: "nonce_versions serde" where
  "nonce_serde =
     \<lparr>ser = enc_via nonce_repr (enc_option (enc_pair enc_key (enc_pair enc_key enc_u64))),
      de = dec_via nonce_from (dec_option (dec_pair dec_key (dec_pair dec_key dec_u64)))\<rparr>"

lemma nonce_from_repr: "nonce_from (nonce_repr v) = v"
  by (cases v) (auto simp: nonce_from_def nonce_repr_def split: nonce_state.splits)

interpretation nonce_account: serde_state nonce_serde
  unfolding serde_state_def nonce_serde_def serde.simps
  by (intro codec_via codec_rules nonce_from_repr)

section \<open>The life of a nonce\<close>

lemma nonce_of_Inr: "nonce_of C s me = Inr st \<longleftrightarrow> keyed_state C s me = Inr (VersionCurrent st)"
proof -
  have "nonce_convert_to_current v = st \<longleftrightarrow> v = VersionCurrent st" for v by (cases v) simp
  then show ?thesis by (auto simp: nonce_of_def and_then_Inr_iff)
qed

lemma advance_nonce_Inr:
  "advance_nonce_account C me rb signers s = Inr s' \<longleftrightarrow>
     (\<exists>newest rest d. rb = newest # rest \<and> nonce_of C s me = Inr (Initialized d) \<and>
        nonce_authority d \<in> signers \<and> nonce_blockhash d \<noteq> entry_blockhash newest \<and>
        keyed_set_state C me (VersionCurrent (Initialized
          (d\<lparr>nonce_blockhash := entry_blockhash newest,
             nonce_fee_calculator := entry_fee_calculator newest\<rparr>))) s = Inr s')"
  by (auto simp: advance_nonce_account_def and_then_def split: list.splits sum.splits nonce_state.splits if_splits)

lemma nonce_of_set:
  assumes "serde_ok C" and "keyed_set_state C me (VersionCurrent st) s = Inr s'"
  shows "nonce_of C s' me = Inr st"
  using assms(2) get_set_state [OF assms(1)] by (auto simp: nonce_of_Inr keyed_set_state_Inr keyed_state_def)

text \<open>
  (C30) A durable nonce is used at most once per blockhash: advancing needs the authority's signature,
  stores the newest blockhash with its fee and keeps the authority, so that a transaction that names
  the old nonce no longer verifies, and a second advance before a new blockhash fails with \<open>NotExpired\<close>.
\<close>

theorem advance_nonce_once:
  assumes "serde_ok C" and "advance_nonce_account C me (newest # rest) signers s = Inr s'"
    and "owner (s (acct me)) = system_program_id"
  shows "\<exists>d. nonce_of C s me = Inr (Initialized d) \<and> nonce_authority d \<in> signers \<and>
    nonce_of C s' me = Inr (Initialized (d\<lparr>nonce_blockhash := entry_blockhash newest,
      nonce_fee_calculator := entry_fee_calculator newest\<rparr>)) \<and>
    (\<forall>h. verify_nonce_account C (s' (acct me)) h \<longleftrightarrow> h = entry_blockhash newest) \<and>
    \<not> verify_nonce_account C (s' (acct me)) (nonce_blockhash d) \<and>
    advance_nonce_account C me (newest # rest) signers s' = Inl (Err (nonce_error_code NotExpired))"
proof -
  from assms(2) obtain d where d: "nonce_of C s me = Inr (Initialized d)" "nonce_authority d \<in> signers"
      "nonce_blockhash d \<noteq> entry_blockhash newest"
    and set: "keyed_set_state C me (VersionCurrent (Initialized (d\<lparr>nonce_blockhash := entry_blockhash newest,
        nonce_fee_calculator := entry_fee_calculator newest\<rparr>))) s = Inr s'"
    by (auto simp: advance_nonce_Inr)
  note now = nonce_of_set [OF assms(1) set]
  have "owner (s' (acct me)) = system_program_id" using keyed_set_state_keeps(2) [OF set] assms(3) by simp
  with now have "verify_nonce_account C (s' (acct me)) h \<longleftrightarrow> h = entry_blockhash newest" for h
    by (simp add: verify_nonce_account_def nonce_of_Inr keyed_state_def)
  with d now show ?thesis by (simp add: advance_nonce_account_def)
qed

text \<open>A nonce account in use, for the witnesses: authority 5, stored blockhash 60.\<close>

definition demo_nonce :: nonce_data where
  "demo_nonce = \<lparr>nonce_authority = 5, nonce_blockhash = 60,
     nonce_fee_calculator = \<lparr>fc_lamports_per_signature = 1\<rparr>\<rparr>"

definition demo_nonce_store :: "u64 \<Rightarrow> store" where
  "demo_nonce_store balance r =
     (if r = 0 then \<lparr>lamports = balance, data = ser nonce_serde (VersionCurrent (Initialized demo_nonce)),
        owner = system_program_id, executable = False, rent_epoch = 0\<rparr>
      else default_account\<lparr>lamports := 1000\<rparr>)"

definition demo_nonce_key :: keyed_account where
  "demo_nonce_key = \<lparr>is_signer = False, is_writable = True, key = 50, acct = 0\<rparr>"

lemma nonce_serde_ok: "serde_ok nonce_serde"
  by (rule nonce_account.codec_axioms)

lemma demo_nonce_of: "nonce_of nonce_serde (demo_nonce_store b) demo_nonce_key = Inr (Initialized demo_nonce)"
  by (simp add: nonce_of_Inr keyed_state_def get_state_def deserialize_data_def demo_nonce_store_def
    demo_nonce_key_def nonce_account.dec_enc_exact)

lemma length_nonce [simp]: "length (ser nonce_serde (VersionCurrent (Initialized d))) = 73"
  by (simp add: nonce_serde_def enc_via_def nonce_repr_def enc_option_def enc_pair_def)

theorem advance_nonce_once_witness:
  "\<exists>s'. advance_nonce_account nonce_serde demo_nonce_key
      [\<lparr>entry_blockhash = 61, entry_fee_calculator = \<lparr>fc_lamports_per_signature = 2\<rparr>\<rparr>] {5}
      (demo_nonce_store 9) = Inr s' \<and>
    verify_nonce_account nonce_serde (s' 0) 61 \<and> \<not> verify_nonce_account nonce_serde (s' 0) 60"
proof -
  let ?e = "\<lparr>entry_blockhash = 61, entry_fee_calculator = \<lparr>fc_lamports_per_signature = 2\<rparr>\<rparr>"
  obtain s' where s': "advance_nonce_account nonce_serde demo_nonce_key [?e] {5} (demo_nonce_store 9) = Inr s'"
    using demo_nonce_of [of 9]
    by (auto simp: advance_nonce_account_def demo_nonce_def keyed_set_state_def set_state_def serialize_data_def
      demo_nonce_store_def demo_nonce_key_def)
  have "owner (demo_nonce_store 9 (acct demo_nonce_key)) = system_program_id"
    by (simp add: demo_nonce_store_def demo_nonce_key_def)
  from advance_nonce_once [OF nonce_serde_ok s' this] s' demo_nonce_of [of 9] show ?thesis
    by (auto simp: demo_nonce_key_def demo_nonce_def)
qed

end
