(* ===== verification/SystemProgram.thy ===== *)
theory SystemProgram
  imports Nonce PubkeyDerive Message
begin

text \<open>
  The system program (\<open>runtime/src/system_instruction_processor.rs\<close> with the instructions of
  \<open>sdk/program/src/system_instruction.rs\<close>): creating, allocating and assigning accounts, transfers,
  addresses derived from seeds, and the nonce instructions. The record \<open>system_lib\<close> passes in the
  encodings and SHA-256, which come from crates outside the repository.
\<close>

section \<open>Instructions\<close>

datatype system_error =
    AccountAlreadyInUse
  | ResultWithNegativeLamports
  | InvalidProgramId
  | InvalidAccountDataLength
  | SystemMaxSeedLengthExceeded
  | AddressWithSeedMismatch

fun system_error_code :: "system_error \<Rightarrow> instruction_error" where
  "system_error_code AccountAlreadyInUse = Custom 0"
| "system_error_code ResultWithNegativeLamports = Custom 1"
| "system_error_code InvalidProgramId = Custom 2"
| "system_error_code InvalidAccountDataLength = Custom 3"
| "system_error_code SystemMaxSeedLengthExceeded = Custom 4"
| "system_error_code AddressWithSeedMismatch = Custom 5"

definition MAX_PERMITTED_DATA_LENGTH :: u64 where
  "MAX_PERMITTED_DATA_LENGTH = 10 * 1024 * 1024"

text \<open>
  The constructors have the fields of the source in its order: lamports, space and owner; base,
  seed, lamports, space and owner; and so on.
\<close>

datatype system_instruction =
    CreateAccount u64 u64 pubkey
  | Assign pubkey
  | Transfer u64
  | CreateAccountWithSeed pubkey bytes u64 u64 pubkey
  | AdvanceNonceAccount
  | WithdrawNonceAccount u64
  | InitializeNonceAccount pubkey
  | AuthorizeNonceAccount pubkey
  | Allocate u64
  | AllocateWithSeed pubkey bytes u64 pubkey
  | AssignWithSeed pubkey bytes pubkey
  | TransferWithSeed u64 bytes pubkey

record system_lib =
  sl_instruction :: "system_instruction serde"
  sl_nonce :: "nonce_versions serde"
  sl_recent_blockhashes :: "blockhash_entry list serde"
  sl_rent :: "rent serde"
  sl_sha256 :: "bytes \<Rightarrow> hash"

definition sysvar_id :: pubkey where
  "sysvar_id = 0x06a7d5171875f729c73d93408f216120067ed88c76e08c287fc1946000000000"

section \<open>Addresses\<close>

record address =
  address_key :: pubkey
  address_base :: "pubkey option"

definition address_is_signer :: "address \<Rightarrow> pubkey set \<Rightarrow> bool" where
  "address_is_signer a signers =
     (case address_base a of Some base \<Rightarrow> base \<in> signers | None \<Rightarrow> address_key a \<in> signers)"

definition derive ::
  "(bytes \<Rightarrow> hash) \<Rightarrow> pubkey \<Rightarrow> bytes \<Rightarrow> pubkey \<Rightarrow> pubkey program_result" where
  "derive sha256 base seed own =
     (case create_with_seed sha256 base seed own of
        Inl e \<Rightarrow> Inl (Err (pubkey_error_code e))
      | Inr k \<Rightarrow> Inr k)"

definition address_create ::
  "(bytes \<Rightarrow> hash) \<Rightarrow> pubkey \<Rightarrow> (pubkey \<times> bytes \<times> pubkey) option \<Rightarrow> address program_result" where
  "address_create sha256 k with_seed =
     (case with_seed of
        Some (base, seed, own) \<Rightarrow>
          and_then (derive sha256 base seed own) (\<lambda>derived.
            if k \<noteq> derived then Inl (Err (system_error_code AddressWithSeedMismatch))
            else Inr \<lparr>address_key = k, address_base = Some base\<rparr>)
      | None \<Rightarrow> Inr \<lparr>address_key = k, address_base = None\<rparr>)"

section \<open>Operations\<close>

definition allocate :: "account \<Rightarrow> address \<Rightarrow> u64 \<Rightarrow> pubkey set \<Rightarrow> account program_result" where
  "allocate a addr space signers =
     (if \<not> address_is_signer addr signers then Inl (Err MissingRequiredSignature)
      else if data a \<noteq> [] \<or> owner a \<noteq> system_program_id
      then Inl (Err (system_error_code AccountAlreadyInUse))
      else if MAX_PERMITTED_DATA_LENGTH < space
      then Inl (Err (system_error_code InvalidAccountDataLength))
      else Inr (a\<lparr>data := replicate (unat space) 0\<rparr>))"

definition assign :: "account \<Rightarrow> address \<Rightarrow> pubkey \<Rightarrow> pubkey set \<Rightarrow> account program_result" where
  "assign a addr own signers =
     (if owner a = own then Inr a
      else if \<not> address_is_signer addr signers then Inl (Err MissingRequiredSignature)
      else if own = sysvar_id then Inl (Err (system_error_code InvalidProgramId))
      else Inr (a\<lparr>owner := own\<rparr>))"

definition allocate_and_assign ::
  "account \<Rightarrow> address \<Rightarrow> u64 \<Rightarrow> pubkey \<Rightarrow> pubkey set \<Rightarrow> account program_result" where
  "allocate_and_assign a addr space own signers =
     and_then (allocate a addr space signers) (\<lambda>a1. assign a1 addr own signers)"

definition transfer_verified :: "keyed_account \<Rightarrow> keyed_account \<Rightarrow> u64 \<Rightarrow> store \<Rightarrow> store program_result" where
  "transfer_verified from to amount s =
     (if data (s (acct from)) \<noteq> [] then Inl (Err InvalidArgument)
      else if lamports (s (acct from)) < amount
      then Inl (Err (system_error_code ResultWithNegativeLamports))
      else Inr (credit (acct to) amount (debit (acct from) amount s)))"

definition transfer :: "keyed_account \<Rightarrow> keyed_account \<Rightarrow> u64 \<Rightarrow> store \<Rightarrow> store program_result" where
  "transfer from to amount s =
     (if amount = 0 then Inr s
      else if signer_key from = None then Inl (Err MissingRequiredSignature)
      else transfer_verified from to amount s)"

definition transfer_with_seed ::
  "(bytes \<Rightarrow> hash) \<Rightarrow> keyed_account \<Rightarrow> keyed_account \<Rightarrow> bytes \<Rightarrow> pubkey \<Rightarrow> keyed_account \<Rightarrow> u64 \<Rightarrow>
     store \<Rightarrow> store program_result" where
  "transfer_with_seed sha256 from from_base from_seed from_owner to amount s =
     (if amount = 0 then Inr s
      else if signer_key from_base = None then Inl (Err MissingRequiredSignature)
      else and_then (derive sha256 (key from_base) from_seed from_owner) (\<lambda>derived.
             if key from \<noteq> derived then Inl (Err (system_error_code AddressWithSeedMismatch))
             else transfer_verified from to amount s))"

definition create_account ::
  "keyed_account \<Rightarrow> keyed_account \<Rightarrow> address \<Rightarrow> u64 \<Rightarrow> u64 \<Rightarrow> pubkey \<Rightarrow> pubkey set \<Rightarrow> store \<Rightarrow>
     store program_result" where
  "create_account from to to_address amount space own signers s =
     (if 0 < lamports (s (acct to)) then Inl (Err (system_error_code AccountAlreadyInUse))
      else and_then (allocate_and_assign (s (acct to)) to_address space own signers) (\<lambda>a.
             transfer from to amount (s(acct to := a))))"

section \<open>The instruction processor\<close>

text \<open>An operation on the account of one keyed account.\<close>

definition on_account ::
  "keyed_account \<Rightarrow> (account \<Rightarrow> account program_result) \<Rightarrow> store \<Rightarrow> store program_result" where
  "on_account k f s = and_then (f (s (acct k))) (\<lambda>a. Inr (s(acct k := a)))"

definition recent_blockhashes_of ::
  "system_lib \<Rightarrow> store \<Rightarrow> keyed_account \<Rightarrow> blockhash_entry list program_result" where
  "recent_blockhashes_of L s k =
     from_keyed_account sysvar_recent_blockhashes_id (sl_recent_blockhashes L) s k"

definition system_dispatch ::
  "system_lib \<Rightarrow> keyed_account list \<Rightarrow> pubkey set \<Rightarrow> system_instruction \<Rightarrow> store \<Rightarrow> store program_result" where
  "system_dispatch L ks signers ix s =
     (case ix of
        CreateAccount amount space own \<Rightarrow>
          and_then (next_keyed_account ks) (\<lambda>(from, ks1).
          and_then (next_keyed_account ks1) (\<lambda>(to, _).
          and_then (address_create (sl_sha256 L) (key to) None) (\<lambda>to_address.
            create_account from to to_address amount space own signers s)))
      | CreateAccountWithSeed base seed amount space own \<Rightarrow>
          and_then (next_keyed_account ks) (\<lambda>(from, ks1).
          and_then (next_keyed_account ks1) (\<lambda>(to, _).
          and_then (address_create (sl_sha256 L) (key to) (Some (base, seed, own))) (\<lambda>to_address.
            create_account from to to_address amount space own signers s)))
      | Assign own \<Rightarrow>
          and_then (next_keyed_account ks) (\<lambda>(k, _).
          and_then (address_create (sl_sha256 L) (key k) None) (\<lambda>addr.
            on_account k (\<lambda>a. assign a addr own signers) s))
      | Transfer amount \<Rightarrow>
          and_then (next_keyed_account ks) (\<lambda>(from, ks1).
          and_then (next_keyed_account ks1) (\<lambda>(to, _). transfer from to amount s))
      | TransferWithSeed amount from_seed from_owner \<Rightarrow>
          and_then (next_keyed_account ks) (\<lambda>(from, ks1).
          and_then (next_keyed_account ks1) (\<lambda>(base, ks2).
          and_then (next_keyed_account ks2) (\<lambda>(to, _).
            transfer_with_seed (sl_sha256 L) from base from_seed from_owner to amount s)))
      | AdvanceNonceAccount \<Rightarrow>
          and_then (next_keyed_account ks) (\<lambda>(me, ks1).
          and_then (next_keyed_account ks1) (\<lambda>(rb_account, _).
          and_then (recent_blockhashes_of L s rb_account) (\<lambda>rb.
            advance_nonce_account (sl_nonce L) me rb signers s)))
      | WithdrawNonceAccount amount \<Rightarrow>
          and_then (next_keyed_account ks) (\<lambda>(me, ks1).
          and_then (next_keyed_account ks1) (\<lambda>(to, ks2).
          and_then (next_keyed_account ks2) (\<lambda>(rb_account, ks3).
          and_then (recent_blockhashes_of L s rb_account) (\<lambda>rb.
          and_then (next_keyed_account ks3) (\<lambda>(rent_account, _).
          and_then (from_keyed_account sysvar_rent_id (sl_rent L) s rent_account) (\<lambda>r.
            withdraw_nonce_account (sl_nonce L) me amount to rb r signers s))))))
      | InitializeNonceAccount auth \<Rightarrow>
          and_then (next_keyed_account ks) (\<lambda>(me, ks1).
          and_then (next_keyed_account ks1) (\<lambda>(rb_account, ks2).
          and_then (recent_blockhashes_of L s rb_account) (\<lambda>rb.
          and_then (next_keyed_account ks2) (\<lambda>(rent_account, _).
          and_then (from_keyed_account sysvar_rent_id (sl_rent L) s rent_account) (\<lambda>r.
            initialize_nonce_account (sl_nonce L) me auth rb r s)))))
      | AuthorizeNonceAccount auth \<Rightarrow>
          and_then (next_keyed_account ks) (\<lambda>(me, _).
            authorize_nonce_account (sl_nonce L) me auth signers s)
      | Allocate space \<Rightarrow>
          and_then (next_keyed_account ks) (\<lambda>(k, _).
          and_then (address_create (sl_sha256 L) (key k) None) (\<lambda>addr.
            on_account k (\<lambda>a. allocate a addr space signers) s))
      | AllocateWithSeed base seed space own \<Rightarrow>
          and_then (next_keyed_account ks) (\<lambda>(k, _).
          and_then (address_create (sl_sha256 L) (key k) (Some (base, seed, own))) (\<lambda>addr.
            on_account k (\<lambda>a. allocate_and_assign a addr space own signers) s))
      | AssignWithSeed base seed own \<Rightarrow>
          and_then (next_keyed_account ks) (\<lambda>(k, _).
          and_then (address_create (sl_sha256 L) (key k) (Some (base, seed, own))) (\<lambda>addr.
            on_account k (\<lambda>a. assign a addr own signers) s)))"

definition system_process_instruction ::
  "system_lib \<Rightarrow> keyed_account list \<Rightarrow> bytes \<Rightarrow> store \<Rightarrow> store program_result" where
  "system_process_instruction L ks bs s =
     and_then (limited_deserialize (sl_instruction L) bs) (\<lambda>ix.
       system_dispatch L ks (get_signers ks) ix s)"

section \<open>Kinds of system accounts\<close>

datatype system_account_kind = System | Nonce

definition get_system_account_kind :: "nonce_versions serde \<Rightarrow> account \<Rightarrow> system_account_kind option" where
  "get_system_account_kind C a =
     (if owner a = system_program_id then
        if data a = [] then Some System
        else if length (data a) = nonce_state_size C then
          (case get_state C a of
             Inr (VersionCurrent (Initialized _)) \<Rightarrow> Some Nonce
           | _ \<Rightarrow> None)
        else None
      else None)"

section \<open>Instruction builders\<close>

definition system_create_account ::
  "system_lib \<Rightarrow> pubkey \<Rightarrow> pubkey \<Rightarrow> u64 \<Rightarrow> u64 \<Rightarrow> pubkey \<Rightarrow> instruction" where
  "system_create_account L from to amount space own =
     instruction_new (sl_instruction L) system_program_id (CreateAccount amount space own)
       [account_meta_new from True, account_meta_new to True]"

definition system_create_account_with_seed ::
  "system_lib \<Rightarrow> pubkey \<Rightarrow> pubkey \<Rightarrow> pubkey \<Rightarrow> bytes \<Rightarrow> u64 \<Rightarrow> u64 \<Rightarrow> pubkey \<Rightarrow> instruction" where
  "system_create_account_with_seed L from to base seed amount space own =
     instruction_new (sl_instruction L) system_program_id (CreateAccountWithSeed base seed amount space own)
       [account_meta_new from True, account_meta_new to False, account_meta_new_readonly base True]"

definition system_assign :: "system_lib \<Rightarrow> pubkey \<Rightarrow> pubkey \<Rightarrow> instruction" where
  "system_assign L k own =
     instruction_new (sl_instruction L) system_program_id (Assign own) [account_meta_new k True]"

definition system_assign_with_seed ::
  "system_lib \<Rightarrow> pubkey \<Rightarrow> pubkey \<Rightarrow> bytes \<Rightarrow> pubkey \<Rightarrow> instruction" where
  "system_assign_with_seed L k base seed own =
     instruction_new (sl_instruction L) system_program_id (AssignWithSeed base seed own)
       [account_meta_new k False, account_meta_new_readonly base True]"

definition system_transfer :: "system_lib \<Rightarrow> pubkey \<Rightarrow> pubkey \<Rightarrow> u64 \<Rightarrow> instruction" where
  "system_transfer L from to amount =
     instruction_new (sl_instruction L) system_program_id (Transfer amount)
       [account_meta_new from True, account_meta_new to False]"

definition system_transfer_with_seed ::
  "system_lib \<Rightarrow> pubkey \<Rightarrow> pubkey \<Rightarrow> bytes \<Rightarrow> pubkey \<Rightarrow> pubkey \<Rightarrow> u64 \<Rightarrow> instruction" where
  "system_transfer_with_seed L from base seed own to amount =
     instruction_new (sl_instruction L) system_program_id (TransferWithSeed amount seed own)
       [account_meta_new from False, account_meta_new_readonly base True, account_meta_new to False]"

definition system_allocate :: "system_lib \<Rightarrow> pubkey \<Rightarrow> u64 \<Rightarrow> instruction" where
  "system_allocate L k space =
     instruction_new (sl_instruction L) system_program_id (Allocate space) [account_meta_new k True]"

definition system_allocate_with_seed ::
  "system_lib \<Rightarrow> pubkey \<Rightarrow> pubkey \<Rightarrow> bytes \<Rightarrow> u64 \<Rightarrow> pubkey \<Rightarrow> instruction" where
  "system_allocate_with_seed L k base seed space own =
     instruction_new (sl_instruction L) system_program_id (AllocateWithSeed base seed space own)
       [account_meta_new k False, account_meta_new_readonly base True]"

definition system_transfer_many :: "system_lib \<Rightarrow> pubkey \<Rightarrow> (pubkey \<times> u64) list \<Rightarrow> instruction list" where
  "system_transfer_many L from to_lamports = map (\<lambda>(to, amount). system_transfer L from to amount) to_lamports"

definition initialize_nonce_instruction :: "system_lib \<Rightarrow> pubkey \<Rightarrow> pubkey \<Rightarrow> instruction" where
  "initialize_nonce_instruction L nonce_key auth =
     instruction_new (sl_instruction L) system_program_id (InitializeNonceAccount auth)
       [account_meta_new nonce_key False, account_meta_new_readonly sysvar_recent_blockhashes_id False,
        account_meta_new_readonly sysvar_rent_id False]"

definition system_create_nonce_account ::
  "system_lib \<Rightarrow> pubkey \<Rightarrow> pubkey \<Rightarrow> pubkey \<Rightarrow> u64 \<Rightarrow> instruction list" where
  "system_create_nonce_account L from nonce_key auth amount =
     [system_create_account L from nonce_key amount (of_nat (nonce_state_size (sl_nonce L))) system_program_id,
      initialize_nonce_instruction L nonce_key auth]"

definition system_create_nonce_account_with_seed ::
  "system_lib \<Rightarrow> pubkey \<Rightarrow> pubkey \<Rightarrow> pubkey \<Rightarrow> bytes \<Rightarrow> pubkey \<Rightarrow> u64 \<Rightarrow> instruction list" where
  "system_create_nonce_account_with_seed L from nonce_key base seed auth amount =
     [system_create_account_with_seed L from nonce_key base seed amount
        (of_nat (nonce_state_size (sl_nonce L))) system_program_id,
      initialize_nonce_instruction L nonce_key auth]"

definition system_advance_nonce_account :: "system_lib \<Rightarrow> pubkey \<Rightarrow> pubkey \<Rightarrow> instruction" where
  "system_advance_nonce_account L nonce_key auth =
     instruction_new (sl_instruction L) system_program_id AdvanceNonceAccount
       [account_meta_new nonce_key False, account_meta_new_readonly sysvar_recent_blockhashes_id False,
        account_meta_new_readonly auth True]"

definition system_withdraw_nonce_account ::
  "system_lib \<Rightarrow> pubkey \<Rightarrow> pubkey \<Rightarrow> pubkey \<Rightarrow> u64 \<Rightarrow> instruction" where
  "system_withdraw_nonce_account L nonce_key auth to amount =
     instruction_new (sl_instruction L) system_program_id (WithdrawNonceAccount amount)
       [account_meta_new nonce_key False, account_meta_new to False,
        account_meta_new_readonly sysvar_recent_blockhashes_id False,
        account_meta_new_readonly sysvar_rent_id False, account_meta_new_readonly auth True]"

definition system_authorize_nonce_account ::
  "system_lib \<Rightarrow> pubkey \<Rightarrow> pubkey \<Rightarrow> pubkey \<Rightarrow> instruction" where
  "system_authorize_nonce_account L nonce_key auth new_authority =
     instruction_new (sl_instruction L) system_program_id (AuthorizeNonceAccount new_authority)
       [account_meta_new nonce_key False, account_meta_new_readonly auth True]"

end
