(* ===== verification/SystemSafety.thy ===== *)
theory SystemSafety
  imports SystemProgram
begin

text \<open>
  Properties of the system program: where lamports go and who must have signed, what creating an
  account does, how a nonce account is set up, and the overflow in the withdrawal from a nonce account.
\<close>

section \<open>Payments\<close>

text \<open>The balances after \<open>n\<close> lamports went from \<open>a\<close> to \<open>b\<close>; data and owners may have changed too.\<close>

definition paid :: "keyed_account \<Rightarrow> keyed_account \<Rightarrow> u64 \<Rightarrow> store \<Rightarrow> store \<Rightarrow> bool" where
  "paid a b n s s' \<longleftrightarrow> (\<forall>r. lamports (s' r) = lamports (credit (acct b) n (debit (acct a) n s) r))"

definition untouched :: "keyed_account list \<Rightarrow> store \<Rightarrow> store \<Rightarrow> bool" where
  "untouched ks s s' \<longleftrightarrow> (\<forall>r. r \<notin> acct ` set ks \<longrightarrow> s' r = s r)"

text \<open>The payer agreed: with its own key, with the key it is derived from, or as a nonce account.\<close>

definition payer_agreed :: "system_lib \<Rightarrow> pubkey set \<Rightarrow> keyed_account \<Rightarrow> store \<Rightarrow> bool" where
  "payer_agreed L signers a s \<longleftrightarrow>
     key a \<in> signers \<or>
     (\<exists>base seed own. base \<in> signers \<and> create_with_seed (sl_sha256 L) base seed own = Inr (key a)) \<or>
     (\<exists>d. nonce_of (sl_nonce L) s a = Inr (Initialized d) \<and> nonce_authority d \<in> signers)"

text \<open>A withdrawal from a nonce account whose check against the rent-exempt minimum wraps around.\<close>

definition withdraw_wraps :: "system_lib \<Rightarrow> system_instruction \<Rightarrow> keyed_account list \<Rightarrow> store \<Rightarrow> bool" where
  "withdraw_wraps L ix ks s \<longleftrightarrow>
     (\<exists>n r me rest k. ix = WithdrawNonceAccount n \<and> ks = me # rest \<and> k \<in> set rest \<and>
        from_keyed_account sysvar_rent_id (sl_rent L) s k = Inr r \<and>
        2 ^ 64 \<le> unat n + unat (minimum_balance r (length (data (s (acct me))))))"

definition system_effect ::
  "system_lib \<Rightarrow> keyed_account list \<Rightarrow> pubkey set \<Rightarrow> system_instruction \<Rightarrow> store \<Rightarrow> store \<Rightarrow> bool" where
  "system_effect L ks signers ix s s' \<longleftrightarrow>
     untouched ks s s' \<and>
     (\<exists>a\<in>set ks. \<exists>b\<in>set ks. \<exists>n. paid a b n s s' \<and>
        (n \<noteq> 0 \<longrightarrow> payer_agreed L signers a s) \<and>
        (n \<le> lamports (s (acct a)) \<or> withdraw_wraps L ix ks s))"

lemma paid_zero: "(\<And>r. lamports (s' r) = lamports (s r)) \<Longrightarrow> paid a b 0 s s'"
  by (simp add: paid_def credit_def debit_def)

lemma system_effect_none:
  assumes "k \<in> set ks" and "\<And>r. lamports (s' r) = lamports (s r)" and "\<And>r. r \<noteq> acct k \<Longrightarrow> s' r = s r"
  shows "system_effect L ks signers ix s s'"
  using assms by (auto simp: system_effect_def untouched_def intro!: bexI [of _ k] exI [of _ 0] paid_zero)

lemma system_effect_moved:
  assumes "a \<in> set ks" and "b \<in> set ks" and "payer_agreed L signers a s"
    and "n \<le> lamports (s (acct a)) \<or> withdraw_wraps L ix ks s"
    and "s' = credit (acct b) n (debit (acct a) n s1)"
    and "\<And>r. lamports (s1 r) = lamports (s r)" and "\<And>r. r \<notin> acct ` set ks \<Longrightarrow> s1 r = s r"
  shows "system_effect L ks signers ix s s'"
proof -
  have "paid a b n s s'" using assms(5,6) by (auto simp: paid_def credit_def debit_def)
  moreover have "untouched ks s s'"
    using assms(1,2,5,7) by (auto simp: untouched_def credit_def debit_def)
  ultimately show ?thesis using assms(1-4) by (auto simp: system_effect_def)
qed

section \<open>Each operation\<close>

lemma allocate_keeps: "allocate a addr space signers = Inr a' \<Longrightarrow> lamports a' = lamports a"
  by (auto simp: allocate_def split: if_splits)

lemma assign_keeps: "assign a addr own signers = Inr a' \<Longrightarrow> lamports a' = lamports a"
  by (auto simp: assign_def split: if_splits)

lemma allocate_and_assign_keeps:
  "allocate_and_assign a addr space own signers = Inr a' \<Longrightarrow> lamports a' = lamports a"
  by (auto simp: allocate_and_assign_def and_then_Inr_iff simp: allocate_keeps assign_keeps)

lemma on_account_effect:
  assumes "on_account k f s = Inr s'" and "k \<in> set ks"
    and "\<And>a a'. f a = Inr a' \<Longrightarrow> lamports a' = lamports a"
  shows "system_effect L ks signers ix s s'"
  using assms(1,2) by (intro system_effect_none [of k]) (auto simp: on_account_def and_then_Inr_iff assms(3))

lemma signer_in_signers: "k \<in> set ks \<Longrightarrow> signer_key k \<noteq> None \<Longrightarrow> key k \<in> get_signers ks"
  by (force simp: get_signers_def map_filter_def signer_key_def split: if_splits)

lemma transfer_verified_Inr:
  "transfer_verified p to n s = Inr s' \<longleftrightarrow>
     data (s (acct p)) = [] \<and> n \<le> lamports (s (acct p)) \<and> s' = credit (acct to) n (debit (acct p) n s)"
  by (auto simp: transfer_verified_def not_less)

lemma transfer_effect:
  assumes "transfer p to n s1 = Inr s'" and "p \<in> set ks" and "to \<in> set ks"
    and "\<And>r. lamports (s1 r) = lamports (s r)" and "\<And>r. r \<notin> acct ` set ks \<Longrightarrow> s1 r = s r"
  shows "system_effect L ks (get_signers ks) ix s s'"
proof (cases "n = 0")
  case True
  then have "s' = s1" using assms(1) by (simp add: transfer_def)
  with assms(2-5) show ?thesis
    by (auto simp: system_effect_def untouched_def intro!: bexI [of _ p] exI [of _ 0] paid_zero)
next
  case False
  then have "signer_key p \<noteq> None" and run: "transfer_verified p to n s1 = Inr s'"
    using assms(1) by (auto simp: transfer_def split: if_splits)
  then have "payer_agreed L (get_signers ks) p s"
    using signer_in_signers [OF assms(2)] by (simp add: payer_agreed_def)
  with run assms(2-5) show ?thesis
    by (intro system_effect_moved [of p ks to L _ s n ix s' s1]) (auto simp: transfer_verified_Inr)
qed

lemma create_account_effect:
  assumes "create_account p to addr n space own (get_signers ks) s = Inr s'"
    and "p \<in> set ks" and "to \<in> set ks"
  shows "system_effect L ks (get_signers ks) ix s s'"
proof -
  from assms(1) obtain a where a: "allocate_and_assign (s (acct to)) addr space own (get_signers ks) = Inr a"
    and "transfer p to n (s(acct to := a)) = Inr s'"
    by (auto simp: create_account_def and_then_Inr_iff split: if_splits)
  from this(2) assms(2,3) show ?thesis
    by (rule transfer_effect) (use allocate_and_assign_keeps [OF a] assms(3) in auto)
qed

lemma transfer_with_seed_effect:
  assumes "transfer_with_seed (sl_sha256 L) p base seed own to n s = Inr s'"
    and "p \<in> set ks" and "base \<in> set ks" and "to \<in> set ks"
  shows "system_effect L ks (get_signers ks) ix s s'"
proof (cases "n = 0")
  case True
  with assms show ?thesis by (auto simp: transfer_with_seed_def intro: system_effect_none)
next
  case False
  then have signed: "signer_key base \<noteq> None" and derived: "derive (sl_sha256 L) (key base) seed own = Inr (key p)"
    and run: "transfer_verified p to n s = Inr s'"
    using assms(1) by (auto simp: transfer_with_seed_def and_then_Inr_iff split: if_splits)
  have "create_with_seed (sl_sha256 L) (key base) seed own = Inr (key p)"
    using derived by (auto simp: derive_def split: sum.splits)
  then have "payer_agreed L (get_signers ks) p s"
    using signer_in_signers [OF assms(3) signed] unfolding payer_agreed_def by blast
  with run assms(2,4) show ?thesis
    by (intro system_effect_moved [of p ks to L _ s n ix s' s]) (auto simp: transfer_verified_Inr)
qed

lemma nonce_writes_effect:
  assumes "me \<in> set ks"
  shows "advance_nonce_account C me rb signers s = Inr s' \<Longrightarrow> system_effect L ks signers' ix s s'"
    and "initialize_nonce_account C me auth rb r s = Inr s' \<Longrightarrow> system_effect L ks signers' ix s s'"
    and "authorize_nonce_account C me auth signers s = Inr s' \<Longrightarrow> system_effect L ks signers' ix s s'"
proof -
  have "system_effect L ks signers' ix s s'" if "keyed_set_state C me x s = Inr s'" for x
    using that assms by (intro system_effect_none [of me])
      (simp_all add: keyed_set_state_keeps keyed_set_state_frame)
  then show "advance_nonce_account C me rb signers s = Inr s' \<Longrightarrow> system_effect L ks signers' ix s s'"
    "initialize_nonce_account C me auth rb r s = Inr s' \<Longrightarrow> system_effect L ks signers' ix s s'"
    "authorize_nonce_account C me auth signers s = Inr s' \<Longrightarrow> system_effect L ks signers' ix s s'"
    by (auto simp: advance_nonce_Inr initialize_nonce_account_def authorize_nonce_account_def and_then_def Let_def
      split: list.splits sum.splits nonce_state.splits if_splits)
qed

lemma withdraw_nonce_Inr:
  assumes "withdraw_nonce_account C me n to rb r signers s = Inr s'"
  shows "\<exists>s1. s' = credit (acct to) n (debit (acct me) n s1) \<and>
    (s1 = s \<or> keyed_set_state C me (VersionCurrent Uninitialized) s = Inr s1) \<and>
    (nonce_of C s me = Inr Uninitialized \<and> key me \<in> signers \<and> n \<le> lamports (s (acct me)) \<or>
     (\<exists>d. nonce_of C s me = Inr (Initialized d) \<and> nonce_authority d \<in> signers \<and>
        (n = lamports (s (acct me)) \<or>
         n + minimum_balance r (length (data (s (acct me)))) \<le> lamports (s (acct me)))))"
proof (cases "nonce_of C s me")
  case (Inr st)
  with assms show ?thesis
    by (cases st) (auto simp: withdraw_nonce_account_def and_then_Inr_iff Let_def not_less
      split: list.splits if_splits)
qed (use assms in \<open>simp add: withdraw_nonce_account_def\<close>)

lemma withdraw_nonce_effect:
  assumes "withdraw_nonce_account (sl_nonce L) me n to rb r signers s = Inr s'"
    and "ks = me # rest" and "to \<in> set rest" and "k \<in> set rest"
    and "from_keyed_account sysvar_rent_id (sl_rent L) s k = Inr r"
  shows "system_effect L ks signers (WithdrawNonceAccount n) s s'"
proof -
  let ?min = "minimum_balance r (length (data (s (acct me))))"
  from withdraw_nonce_Inr [OF assms(1)] obtain s1 where
    s': "s' = credit (acct to) n (debit (acct me) n s1)"
    and s1: "s1 = s \<or> keyed_set_state (sl_nonce L) me (VersionCurrent Uninitialized) s = Inr s1"
    and agreed: "payer_agreed L signers me s"
    and n: "n \<le> lamports (s (acct me)) \<or> n + ?min \<le> lamports (s (acct me))"
    by (auto simp: payer_agreed_def)
  have "n \<le> lamports (s (acct me)) \<or> withdraw_wraps L (WithdrawNonceAccount n) ks s"
  proof (cases "unat n + unat ?min < 2 ^ 64")
    case True
    then have "unat (n + ?min) = unat n + unat ?min" by (intro unat_add_exact) simp
    with n show ?thesis by (auto simp: word_le_nat_alt)
  next
    case False
    then show ?thesis using assms(2-5) unfolding withdraw_wraps_def not_less by blast
  qed
  moreover have "\<And>q. lamports (s1 q) = lamports (s q)" "\<And>q. q \<noteq> acct me \<Longrightarrow> s1 q = s q"
    using s1 by (auto simp: keyed_set_state_keeps keyed_set_state_frame)
  ultimately show ?thesis
    using agreed s' assms(2,3)
    by (intro system_effect_moved [of me ks to L signers s n _ s' s1]) auto
qed

lemma system_dispatch_effect:
  assumes "system_dispatch L ks (get_signers ks) ix s = Inr s'"
  shows "system_effect L ks (get_signers ks) ix s s'"
proof (cases ix)
  case (WithdrawNonceAccount n)
  with assms obtain me to j k rest rb r where "ks = me # to # j # k # rest"
    "from_keyed_account sysvar_rent_id (sl_rent L) s k = Inr r"
    "withdraw_nonce_account (sl_nonce L) me n to rb r (get_signers ks) s = Inr s'"
    by (auto simp: system_dispatch_def and_then_Inr_iff)
  then show ?thesis unfolding WithdrawNonceAccount by (intro withdraw_nonce_effect) auto
qed (use assms in \<open>auto simp: system_dispatch_def and_then_Inr_iff
  intro: create_account_effect transfer_effect transfer_with_seed_effect nonce_writes_effect
    on_account_effect allocate_keeps assign_keeps allocate_and_assign_keeps\<close>)

section \<open>Conservation of lamports\<close>

definition system_run :: "system_lib \<Rightarrow> keyed_account list \<times> bytes \<Rightarrow> store \<Rightarrow> store program_result" where
  "system_run L = (\<lambda>(ks, bs). system_process_instruction L ks bs)"

lemma system_run_effect:
  assumes "system_run L (ks, bs) s = Inr s'"
  shows "\<exists>ix. limited_deserialize (sl_instruction L) bs = Inr ix \<and> system_effect L ks (get_signers ks) ix s s'"
  using assms system_dispatch_effect
  by (fastforce simp: system_run_def system_process_instruction_def and_then_Inr_iff)

lemma paid_wrapped:
  assumes "paid a b n s s'" and "finite R" and "acct a \<in> R" and "acct b \<in> R"
  shows "wrapped_total R s' = wrapped_total R s"
proof -
  have "wrapped_total R s' = wrapped_total R (credit (acct b) n (debit (acct a) n s))"
    using assms(1) by (simp add: wrapped_total_def paid_def)
  also have "\<dots> = wrapped_total R s" using assms(2-4) by (simp add: lamport_simps)
  finally show ?thesis .
qed

lemma paid_total:
  assumes "paid a b n s s'" and "n \<le> lamports (s (acct a))" and "finite R" and "acct a \<in> R" and "acct b \<in> R"
    and "total_lamports R s < 2 ^ 64"
  shows "total_lamports R s' = total_lamports R s"
proof -
  have "total_lamports R s' = total_lamports R (credit (acct b) n (debit (acct a) n s))"
    using assms(1) by (simp add: total_lamports_def paid_def)
  also have "\<dots> = total_lamports R s" using assms(2-6) by (simp add: total_lamports_move)
  finally show ?thesis .
qed

interpretation system: lamport_program "system_run L" passed_accounts for L
proof
  fix i s s' r R
  assume run: "system_run L i s = Inr s'"
  obtain ks bs where i: "i = (ks, bs)" by fastforce
  from system_run_effect [OF run [unfolded i]] obtain a b n where
    eff: "untouched ks s s'" "paid a b n s s'" "a \<in> set ks" "b \<in> set ks"
    by (auto simp: system_effect_def)
  show "s' r = s r" if "r \<notin> passed_accounts i"
    using that eff(1) by (simp add: i passed_accounts_def untouched_def)
  show "wrapped_total R s' = wrapped_total R s" if "finite R" "passed_accounts i \<subseteq> R"
    using that eff(3,4) by (intro paid_wrapped [OF eff(2)]) (auto simp: i passed_accounts_def)
qed


text \<open>
  (C13) Nobody pays without agreeing: when a system instruction lowers a balance, the account that
  pays is passed to it and has signed, or the base it is derived from has signed, or it is a nonce
  account whose authority has signed. The one exception is a withdrawal from a nonce account whose
  amount makes the rent check wrap around.
\<close>

theorem system_payer_agreed:
  assumes "system_process_instruction L ks bs s = Inr s'"
    and "limited_deserialize (sl_instruction L) bs = Inr ix"
    and "\<not> withdraw_wraps L ix ks s" and "lamports (s' r) < lamports (s r)"
    and "total_lamports (acct ` set ks) s < 2 ^ 64"
  shows "\<exists>a\<in>set ks. acct a = r \<and> payer_agreed L (get_signers ks) a s"
proof -
  from system_run_effect [of L ks bs s s'] assms(1-3) obtain a b n where
    eff: "paid a b n s s'" "a \<in> set ks" "b \<in> set ks" "n \<noteq> 0 \<longrightarrow> payer_agreed L (get_signers ks) a s"
      "n \<le> lamports (s (acct a))"
    by (auto simp: system_run_def system_effect_def)
  have "acct a = r \<and> n \<noteq> 0"
  proof (rule ccontr)
    assume not: "\<not> (acct a = r \<and> n \<noteq> 0)"
    have "lamports (s' r) = lamports (credit (acct b) n (debit (acct a) n s) r)"
      using eff(1) by (simp add: paid_def)
    with not assms(4) have b: "acct b = r" "acct a \<noteq> r" "lamports (s' r) = lamports (s r) + n"
      by (auto simp: credit_def debit_def split: if_splits)
    have "unat (lamports (s r)) + unat (lamports (s (acct a))) = total_lamports {r, acct a} s"
      using b(2) by (simp add: total_lamports_def)
    also have "\<dots> \<le> total_lamports (acct ` set ks) s"
      unfolding total_lamports_def using eff(2,3) b(1) by (intro sum_mono2) auto
    finally have "unat (lamports (s r)) + unat n < 2 ^ 64"
      using eff(5) assms(5) by (simp add: word_le_nat_alt)
    then have "unat (lamports (s r) + n) = unat (lamports (s r)) + unat n" by (intro unat_add_exact) simp
    with b(3) assms(4) show False by (simp add: word_less_nat_alt)
  qed
  with eff(2,4) show ?thesis by blast
qed

section \<open>Creating an account\<close>

lemma allocate_and_assign_Inr:
  "allocate_and_assign a addr space own signers = Inr a' \<longleftrightarrow>
     address_is_signer addr signers \<and> data a = [] \<and> owner a = system_program_id \<and>
     space \<le> MAX_PERMITTED_DATA_LENGTH \<and> own \<noteq> sysvar_id \<and>
     a' = a\<lparr>data := replicate (unat space) 0, owner := own\<rparr>"
proof -
  have "a\<lparr>data := xs, owner := system_program_id\<rparr> = a\<lparr>data := xs\<rparr>" if "owner a = system_program_id" for xs
    using that by (cases a) simp
  moreover have "system_program_id \<noteq> sysvar_id" by (simp add: system_program_id_def sysvar_id_def)
  ultimately show ?thesis
    by (auto simp: allocate_and_assign_def allocate_def assign_def not_less and_then_def split: if_splits)
qed

lemma create_account_changes:
  assumes "acct p \<noteq> acct to" and "create_account p to addr n space own signers s = Inr s'"
  shows "lamports (s' (acct to)) = n" "data (s' (acct to)) = replicate (unat space) 0" "owner (s' (acct to)) = own"
proof -
  from assms(2) have "lamports (s (acct to)) = 0"
    by (auto simp: create_account_def word_gt_0 split: if_splits)
  with assms show "lamports (s' (acct to)) = n" "data (s' (acct to)) = replicate (unat space) 0"
    "owner (s' (acct to)) = own"
    by (auto simp: create_account_def and_then_Inr_iff allocate_and_assign_Inr transfer_def
      transfer_verified_Inr credit_def debit_def split: if_splits)
qed

text \<open>
  (C28) Creating an account succeeds exactly when the new address is unused (no lamports, no data,
  owned by the system program) and has agreed, the size is at most 10 MB, the owner is not the owner
  of the sysvars, and the funding account, without data of its own, has signed and holds the amount.
  Afterwards the new account holds the amount and the zeroed data under its owner, the funding
  account has paid for it, and nothing else has changed.
\<close>

theorem create_account_iff:
  assumes "acct p \<noteq> acct to"
  shows "create_account p to addr n space own signers s = Inr s' \<longleftrightarrow>
    lamports (s (acct to)) = 0 \<and> data (s (acct to)) = [] \<and> owner (s (acct to)) = system_program_id \<and>
    address_is_signer addr signers \<and> space \<le> MAX_PERMITTED_DATA_LENGTH \<and> own \<noteq> sysvar_id \<and>
    (n = 0 \<or> is_signer p \<and> data (s (acct p)) = [] \<and> n \<le> lamports (s (acct p))) \<and>
    s' = s(acct p := (s (acct p))\<lparr>lamports := lamports (s (acct p)) - n\<rparr>,
           acct to := (s (acct to))\<lparr>lamports := n, data := replicate (unat space) 0, owner := own\<rparr>)"
proof (cases "lamports (s (acct to)) = 0")
  case True
  let ?a = "(s (acct to))\<lparr>data := replicate (unat space) 0, owner := own\<rparr>"
  let ?s = "s(acct p := (s (acct p))\<lparr>lamports := lamports (s (acct p)) - n\<rparr>,
    acct to := (s (acct to))\<lparr>lamports := n, data := replicate (unat space) 0, owner := own\<rparr>)"
  have "credit (acct to) n (debit (acct p) n (s(acct to := ?a))) = ?s"
    using assms True by (auto simp: credit_def debit_def)
  moreover have "s(acct to := ?a) = ?s" if "n = 0"
    using that True by (cases "s (acct to)") simp
  ultimately have "transfer p to n (s(acct to := ?a)) = Inr s' \<longleftrightarrow>
    (n = 0 \<or> is_signer p \<and> data (s (acct p)) = [] \<and> n \<le> lamports (s (acct p))) \<and> s' = ?s"
    using assms by (cases "n = 0") (auto simp: transfer_def transfer_verified_Inr signer_key_def)
  then show ?thesis using True by (auto simp: create_account_def and_then_Inr_iff allocate_and_assign_Inr)
qed (simp add: create_account_def word_gt_0)

section \<open>Setting up a nonce account\<close>

text \<open>
  A nonce account can be set up: when the account of the first of the two instructions was
  created with the size of a nonce state for the system program and holds the rent-exempt minimum,
  initialising it succeeds without any signature, stores the newest blockhash under the given
  authority, and makes it a nonce account for fee payment. The hypotheses on the encoding are
  those of bincode: zeroed data decodes as the first variant, and the size does not depend on the
  field values.
\<close>

theorem nonce_account_set_up:
  assumes "serde_ok C" and "de C (replicate (nonce_state_size C) 0) = Some (VersionCurrent Uninitialized, rest)"
    and "\<And>d. length (ser C (VersionCurrent (Initialized d))) = nonce_state_size C"
    and "0 < nonce_state_size C" and "nonce_state_size C < 2 ^ 64" and "acct p \<noteq> acct me"
    and "create_account p me addr n (of_nat (nonce_state_size C)) system_program_id signers s = Inr s1"
    and "minimum_balance r (nonce_state_size C) \<le> n"
  shows "\<exists>s'. initialize_nonce_account C me auth (newest # older) r s1 = Inr s' \<and>
    nonce_of C s' me = Inr (Initialized \<lparr>nonce_authority = auth, nonce_blockhash = entry_blockhash newest,
      nonce_fee_calculator = entry_fee_calculator newest\<rparr>) \<and>
    get_system_account_kind C (s' (acct me)) = Some Nonce \<and> lamports (s' (acct me)) = n"
proof -
  let ?d = "\<lparr>nonce_authority = auth, nonce_blockhash = entry_blockhash newest,
    nonce_fee_calculator = entry_fee_calculator newest\<rparr>"
  have "unat (of_nat (nonce_state_size C) :: u64) = nonce_state_size C"
    using assms(5) by (simp add: unat_of_nat)
  with assms(7) have s1: "lamports (s1 (acct me)) = n" "data (s1 (acct me)) = replicate (nonce_state_size C) 0"
    "owner (s1 (acct me)) = system_program_id"
    using create_account_changes [OF assms(6,7)] by simp_all
  then have "nonce_of C s1 me = Inr Uninitialized"
    using assms(2) by (simp add: nonce_of_Inr keyed_state_def get_state_def deserialize_data_def)
  moreover obtain a where a: "set_state C (VersionCurrent (Initialized ?d)) (s1 (acct me)) = Inr a"
    using set_state_iff [of C "VersionCurrent (Initialized ?d)" "s1 (acct me)"] assms(3) s1(2) by auto
  ultimately have run: "initialize_nonce_account C me auth (newest # older) r s1 = Inr (s1(acct me := a))"
    using assms(8) s1 by (simp add: initialize_nonce_account_def keyed_set_state_def not_less)
  have "keyed_set_state C me (VersionCurrent (Initialized ?d)) s1 = Inr (s1(acct me := a))"
    using a by (simp add: keyed_set_state_def)
  from nonce_of_set [OF assms(1) this] set_state_keeps [OF a] s1 assms(4) run show ?thesis
    by (auto simp: get_system_account_kind_def nonce_of_Inr keyed_state_def)
qed

section \<open>The overflow in nonce withdrawals\<close>

text \<open>An amount just below zero passes a check against the balance that adds the reserve to it.\<close>

lemma negative_amount_passes:
  fixes x reserve balance :: u64
  assumes "0 < x" and "x \<le> reserve" and "reserve \<le> balance" and "unat balance + unat x < 2 ^ 64"
  shows "- x \<noteq> balance" and "- x + reserve \<le> balance"
proof -
  show "- x \<noteq> balance"
  proof
    assume eq: "- x = balance"
    have "unat (balance + x) = unat balance + unat x" using assms(4) by (intro unat_add_exact) simp
    moreover have "balance + x = 0" by (simp flip: eq)
    ultimately show False using assms(1) by (simp add: word_gt_0 unat_eq_iff)
  qed
  have "unat (reserve - x) \<le> unat reserve" using assms(2) by (simp add: unat_sub_exact)
  then have "reserve - x \<le> reserve" by (simp add: word_le_nat_alt)
  with assms(3) show "- x + reserve \<le> balance" by (simp add: algebra_simps)
qed

text \<open>
  (C29) The rent check of a withdrawal from a nonce account adds the amount to the minimum balance
  without an overflow check. The authority of a nonce account can therefore withdraw 2^64 - x
  lamports for every x up to the minimum balance: the instruction succeeds, and instead of paying the
  recipient it takes x lamports from it, although the recipient has not signed.
\<close>

theorem withdraw_nonce_takes_from_recipient:
  assumes "nonce_of C s me = Inr (Initialized d)" and "nonce_authority d \<in> signers"
    and "acct to \<noteq> acct me" and "0 < x"
    and "x \<le> minimum_balance r (length (data (s (acct me))))"
    and "minimum_balance r (length (data (s (acct me)))) \<le> lamports (s (acct me))"
    and "unat (lamports (s (acct me))) + unat x < 2 ^ 64"
  shows "\<exists>s'. withdraw_nonce_account C me (- x) to rb r signers s = Inr s' \<and>
    lamports (s' (acct to)) = lamports (s (acct to)) - x \<and>
    lamports (s' (acct me)) = lamports (s (acct me)) + x"
  using negative_amount_passes [OF assms(4-7)] assms(1-3)
  by (auto simp: withdraw_nonce_account_def Let_def not_less credit_def debit_def)

section \<open>A concrete instance\<close>

text \<open>An encoding of the instructions: a tag, the numbers, the keys and the seed.\<close>

fun system_instruction_repr :: "system_instruction \<Rightarrow> u8 \<times> u64 list \<times> pubkey list \<times> bytes" where
  "system_instruction_repr (CreateAccount n sp own) = (0, [n, sp], [own], [])"
| "system_instruction_repr (Assign own) = (1, [], [own], [])"
| "system_instruction_repr (Transfer n) = (2, [n], [], [])"
| "system_instruction_repr (CreateAccountWithSeed base seed n sp own) = (3, [n, sp], [base, own], seed)"
| "system_instruction_repr AdvanceNonceAccount = (4, [], [], [])"
| "system_instruction_repr (WithdrawNonceAccount n) = (5, [n], [], [])"
| "system_instruction_repr (InitializeNonceAccount a) = (6, [], [a], [])"
| "system_instruction_repr (AuthorizeNonceAccount a) = (7, [], [a], [])"
| "system_instruction_repr (Allocate sp) = (8, [sp], [], [])"
| "system_instruction_repr (AllocateWithSeed base seed sp own) = (9, [sp], [base, own], seed)"
| "system_instruction_repr (AssignWithSeed base seed own) = (10, [], [base, own], seed)"
| "system_instruction_repr (TransferWithSeed n seed own) = (11, [n], [own], seed)"

definition system_instruction_of :: "u8 \<times> u64 list \<times> pubkey list \<times> bytes \<Rightarrow> system_instruction" where
  "system_instruction_of = (\<lambda>(t, ns, ks, seed).
     if t = 0 then CreateAccount (ns ! 0) (ns ! 1) (ks ! 0)
     else if t = 1 then Assign (ks ! 0)
     else if t = 2 then Transfer (ns ! 0)
     else if t = 3 then CreateAccountWithSeed (ks ! 0) seed (ns ! 0) (ns ! 1) (ks ! 1)
     else if t = 4 then AdvanceNonceAccount
     else if t = 5 then WithdrawNonceAccount (ns ! 0)
     else if t = 6 then InitializeNonceAccount (ks ! 0)
     else if t = 7 then AuthorizeNonceAccount (ks ! 0)
     else if t = 8 then Allocate (ns ! 0)
     else if t = 9 then AllocateWithSeed (ks ! 0) seed (ns ! 0) (ks ! 1)
     else if t = 10 then AssignWithSeed (ks ! 0) seed (ks ! 1)
     else TransferWithSeed (ns ! 0) seed (ks ! 0))"

definition system_instruction_serde :: "system_instruction serde" where
  "system_instruction_serde =
     \<lparr>ser = enc_via system_instruction_repr
        (enc_pair enc_u8 (enc_pair (enc_list enc_u64) (enc_pair (enc_list enc_key) (enc_list enc_u8)))),
      de = dec_via system_instruction_of
        (dec_pair dec_u8 (dec_pair (dec_list dec_u64) (dec_pair (dec_list dec_key) (dec_list dec_u8))))\<rparr>"

lemma system_instruction_of_repr: "system_instruction_of (system_instruction_repr ix) = ix"
  by (cases ix) (simp_all add: system_instruction_of_def)

interpretation system_instruction: codec "ser system_instruction_serde" "de system_instruction_serde"
  unfolding system_instruction_serde_def serde.simps
  by (intro codec_via codec_rules system_instruction_of_repr)

definition demo_system :: system_lib where
  "demo_system =
     \<lparr>sl_instruction = system_instruction_serde, sl_nonce = nonce_serde,
      sl_recent_blockhashes = \<lparr>ser = (\<lambda>_. []), de = (\<lambda>bs. Some ([], bs))\<rparr>,
      sl_rent = \<lparr>ser = (\<lambda>_. []), de = (\<lambda>bs. Some (default_rent, bs))\<rparr>,
      sl_sha256 = (\<lambda>bs. of_nat (length bs))\<rparr>"

text \<open>Account 1 funds; account 2 is new.\<close>

definition bank_store :: store where
  "bank_store r = default_account\<lparr>lamports := if r = 1 then 5000000 else 0\<rparr>"

definition funder :: keyed_account where
  "funder = \<lparr>is_signer = True, is_writable = True, key = 71, acct = 1\<rparr>"

definition newcomer :: keyed_account where
  "newcomer = \<lparr>is_signer = True, is_writable = True, key = 72, acct = 2\<rparr>"

abbreviation "pay \<equiv> ser system_instruction_serde (Transfer 40)"

definition bank_paid :: store where
  "bank_paid = credit 2 40 (debit 1 40 bank_store)"

lemma pay_instruction: "limited_deserialize system_instruction_serde pay = Inr (Transfer 40)"
  by (rule limited_deserialize_ser [OF system_instruction.codec_axioms])
    (simp add: system_instruction_serde_def enc_via_def enc_pair_def PACKET_DATA_SIZE_def)

lemma pay_runs: "system_process_instruction demo_system [funder, newcomer] pay bank_store = Inr bank_paid"
  by (simp add: system_process_instruction_def demo_system_def pay_instruction system_dispatch_def
    next_keyed_account_def transfer_def transfer_verified_def signer_key_def funder_def newcomer_def
    bank_store_def bank_paid_def default_account_def)


theorem system_payer_agreed_witness:
  "\<exists>a\<in>{funder, newcomer}. acct a = 1 \<and> payer_agreed demo_system (get_signers [funder, newcomer]) a bank_store"
  using system_payer_agreed [OF pay_runs, of "Transfer 40" 1] pay_instruction
  by (auto simp: demo_system_def withdraw_wraps_def bank_paid_def bank_store_def credit_def debit_def
    default_account_def total_lamports_def funder_def newcomer_def)

abbreviation "newcomer_address \<equiv> \<lparr>address_key = 72, address_base = None\<rparr>"

theorem create_account_iff_witness:
  "\<exists>s'. create_account funder newcomer newcomer_address 2000000 73 vote_program_id {71, 72} bank_store = Inr s' \<and>
     s' 2 = \<lparr>lamports = 2000000, data = replicate 73 0, owner = vote_program_id, executable = False, rent_epoch = 0\<rparr> \<and>
     lamports (s' 1) = 3000000"
  using create_account_iff [of funder newcomer newcomer_address 2000000 73 vote_program_id "{71, 72}" bank_store]
  by (simp add: funder_def newcomer_def bank_store_def default_account_def address_is_signer_def
    MAX_PERMITTED_DATA_LENGTH_def sysvar_id_def system_program_id_def vote_program_id_def)

definition bank_created :: store where
  "bank_created = credit 2 2000000 (debit 1 2000000
     (bank_store(2 := (bank_store 2)\<lparr>data := replicate 73 0, owner := system_program_id\<rparr>)))"

lemma newcomer_created:
  "create_account funder newcomer newcomer_address 2000000 73 system_program_id {71, 72} bank_store = Inr bank_created"
  by (simp add: create_account_def allocate_and_assign_def allocate_def assign_def transfer_def transfer_verified_def
    funder_def newcomer_def bank_store_def default_account_def address_is_signer_def signer_key_def
    MAX_PERMITTED_DATA_LENGTH_def system_program_id_def bank_created_def)

lemma nonce_size [simp]: "nonce_state_size nonce_serde = 73"
  by (simp add: nonce_state_size_def)

lemma minimum_balance_nonce: "minimum_balance default_rent 73 = 1398960"
proof -
  have "unat ((ACCOUNT_STORAGE_OVERHEAD + of_nat 73) * DEFAULT_LAMPORTS_PER_BYTE_YEAR) = 699480"
    by (simp add: ACCOUNT_STORAGE_OVERHEAD_def DEFAULT_LAMPORTS_PER_BYTE_YEAR_value)
  from f64_exact_product [of 699480 2, OF _ this] show ?thesis
    by (simp add: minimum_balance_def default_rent_def DEFAULT_EXEMPTION_THRESHOLD_def)
qed

abbreviation "demo_entry \<equiv> \<lparr>entry_blockhash = 61, entry_fee_calculator = \<lparr>fc_lamports_per_signature = 2\<rparr>\<rparr>"

theorem nonce_account_set_up_witness:
  "\<exists>s'. initialize_nonce_account nonce_serde newcomer 5 [demo_entry] default_rent bank_created = Inr s' \<and>
     get_system_account_kind nonce_serde (s' 2) = Some Nonce"
proof -
  have "de nonce_serde (replicate 73 0) = Some (VersionCurrent Uninitialized, replicate 72 0)"
    by (simp add: nonce_serde_def dec_via_def nonce_from_def numeral_eq_Suc)
  with nonce_account_set_up [OF nonce_serde_ok, of "replicate 72 0" funder newcomer newcomer_address 2000000 "{71, 72}"
      bank_store bank_created default_rent 5 demo_entry "[]"] newcomer_created
  show ?thesis by (auto simp: minimum_balance_nonce funder_def newcomer_def)
qed

theorem withdraw_nonce_takes_from_recipient_witness:
  "\<exists>s'. withdraw_nonce_account nonce_serde demo_nonce_key (- 1000) newcomer [] default_rent {5}
       (demo_nonce_store 2000000) = Inr s' \<and> lamports (s' 2) = 0 \<and> lamports (s' 0) = 2001000"
proof -
  have "length (data (demo_nonce_store 2000000 (acct demo_nonce_key))) = 73"
    by (simp add: demo_nonce_store_def demo_nonce_key_def)
  with withdraw_nonce_takes_from_recipient [OF demo_nonce_of, of "{5}" newcomer 1000 default_rent 2000000 "[]"]
  show ?thesis
    by (simp add: minimum_balance_nonce demo_nonce_def demo_nonce_store_def demo_nonce_key_def newcomer_def
      default_account_def)
qed

end
