(* ===== verification/PreAccount.thy ===== *)
theory PreAccount
  imports Accounts Rent
begin

text \<open>
  What the runtime checks of an account after a program ran (\<open>PreAccount\<close> of
  \<open>runtime/src/message_processor.rs\<close>), and the compute meter of an invocation.
\<close>

section \<open>Data\<close>

record pre_account =
  pa_key :: pubkey
  pa_is_signer :: bool
  pa_is_writable :: bool
  pa_account :: account

definition pre_account_new :: "pubkey \<Rightarrow> account \<Rightarrow> bool \<Rightarrow> bool \<Rightarrow> pre_account" where
  "pre_account_new k a signer writable =
     \<lparr>pa_key = k, pa_is_signer = signer, pa_is_writable = writable, pa_account = a\<rparr>"

text \<open>The buffer is compared with zeros in chunks of 1024 bytes, then the remainder.\<close>

definition ZEROS_LEN :: nat where
  "ZEROS_LEN = 1024"

function is_zeroed :: "bytes \<Rightarrow> bool" where
  "is_zeroed buf =
     (if length buf < ZEROS_LEN then buf = replicate (length buf) 0
      else take ZEROS_LEN buf = replicate ZEROS_LEN 0 \<and> is_zeroed (drop ZEROS_LEN buf))"
  by pat_completeness auto
termination
  by (relation "measure length") (auto simp: ZEROS_LEN_def)

declare is_zeroed.simps [simp del]

section \<open>Verification of a changed account\<close>

definition pre_account_verify :: "pubkey \<Rightarrow> rent \<Rightarrow> account \<Rightarrow> pre_account \<Rightarrow> unit program_result" where
  "pre_account_verify pid r post p =
     (let pre = pa_account p
      in if owner pre \<noteq> owner post \<and>
            (\<not> pa_is_writable p \<or> executable pre \<or> pid \<noteq> owner pre \<or> \<not> is_zeroed (data post))
         then Inl (Err ModifiedProgramId)
         else if pid \<noteq> owner pre \<and> lamports post < lamports pre
         then Inl (Err ExternalAccountLamportSpend)
         else if lamports pre \<noteq> lamports post \<and> \<not> pa_is_writable p
         then Inl (Err ReadonlyLamportChange)
         else if lamports pre \<noteq> lamports post \<and> executable pre
         then Inl (Err ExecutableLamportChange)
         else if length (data pre) \<noteq> length (data post) \<and>
            (pid \<noteq> system_program_id \<or> owner pre \<noteq> system_program_id)
         then Inl (Err AccountDataSizeChanged)
         else if \<not> (pid = owner pre \<and> pa_is_writable p \<and> \<not> executable pre) \<and> data pre \<noteq> data post
         then
           if executable pre then Inl (Err ExecutableDataModified)
           else if pa_is_writable p then Inl (Err ExternalAccountDataModified)
           else Inl (Err ReadonlyDataModified)
         else if executable pre \<noteq> executable post \<and> \<not> is_exempt r (lamports post) (length (data post))
         then Inl (Err ExecutableAccountNotRentExempt)
         else if executable pre \<noteq> executable post \<and>
            (\<not> pa_is_writable p \<or> executable pre \<or> pid \<noteq> owner pre)
         then Inl (Err ExecutableModified)
         else if rent_epoch pre \<noteq> rent_epoch post then Inl (Err RentEpochModified)
         else Inr ())"

text \<open>Of the stored account, the lamports, the owner and the data follow the new one.\<close>

definition pre_account_update :: "account \<Rightarrow> pre_account \<Rightarrow> pre_account" where
  "pre_account_update a p =
     p\<lparr>pa_account := (pa_account p)\<lparr>lamports := lamports a, owner := owner a, data := data a\<rparr>\<rparr>"

section \<open>The compute meter\<close>

definition meter_consume :: "u64 \<Rightarrow> u64 \<Rightarrow> unit program_result \<times> u64" where
  "meter_consume amount remaining =
     ((if remaining < amount then Inl (Err ComputationalBudgetExceeded) else Inr ()),
      saturating_sub remaining amount)"

section \<open>Properties\<close>

lemma is_zeroed_iff_all: "is_zeroed buf \<longleftrightarrow> (\<forall>b\<in>set buf. b = 0)"
proof (induction buf rule: is_zeroed.induct)
  case (1 buf)
  have zeros: "xs = replicate (length xs) 0 \<longleftrightarrow> (\<forall>b\<in>set xs. b = 0)" for xs :: bytes
    by (metis in_set_replicate replicate_length_same)
  show ?case
  proof (cases "length buf < ZEROS_LEN")
    case True
    then show ?thesis by (simp add: is_zeroed.simps [of buf] zeros)
  next
    case False
    then have "length (take ZEROS_LEN buf) = ZEROS_LEN" by simp
    then have "take ZEROS_LEN buf = replicate ZEROS_LEN 0 \<longleftrightarrow> (\<forall>b\<in>set (take ZEROS_LEN buf). b = 0)"
      using zeros [of "take ZEROS_LEN buf"] by simp
    moreover have "set buf = set (take ZEROS_LEN buf) \<union> set (drop ZEROS_LEN buf)"
      by (metis append_take_drop_id set_append)
    ultimately show ?thesis using "1.IH" [OF False] False by (simp add: is_zeroed.simps [of buf] ball_Un)
  qed
qed

text \<open>
  \<open>is_zeroed\<close>, which compares the buffer with zeros chunk by chunk, terminates and holds exactly
  when every byte of the buffer is zero, whatever its length.
\<close>

theorem is_zeroed_iff: "is_zeroed buf \<longleftrightarrow> list_all (\<lambda>b. b = 0) buf"
  by (simp add: is_zeroed_iff_all list_all_iff)

text \<open>The rules an account must obey when program \<open>pid\<close> has run.\<close>

definition obeys :: "pubkey \<Rightarrow> rent \<Rightarrow> bool \<Rightarrow> account \<Rightarrow> account \<Rightarrow> bool" where
  "obeys pid r writable pre post \<longleftrightarrow>
     (owner post \<noteq> owner pre \<longrightarrow> writable \<and> \<not> executable pre \<and> pid = owner pre \<and> (\<forall>b\<in>set (data post). b = 0)) \<and>
     (lamports post < lamports pre \<longrightarrow> pid = owner pre) \<and>
     (lamports post \<noteq> lamports pre \<longrightarrow> writable \<and> \<not> executable pre) \<and>
     (length (data post) \<noteq> length (data pre) \<longrightarrow> pid = system_program_id \<and> owner pre = system_program_id) \<and>
     (data post \<noteq> data pre \<longrightarrow> pid = owner pre \<and> writable \<and> \<not> executable pre) \<and>
     (executable post \<noteq> executable pre \<longrightarrow>
        is_exempt r (lamports post) (length (data post)) \<and> writable \<and> \<not> executable pre \<and> pid = owner pre) \<and>
     rent_epoch post = rent_epoch pre"

lemma if_Inl_Inr: "(if b then Inl e else m) = Inr x \<longleftrightarrow> \<not> b \<and> m = Inr x"
  by simp

lemma pre_account_verify_obeys:
  "pre_account_verify pid r post p = Inr () \<longleftrightarrow> obeys pid r (pa_is_writable p) (pa_account p) post"
  unfolding pre_account_verify_def obeys_def Let_def is_zeroed_iff_all
    eq_commute [of "owner post"] eq_commute [of "lamports post" "lamports (pa_account p)"]
    eq_commute [of "data post"] eq_commute [of "executable post"] eq_commute [of "rent_epoch post"]
    eq_commute [of "length (data post)"]
  by (simp only: if_Inl_Inr if_split [of "\<lambda>m. m = Inr ()"] sum.distinct simp_thms) blast

text \<open>
  (C32) The check after a program ran accepts an account exactly when: the owner changed only if the
  program owned it, it is writable and not executable, and its data is all zero; only the owner's
  program lowered the balance; a balance changed only on a writable, non-executable account; the data
  changed only under the same conditions as the owner's program, and its length only by the system
  program on its own account; executable was only ever set, by the owner's program, on a writable
  rent-exempt account; and the rent epoch did not change.
\<close>

theorem pre_account_verify_iff:
  "pre_account_verify pid r post p = Inr () \<longleftrightarrow> obeys pid r (pa_is_writable p) (pa_account p) post"
  by (rule pre_account_verify_obeys)

theorem pre_account_verify_iff_witness:
  "pre_account_verify 7 default_rent (default_account\<lparr>lamports := 3, owner := 7\<rparr>)
     \<lparr>pa_key = 1, pa_is_signer = False, pa_is_writable = True,
      pa_account = default_account\<lparr>lamports := 5, owner := 7\<rparr>\<rparr> = Inr () \<and>
   pre_account_verify 8 default_rent (default_account\<lparr>lamports := 3, owner := 7\<rparr>)
     \<lparr>pa_key = 1, pa_is_signer = False, pa_is_writable = True,
      pa_account = default_account\<lparr>lamports := 5, owner := 7\<rparr>\<rparr> \<noteq> Inr ()"
  unfolding pre_account_verify_iff by (simp add: obeys_def default_account_def)

lemma obeys_readonly:
  "obeys pid r False pre post \<Longrightarrow> post = pre"
  by (cases pre, cases post) (auto simp: obeys_def)

text \<open>The amounts consumed in a row: the meter, and whether any of the calls failed.\<close>

fun meter_consumes :: "u64 list \<Rightarrow> u64 \<Rightarrow> unit program_result \<times> u64" where
  "meter_consumes [] remaining = (Inr (), remaining)"
| "meter_consumes (n # ns) remaining =
     (case meter_consume n remaining of
        (Inl e, remaining') \<Rightarrow> (Inl e, remaining')
      | (Inr _, remaining') \<Rightarrow> meter_consumes ns remaining')"

text \<open>
  A program can consume exactly its compute budget: a sequence of charges goes through as long
  as their sum stays within the budget, leaves what is left of it, and otherwise fails with the
  meter at zero.
\<close>

theorem meter_consumes_budget:
  "meter_consumes ns budget =
     (if sum_list (map unat ns) \<le> unat budget
      then (Inr (), of_nat (unat budget - sum_list (map unat ns)))
      else (Inl (Err ComputationalBudgetExceeded), 0))"
proof (induction ns arbitrary: budget)
  case (Cons n ns)
  show ?case
  proof (cases "budget < n")
    case True
    then have "\<not> unat n + sum_list (map unat ns) \<le> unat budget" by (simp add: word_less_nat_alt)
    with True show ?thesis
      by (simp add: meter_consume_def saturating_sub_def flip: not_le)
  next
    case False
    then have le: "n \<le> budget" by simp
    then have "unat (budget - n) = unat budget - unat n" "unat n \<le> unat budget"
      by (simp_all add: unat_sub_exact word_le_nat_alt)
    with False le Cons.IH [of "budget - n"] show ?thesis
      by (simp add: meter_consume_def saturating_sub_def le_diff_conv2 add.commute)
  qed
qed simp

end
