(* ===== verification/MessageProcessor.thy ===== *)
theory MessageProcessor
  imports PreAccount Message InstructionsSysvar PubkeyDerive
begin

text \<open>
  The execution of a message (\<open>runtime/src/message_processor.rs\<close>): the stack of invoked programs, the
  choice of the program, the accounts it gets, cross-program invocation, and the verification of
  what it did. A program is a function on the machine state, which holds the store, the next free
  reference (a cloned \<open>RefCell\<close> is a fresh one) and the invocation context; a failed call ends the
  transaction. Loggers, executors and recorders are left out, as they do not affect the accounts.
\<close>

section \<open>State\<close>

record invoke_context =
  ic_program_ids :: "pubkey list"
  ic_rent :: rent
  ic_pre_accounts :: "pre_account list"
  ic_account_deps :: "(pubkey \<times> nat) list"
  ic_max_invoke_depth :: nat
  ic_remaining :: u64

record machine =
  m_store :: store
  m_next :: nat
  m_ctx :: invoke_context

type_synonym process_instruction =
  "pubkey \<Rightarrow> keyed_account list \<Rightarrow> bytes \<Rightarrow> machine \<Rightarrow> machine program_result"

datatype upgradeable_loader_state =
    LoaderUninitialized
  | Buffer "pubkey option"
  | Program pubkey
  | ProgramData u64 "pubkey option"

text \<open>
  The registered programs, with the code outside the repository as parameters: the dynamic libraries
  behind the native loader, the encoding of loader accounts, hashing, and itertools' \<open>unique\<close>.
\<close>

record processor =
  programs :: "(pubkey \<times> process_instruction) list"
  native_loader :: process_instruction
  loader_state :: "upgradeable_loader_state serde"
  sha256_fn :: "bytes \<Rightarrow> hash"
  on_curve_fn :: "hash \<Rightarrow> bool"
  uniq_fn :: "pubkey list \<Rightarrow> pubkey list"

section \<open>The invocation context\<close>

definition invoke_context_new ::
  "pubkey \<Rightarrow> rent \<Rightarrow> pre_account list \<Rightarrow> (pubkey \<times> nat) list \<Rightarrow> nat \<Rightarrow> u64 \<Rightarrow> invoke_context" where
  "invoke_context_new pid r pres deps depth units =
     \<lparr>ic_program_ids = [pid], ic_rent = r, ic_pre_accounts = pres, ic_account_deps = deps,
      ic_max_invoke_depth = depth, ic_remaining = units\<rparr>"

definition ctx_push :: "pubkey \<Rightarrow> invoke_context \<Rightarrow> invoke_context program_result" where
  "ctx_push k c =
     (if ic_max_invoke_depth c < length (ic_program_ids c) then Inl (Err CallDepth)
      else if k \<in> set (ic_program_ids c) \<and> \<not> (ic_program_ids c \<noteq> [] \<and> last (ic_program_ids c) = k)
      then Inl (Err ReentrancyNotAllowed)
      else Inr (c\<lparr>ic_program_ids := ic_program_ids c @ [k]\<rparr>))"

definition ctx_pop :: "invoke_context \<Rightarrow> invoke_context" where
  "ctx_pop c = c\<lparr>ic_program_ids := butlast (ic_program_ids c)\<rparr>"

definition invoke_depth :: "invoke_context \<Rightarrow> nat" where
  "invoke_depth c = length (ic_program_ids c)"

definition get_caller :: "invoke_context \<Rightarrow> pubkey program_result" where
  "get_caller c = (if ic_program_ids c = [] then Inl (Err GenericError) else Inr (last (ic_program_ids c)))"

text \<open>The account a program sees under a key: as recorded before it ran, else a dependency.\<close>

definition ctx_get_account :: "machine \<Rightarrow> pubkey \<Rightarrow> account option" where
  "ctx_get_account M k =
     (case find (\<lambda>p. pa_key p = k) (ic_pre_accounts (m_ctx M)) of
        Some p \<Rightarrow> Some (pa_account p)
      | None \<Rightarrow> map_option (\<lambda>(_, r). m_store M r) (find (\<lambda>(k', _). k' = k) (ic_account_deps (m_ctx M))))"

section \<open>Choosing the program\<close>

fun add_program :: "pubkey \<Rightarrow> 'p \<Rightarrow> (pubkey \<times> 'p) list \<Rightarrow> (pubkey \<times> 'p) list" where
  "add_program pid f [] = [(pid, f)]"
| "add_program pid f ((k, g) # ps) = (if pid = k then (k, f) # ps else (k, g) # add_program pid f ps)"

definition create_keyed_readonly_accounts :: "(pubkey \<times> nat) list \<Rightarrow> keyed_account list" where
  "create_keyed_readonly_accounts as =
     map (\<lambda>(k, r). \<lparr>is_signer = False, is_writable = False, key = k, acct = r\<rparr>) as"

text \<open>An index outside the keys or the accounts panics.\<close>

definition keyed_account_at :: "message \<Rightarrow> nat list \<Rightarrow> u8 \<Rightarrow> keyed_account option" where
  "keyed_account_at m accts index =
     (let i = unat index
      in if i < length (account_keys m) \<and> i < length accts
         then Some \<lparr>is_signer = msg_is_signer m i, is_writable = msg_is_writable m i,
                key = account_keys m ! i, acct = accts ! i\<rparr>
         else None)"

definition create_keyed_accounts ::
  "message \<Rightarrow> compiled_instruction \<Rightarrow> (pubkey \<times> nat) list \<Rightarrow> nat list \<Rightarrow> keyed_account list program_result" where
  "create_keyed_accounts m ci executable_accounts accts =
     (case those (map (keyed_account_at m accts) (ci_accounts ci)) of
        None \<Rightarrow> Inl Panic
      | Some ks \<Rightarrow> Inr (create_keyed_readonly_accounts executable_accounts @ ks))"

definition mp_process_instruction ::
  "processor \<Rightarrow> pubkey \<Rightarrow> keyed_account list \<Rightarrow> bytes \<Rightarrow> machine \<Rightarrow> machine program_result" where
  "mp_process_instruction P pid ks bs M =
     (case ks of
        [] \<Rightarrow> Inl (Err UnsupportedProgramId)
      | root_account # rest \<Rightarrow>
          let root_owner = owner (m_store M (acct root_account))
          in if root_owner = native_loader_id then
               (case find (\<lambda>(k, _). k = key root_account) (programs P) of
                  Some (_, process) \<Rightarrow> process pid rest bs M
                | None \<Rightarrow> native_loader P pid ks bs M)
             else
               (case find (\<lambda>(k, _). k = root_owner) (programs P) of
                  Some (_, process) \<Rightarrow> process pid ks bs M
                | None \<Rightarrow> Inl (Err UnsupportedProgramId)))"

section \<open>Verification\<close>

definition create_pre_accounts :: "message \<Rightarrow> compiled_instruction \<Rightarrow> nat list \<Rightarrow> store \<Rightarrow> pre_account list program_result" where
  "create_pre_accounts m ci accts s =
     visit_each_account ci (\<lambda>_ i pres.
       if i < length (account_keys m) \<and> i < length accts
       then Inr (pres @ [pre_account_new (account_keys m ! i) (s (accts ! i))
              (i < unat (num_required_signatures (header m))) (msg_is_writable m i)])
       else Inl Panic) []"

text \<open>The program of an instruction; an index out of range panics.\<close>

definition ci_program_id :: "message \<Rightarrow> compiled_instruction \<Rightarrow> pubkey program_result" where
  "ci_program_id m ci = ok_or (nth_opt (account_keys m) (unat (program_id_index ci))) Panic"

definition mp_verify ::
  "message \<Rightarrow> compiled_instruction \<Rightarrow> pre_account list \<Rightarrow> nat list \<Rightarrow> rent \<Rightarrow> store \<Rightarrow> unit program_result" where
  "mp_verify m ci pres accts r s =
     and_then (ci_program_id m ci) (\<lambda>pid.
     and_then
       (visit_each_account ci (\<lambda>unique_index i (pre_sum, post_sum).
          if i < length accts \<and> unique_index < length pres then
            let post = s (accts ! i); pre = pres ! unique_index
            in and_then (pre_account_verify pid r post pre) (\<lambda>_.
                 Inr (pre_sum + ucast (lamports (pa_account pre)), post_sum + ucast (lamports post)))
          else Inl Panic) (0 :: u128, 0 :: u128))
       (\<lambda>(pre_sum, post_sum).
          if pre_sum \<noteq> post_sum then Inl (Err UnbalancedInstruction) else Inr ()))"

text \<open>Verify and update the first record with the key; the result has the balance before.\<close>

fun update_pre_account ::
  "pubkey \<Rightarrow> rent \<Rightarrow> pubkey \<Rightarrow> account \<Rightarrow> pre_account list \<Rightarrow> (pre_account list \<times> u64) program_result" where
  "update_pre_account pid r k post [] = Inl (Err MissingAccount)"
| "update_pre_account pid r k post (p # ps) =
     (if k = pa_key p then
        and_then (pre_account_verify pid r post p) (\<lambda>_.
          Inr (pre_account_update post p # ps, lamports (pa_account p)))
      else
        and_then (update_pre_account pid r k post ps) (\<lambda>(ps', pre). Inr (p # ps', pre)))"

definition update_work ::
  "message \<Rightarrow> nat list \<Rightarrow> pubkey \<Rightarrow> rent \<Rightarrow> store \<Rightarrow> nat \<Rightarrow> nat \<Rightarrow> pre_account list \<times> u128 \<times> u128 \<Rightarrow>
     (pre_account list \<times> u128 \<times> u128) program_result" where
  "update_work m accts pid r s unique_index i = (\<lambda>(pres, pre_sum, post_sum).
     if i < length (account_keys m) \<and> i < length accts then
       let post = s (accts ! i)
       in and_then (update_pre_account pid r (account_keys m ! i) post pres) (\<lambda>(pres', pre).
            Inr (pres', pre_sum + ucast pre, post_sum + ucast (lamports post)))
     else Inl (Err MissingAccount))"

definition mp_verify_and_update ::
  "message \<Rightarrow> compiled_instruction \<Rightarrow> pre_account list \<Rightarrow> nat list \<Rightarrow> pubkey \<Rightarrow> rent \<Rightarrow> store \<Rightarrow>
     pre_account list program_result" where
  "mp_verify_and_update m ci pres accts pid r s =
     and_then (visit_each_account ci (update_work m accts pid r s) (pres, 0, 0)) (\<lambda>st.
     and_then (update_work m accts pid r s 0 (unat (program_id_index ci)) st) (\<lambda>(pres', pre_sum, post_sum).
       if pre_sum \<noteq> post_sum then Inl (Err UnbalancedInstruction) else Inr pres'))"

definition ctx_verify_and_update ::
  "message \<Rightarrow> compiled_instruction \<Rightarrow> nat list \<Rightarrow> machine \<Rightarrow> machine program_result" where
  "ctx_verify_and_update m ci accts M =
     (let c = m_ctx M
      in if ic_program_ids c = [] then Inl (Err GenericError)
         else and_then
                (mp_verify_and_update m ci (ic_pre_accounts c) accts (last (ic_program_ids c)) (ic_rent c) (m_store M))
                (\<lambda>pres. Inr (M\<lparr>m_ctx := c\<lparr>ic_pre_accounts := pres\<rparr>\<rparr>)))"

section \<open>Cross-program invocation\<close>

text \<open>The privileges of one account of an invoked instruction.\<close>

definition check_privileges :: "keyed_account list \<Rightarrow> pubkey list \<Rightarrow> account_meta \<Rightarrow> unit program_result" where
  "check_privileges ks signers a =
     (case find (\<lambda>k. meta_pubkey a = key k) ks of
        None \<Rightarrow> Inl (Err MissingAccount)
      | Some k \<Rightarrow>
          if meta_is_writable a \<and> \<not> is_writable k then Inl (Err PrivilegeEscalation)
          else if meta_is_signer a \<and> \<not> (signer_key k \<noteq> None \<or> meta_pubkey a \<in> set signers)
          then Inl (Err PrivilegeEscalation)
          else Inr ())"

definition create_message ::
  "processor \<Rightarrow> instruction \<Rightarrow> keyed_account list \<Rightarrow> pubkey list \<Rightarrow> (message \<times> pubkey \<times> nat) program_result" where
  "create_message P ix ks signers =
     and_then (fold_result (\<lambda>a _. check_privileges ks signers a) (accounts ix) ()) (\<lambda>_.
     and_then (ok_or (find (\<lambda>k. program_id ix = key k) ks) (Err MissingAccount)) (\<lambda>_.
       case message_new (uniq_fn P) [ix] None of
         None \<Rightarrow> Inl Panic
       | Some m \<Rightarrow>
           (case instructions m of
              [] \<Rightarrow> Inl Panic
            | ci # _ \<Rightarrow> Inr (m, program_id ix, unat (program_id_index ci)))))"

definition process_cross_program_instruction ::
  "processor \<Rightarrow> message \<Rightarrow> (pubkey \<times> nat) list \<Rightarrow> nat list \<Rightarrow> machine \<Rightarrow> machine program_result" where
  "process_cross_program_instruction P m executable_accounts accts M =
     (case instructions m of
        [] \<Rightarrow> Inl (Err GenericError)
      | ci # _ \<Rightarrow>
          and_then (ci_program_id m ci) (\<lambda>pid.
          and_then (ctx_verify_and_update m ci accts M) (\<lambda>M1.
          and_then (create_keyed_accounts m ci executable_accounts accts) (\<lambda>ks.
          and_then (ctx_push pid (m_ctx M1)) (\<lambda>c.
          let callee = P\<lparr>programs := fold (\<lambda>(k, f). add_program k f) (programs P) []\<rparr>
          in and_then (mp_process_instruction callee pid ks (ci_data ci) (M1\<lparr>m_ctx := c\<rparr>)) (\<lambda>M2.
             and_then (ctx_verify_and_update m ci accts M2) (\<lambda>M3.
               Inr (M3\<lparr>m_ctx := ctx_pop (m_ctx M3)\<rparr>))))))))"

text \<open>Put values under fresh references.\<close>

fun alloc_accounts :: "account list \<Rightarrow> machine \<Rightarrow> nat list \<times> machine" where
  "alloc_accounts [] M = ([], M)"
| "alloc_accounts (a # as) M =
     (let r = m_next M;
          (rs, M') = alloc_accounts as (M\<lparr>m_store := (m_store M)(r := a), m_next := r + 1\<rparr>)
      in (r # rs, M'))"

text \<open>The copy of the results back to the accounts of the caller, index by index.\<close>

definition copy_back :: "message \<Rightarrow> nat \<times> nat \<times> keyed_account \<Rightarrow> store \<Rightarrow> store program_result" where
  "copy_back m = (\<lambda>(i, r, k) s.
     let a = s r; old = s (acct k)
     in if msg_is_writable m i \<and> \<not> executable a then
          if length (data old) \<noteq> length (data a) \<and> length (data old) \<noteq> 0 then Inl (Err InvalidRealloc)
          else Inr (s(acct k := old\<lparr>lamports := lamports a, owner := owner a, data := data a\<rparr>))
        else Inr s)"

definition find_keyed :: "keyed_account list \<Rightarrow> pubkey \<Rightarrow> keyed_account program_result" where
  "find_keyed ks k = ok_or (find (\<lambda>ka. k = key ka) ks) (Err MissingAccount)"

fun find_all_keyed :: "keyed_account list \<Rightarrow> pubkey list \<Rightarrow> keyed_account list program_result" where
  "find_all_keyed ks [] = Inr []"
| "find_all_keyed ks (k # rest) =
     and_then (find_keyed ks k) (\<lambda>ka. and_then (find_all_keyed ks rest) (\<lambda>kas. Inr (ka # kas)))"

fun derive_signers ::
  "processor \<Rightarrow> pubkey \<Rightarrow> bytes list list \<Rightarrow> pubkey list program_result" where
  "derive_signers P caller [] = Inr []"
| "derive_signers P caller (seeds # rest) =
     (case create_program_address (sha256_fn P) (on_curve_fn P) seeds caller of
        Inl e \<Rightarrow> Inl (Err (pubkey_error_code e))
      | Inr k \<Rightarrow> and_then (derive_signers P caller rest) (\<lambda>ks. Inr (k # ks)))"

text \<open>The executable accounts of the callee: the program, and its data if it is upgradeable.\<close>

definition callee_accounts :: "processor \<Rightarrow> pubkey \<Rightarrow> machine \<Rightarrow> (pubkey \<times> account) list program_result" where
  "callee_accounts P pid M =
     and_then (ok_or (ctx_get_account M pid) (Err MissingAccount)) (\<lambda>program_account.
       if \<not> executable program_account then Inl (Err AccountNotExecutable)
       else if owner program_account = bpf_loader_upgradeable_id then
         and_then (get_state (loader_state P) program_account) (\<lambda>st.
           case st of
             Program programdata_address \<Rightarrow>
               (case ctx_get_account M programdata_address of
                  Some a \<Rightarrow> Inr [(pid, program_account), (programdata_address, a)]
                | None \<Rightarrow> Inl (Err MissingAccount))
           | _ \<Rightarrow> Inl (Err MissingAccount))
       else Inr [(pid, program_account)])"

definition native_invoke ::
  "processor \<Rightarrow> instruction \<Rightarrow> keyed_account list \<Rightarrow> bytes list list \<Rightarrow> machine \<Rightarrow> machine program_result" where
  "native_invoke P ix ks signers_seeds M =
     and_then (get_caller (m_ctx M)) (\<lambda>caller.
     and_then (derive_signers P caller signers_seeds) (\<lambda>signers.
     and_then (create_message P ix ks signers) (\<lambda>(m, callee, _).
     and_then (find_all_keyed ks (account_keys m)) (\<lambda>account_refs.
     and_then (callee_accounts P callee M) (\<lambda>execs.
       let (accts, M1) = alloc_accounts (map (\<lambda>ka. m_store M (acct ka)) account_refs) M;
           (exec_refs, M2) = alloc_accounts (map snd execs) M1
       in and_then
            (process_cross_program_instruction P m (zip (map fst execs) exec_refs) accts M2)
            (\<lambda>M3.
               and_then
                 (fold_result (copy_back m) (enumerate 0 (zip accts account_refs)) (m_store M3))
                 (\<lambda>s. Inr (M3\<lparr>m_store := s\<rparr>))))))))"

section \<open>Executing a message\<close>

text \<open>Write the index of the instruction into the instructions sysvar, if it is among the accounts.\<close>

definition fixup_instructions_sysvar ::
  "message \<Rightarrow> nat list \<Rightarrow> nat \<Rightarrow> store \<Rightarrow> store program_result" where
  "fixup_instructions_sysvar m accts instruction_index s =
     (case find (\<lambda>(_, k). k = sysvar_instructions_id) (enumerate 0 (account_keys m)) of
        None \<Rightarrow> Inr s
      | Some (i, _) \<Rightarrow>
          if i < length accts then
            (case store_current_index (data (s (accts ! i))) (of_nat instruction_index) of
               None \<Rightarrow> Inl Panic
             | Some bs \<Rightarrow> Inr (s(accts ! i := (s (accts ! i))\<lparr>data := bs\<rparr>)))
          else Inl Panic)"

record execution =
  ex_accounts :: "nat list"
  ex_account_deps :: "(pubkey \<times> nat) list"
  ex_rent :: rent
  ex_instructions_sysvar_enabled :: bool
  ex_max_invoke_depth :: nat
  ex_max_units :: u64

definition execute_instruction ::
  "processor \<Rightarrow> execution \<Rightarrow> message \<Rightarrow> compiled_instruction \<Rightarrow> (pubkey \<times> nat) list \<Rightarrow> nat \<Rightarrow>
     store \<times> nat \<Rightarrow> (store \<times> nat) program_result" where
  "execute_instruction P X m ci executable_accounts instruction_index = (\<lambda>(s, free).
     and_then
       (if ex_instructions_sysvar_enabled X
        then fixup_instructions_sysvar m (ex_accounts X) instruction_index s else Inr s) (\<lambda>s1.
     and_then (create_pre_accounts m ci (ex_accounts X) s1) (\<lambda>pres.
     and_then (ci_program_id m ci) (\<lambda>pid.
     let c = invoke_context_new pid (ex_rent X) pres (ex_account_deps X) (ex_max_invoke_depth X) (ex_max_units X)
     in and_then (create_keyed_accounts m ci executable_accounts (ex_accounts X)) (\<lambda>ks.
        and_then
          (mp_process_instruction P pid ks (ci_data ci) \<lparr>m_store = s1, m_next = free, m_ctx = c\<rparr>) (\<lambda>M.
        and_then
          (mp_verify m ci (ic_pre_accounts (m_ctx M)) (ex_accounts X) (ex_rent X) (m_store M)) (\<lambda>_.
          Inr (m_store M, m_next M))))))))"

datatype transaction_error =
    AccountInUse
  | AccountLoadedTwice
  | AccountNotFound
  | ProgramAccountNotFound
  | InsufficientFundsForFee
  | InvalidAccountForFee
  | DuplicateSignature
  | BlockhashNotFound
  | InstructionError u8 instruction_error
  | CallChainTooDeep
  | MissingSignatureForFee
  | InvalidAccountIndex
  | SignatureFailure
  | InvalidProgramForExecution
  | SanitizeFailure
  | ClusterMaintenance

definition execute_indexed ::
  "processor \<Rightarrow> execution \<Rightarrow> message \<Rightarrow> (pubkey \<times> nat) list list \<Rightarrow> nat \<times> compiled_instruction \<Rightarrow>
     store \<times> nat \<Rightarrow> (transaction_error, store \<times> nat) outcome" where
  "execute_indexed P X m loaders = (\<lambda>(i, ci) st.
     case nth_opt loaders i of
       None \<Rightarrow> Inl Panic
     | Some execs \<Rightarrow>
         (case execute_instruction P X m ci execs i st of
            Inl (Err e) \<Rightarrow> Inl (Err (InstructionError (of_nat i) e))
          | Inl Panic \<Rightarrow> Inl Panic
          | Inr st' \<Rightarrow> Inr st'))"

definition process_message ::
  "processor \<Rightarrow> execution \<Rightarrow> message \<Rightarrow> (pubkey \<times> nat) list list \<Rightarrow> store \<times> nat \<Rightarrow>
     (transaction_error, store \<times> nat) outcome" where
  "process_message P X m loaders st =
     fold_result (execute_indexed P X m loaders) (enumerate 0 (instructions m)) st"

end
