(* ===== verification/Invocation.thy ===== *)
theory Invocation
  imports MessageProcessor
begin

text \<open>
  What the runtime guarantees about the programs it runs, whatever they do to the accounts passed to
  them: the stack of invoked programs, the balance of the accounts over nested invocations, and the
  accounts no program may change. The contract of a program is that it reaches the store only
  through its accounts and the invocation context only through the calls of the context.
\<close>

section \<open>The life of an invocation context\<close>

text \<open>The steps a context can take while the programs of \<open>Q\<close> may be invoked.\<close>

inductive ctx_step :: "pubkey set \<Rightarrow> invoke_context \<Rightarrow> invoke_context \<Rightarrow> bool" for Q where
  step_push: "ctx_push k c = Inr c' \<Longrightarrow> k \<in> Q \<Longrightarrow> ctx_step Q c c'"
| step_pop: "ctx_step Q c (ctx_pop c)"
| step_verify: "ic_program_ids c \<noteq> [] \<Longrightarrow>
    mp_verify_and_update m ci (ic_pre_accounts c) accts (last (ic_program_ids c)) (ic_rent c) s = Inr pres \<Longrightarrow>
    ctx_step Q c (c\<lparr>ic_pre_accounts := pres\<rparr>)"
| step_consume: "ctx_step Q c (c\<lparr>ic_remaining := snd (meter_consume n (ic_remaining c))\<rparr>)"

abbreviation ctx_steps :: "pubkey set \<Rightarrow> invoke_context \<Rightarrow> invoke_context \<Rightarrow> bool" where
  "ctx_steps Q \<equiv> (ctx_step Q)\<^sup>*\<^sup>*"

inductive_cases ctx_stepE: "ctx_step Q c c'"

lemma remdups_adj_snoc:
  "remdups_adj (xs @ [x]) = (if xs \<noteq> [] \<and> last xs = x then remdups_adj xs else remdups_adj xs @ [x])"
  by (induction xs rule: remdups_adj.induct) auto

text \<open>No program but the last is entered again, and the stack is no deeper than allowed.\<close>

definition stack_ok :: "invoke_context \<Rightarrow> bool" where
  "stack_ok c \<longleftrightarrow> distinct (remdups_adj (ic_program_ids c)) \<and> length (ic_program_ids c) \<le> ic_max_invoke_depth c + 1"

lemma stack_ok_push: "ctx_push k c = Inr c' \<Longrightarrow> stack_ok c \<Longrightarrow> stack_ok c'"
  by (auto simp: ctx_push_def stack_ok_def remdups_adj_snoc split: if_splits)

lemma stack_ok_pop: "stack_ok c \<Longrightarrow> stack_ok (ctx_pop c)"
proof (cases "ic_program_ids c" rule: rev_cases)
  case (snoc ids k)
  then show "stack_ok c \<Longrightarrow> ?thesis"
    by (auto simp: stack_ok_def ctx_pop_def remdups_adj_snoc split: if_splits)
qed (simp add: stack_ok_def ctx_pop_def)

lemma stack_ok_step: "ctx_step Q c c' \<Longrightarrow> stack_ok c \<Longrightarrow> stack_ok c'"
  by (induction rule: ctx_step.induct) (auto simp: stack_ok_push stack_ok_pop, auto simp: stack_ok_def)

lemma stack_ok_steps: "ctx_steps Q c c' \<Longrightarrow> stack_ok c \<Longrightarrow> stack_ok c'"
  by (induction rule: rtranclp_induct) (auto intro: stack_ok_step)

lemma ctx_steps_depth: "ctx_steps Q c c' \<Longrightarrow> ic_max_invoke_depth c' = ic_max_invoke_depth c"
  by (induction rule: rtranclp_induct) (auto elim!: ctx_stepE simp: ctx_push_def ctx_pop_def split: if_splits)

lemma stack_ok_new: "stack_ok (invoke_context_new pid r pres deps depth units)"
  by (simp add: stack_ok_def invoke_context_new_def)

text \<open>
  (C33) However programs invoke each other, the stack of a context never has more than
  \<open>max_invoke_depth + 1\<close> entries, and a program that is on it is only entered again by itself: the
  stack without immediate repetitions has no duplicates.
\<close>

theorem invoke_stack_bounded:
  assumes "ctx_steps Q (invoke_context_new pid r pres deps depth units) c"
  shows "distinct (remdups_adj (ic_program_ids c)) \<and> invoke_depth c \<le> depth + 1"
  using stack_ok_steps [OF assms stack_ok_new] ctx_steps_depth [OF assms]
  by (simp add: stack_ok_def invoke_depth_def invoke_context_new_def)

theorem invoke_stack_bounded_witness:
  "\<exists>c. ctx_push 6 (invoke_context_new 5 default_rent [] [] 1 0) = Inr c \<and> ic_program_ids c = [5, 6] \<and>
     invoke_depth c \<le> 1 + 1 \<and> ctx_push 5 (invoke_context_new 5 default_rent [] [] 1 0) \<noteq> Inl (Err ReentrancyNotAllowed) \<and>
     ctx_push 7 c = Inl (Err CallDepth)"
proof -
  let ?c = "invoke_context_new 5 default_rent [] [] 1 0"
  have push: "ctx_push 6 ?c = Inr (?c\<lparr>ic_program_ids := [5, 6]\<rparr>)"
    by (simp add: ctx_push_def invoke_context_new_def)
  then have "ctx_steps UNIV ?c (?c\<lparr>ic_program_ids := [5, 6]\<rparr>)" by (intro r_into_rtranclp step_push) simp_all
  from invoke_stack_bounded [OF this] push show ?thesis
    by (simp add: ctx_push_def invoke_context_new_def)
qed

section \<open>Changes that the verification lets through\<close>

text \<open>
  Whatever the programs of \<open>Q\<close> do to an account: nothing if it is read-only, and if its owner is not
  among them they can at most add to its balance.
\<close>

definition safe_change :: "pubkey set \<Rightarrow> bool \<Rightarrow> account \<Rightarrow> account \<Rightarrow> bool" where
  "safe_change Q writable a a' \<longleftrightarrow>
     (\<not> writable \<longrightarrow> a' = a) \<and>
     (owner a \<notin> Q \<longrightarrow> lamports a \<le> lamports a' \<and> a' = a\<lparr>lamports := lamports a'\<rparr>)"

lemma safe_change_refl: "safe_change Q w a a"
  by (simp add: safe_change_def)

lemma safe_change_trans:
  assumes "safe_change Q w a b" and "safe_change Q w b c"
  shows "safe_change Q w a c"
proof -
  have "lamports a \<le> lamports c \<and> c = a\<lparr>lamports := lamports c\<rparr>" if "owner a \<notin> Q"
  proof -
    from that assms(1) have b: "lamports a \<le> lamports b" "b = a\<lparr>lamports := lamports b\<rparr>"
      by (simp_all add: safe_change_def)
    then have "owner b = owner a" by (metis account.ext_inject account.surjective account.update_convs(1))
    with that assms(2) have c: "lamports b \<le> lamports c" "c = b\<lparr>lamports := lamports c\<rparr>"
      by (simp_all add: safe_change_def)
    have "c = a\<lparr>lamports := lamports c\<rparr>" using b(2) c(2) by (metis account.surjective account.update_convs(1))
    with b(1) c(1) show ?thesis by simp
  qed
  with assms show ?thesis by (auto simp: safe_change_def)
qed

lemma obeys_safe:
  assumes "obeys pid r w pre post" and "pid \<in> Q"
  shows "safe_change Q w pre post"
    and "safe_change Q w pre (pre\<lparr>lamports := lamports post, owner := owner post, data := data post\<rparr>)"
proof -
  have "lamports pre \<le> lamports post" "data post = data pre" "owner post = owner pre"
    "executable post = executable pre" "rent_epoch post = rent_epoch pre" if "owner pre \<notin> Q"
    using assms that by (auto simp: obeys_def not_less)
  then show "safe_change Q w pre post"
    using obeys_readonly [of pid r pre post] assms(1)
    by (cases w) (auto simp: safe_change_def intro!: account.equality)
  then show "safe_change Q w pre (pre\<lparr>lamports := lamports post, owner := owner post, data := data post\<rparr>)"
    by (auto simp: safe_change_def)
qed

section \<open>The records of the accounts\<close>

text \<open>The sum of the recorded balances, in the 128 bits the verification adds in.\<close>

definition pre_total :: "pre_account list \<Rightarrow> u128" where
  "pre_total ps = (\<Sum>p\<leftarrow>ps. ucast (lamports (pa_account p)))"

lemma pre_total_simps [simp]:
  "pre_total [] = 0" "pre_total (p # ps) = ucast (lamports (pa_account p)) + pre_total ps"
  by (simp_all add: pre_total_def)

definition carried :: "pubkey set \<Rightarrow> pre_account \<Rightarrow> pre_account \<Rightarrow> bool" where
  "carried Q p p' \<longleftrightarrow> pa_key p' = pa_key p \<and> pa_is_signer p' = pa_is_signer p \<and>
     pa_is_writable p' = pa_is_writable p \<and> safe_change Q (pa_is_writable p) (pa_account p) (pa_account p')"

abbreviation carried_all :: "pubkey set \<Rightarrow> pre_account list \<Rightarrow> pre_account list \<Rightarrow> bool" where
  "carried_all Q \<equiv> list_all2 (carried Q)"

lemma carried_refl: "carried Q p p"
  by (simp add: carried_def safe_change_refl)

lemma carried_all_refl: "carried_all Q ps ps"
  by (simp add: list_all2_refl carried_refl)

lemma carried_trans: "carried Q p q \<Longrightarrow> carried Q q t \<Longrightarrow> carried Q p t"
  by (auto simp: carried_def intro: safe_change_trans)

lemma carried_all_trans: "carried_all Q ps qs \<Longrightarrow> carried_all Q qs ts \<Longrightarrow> carried_all Q ps ts"
  by (rule list_all2_trans [OF carried_trans])

lemma carried_all_keys: "carried_all Q ps qs \<Longrightarrow> map pa_key qs = map pa_key ps"
  by (induction rule: list_all2_induct) (simp_all add: carried_def)

lemma carried_update:
  "pre_account_verify pid r post p = Inr () \<Longrightarrow> pid \<in> Q \<Longrightarrow> carried Q p (pre_account_update post p)"
  using obeys_safe(2) [of pid r "pa_is_writable p" "pa_account p" post Q]
  by (simp add: pre_account_verify_obeys carried_def pre_account_update_def)

text \<open>An update of the records accounts for every lamport.\<close>

lemma update_pre_account_keeps:
  "update_pre_account pid r k post ps = Inr (ps', pre) \<Longrightarrow> pid \<in> Q \<Longrightarrow>
     carried_all Q ps ps' \<and> pre_total ps' + ucast pre = pre_total ps + ucast (lamports post)"
proof (induction ps arbitrary: ps' pre)
  case (Cons p ps)
  show ?case
  proof (cases "k = pa_key p")
    case True
    with Cons.prems have "pre_account_verify pid r post p = Inr ()" "ps' = pre_account_update post p # ps"
      "pre = lamports (pa_account p)"
      by (auto simp: and_then_Inr_iff)
    then show ?thesis using Cons.prems(2)
      by (auto simp: carried_update carried_all_refl) (simp add: pre_account_update_def)
  next
    case False
    with Cons.prems obtain ps2 where "update_pre_account pid r k post ps = Inr (ps2, pre)" "ps' = p # ps2"
      by (auto simp: and_then_Inr_iff)
    with Cons.IH [of ps2 pre] Cons.prems(2) show ?thesis by (simp add: carried_refl add.assoc)
  qed
qed simp

definition accounted :: "pubkey set \<Rightarrow> pre_account list \<Rightarrow> pre_account list \<times> u128 \<times> u128 \<Rightarrow> bool" where
  "accounted Q ps = (\<lambda>(ps', pre_sum, post_sum).
     carried_all Q ps ps' \<and> pre_total ps' + pre_sum = pre_total ps + post_sum)"

lemma update_work_accounted:
  assumes "update_work m accts pid r s u i st = Inr st'" and "accounted Q ps st" and "pid \<in> Q"
  shows "accounted Q ps st'"
proof -
  obtain qs a b where st: "st = (qs, a, b)" by (cases st)
  from assms(1) obtain qs' pre where upd:
    "update_pre_account pid r (account_keys m ! i) (s (accts ! i)) qs = Inr (qs', pre)"
    "st' = (qs', a + ucast pre, b + ucast (lamports (s (accts ! i))))"
    by (auto simp: st update_work_def Let_def and_then_Inr_iff split: if_splits)
  from update_pre_account_keeps [OF upd(1) assms(3)] assms(2)
  have keeps: "carried_all Q ps qs'" "pre_total qs + a = pre_total ps + b"
    "pre_total qs' + ucast pre = pre_total qs + ucast (lamports (s (accts ! i)))"
    by (auto simp: st accounted_def intro: carried_all_trans)
  have "pre_total qs' + (a + ucast pre) = (pre_total qs' + ucast pre) + a" by (simp only: ac_simps)
  also have "\<dots> = (pre_total qs + a) + ucast (lamports (s (accts ! i)))" unfolding keeps(3) by (simp only: ac_simps)
  also have "\<dots> = pre_total ps + (b + ucast (lamports (s (accts ! i))))" unfolding keeps(2) by (simp only: ac_simps)
  finally show ?thesis using keeps(1) by (simp add: upd(2) accounted_def)
qed

lemma mp_verify_and_update_keeps:
  assumes "mp_verify_and_update m ci ps accts pid r s = Inr ps'" and "pid \<in> Q"
  shows "carried_all Q ps ps' \<and> pre_total ps' = pre_total ps"
proof -
  from assms(1) obtain st a where
    visit: "visit_each_account ci (update_work m accts pid r s) (ps, 0, 0) = Inr st"
    and last: "update_work m accts pid r s 0 (unat (program_id_index ci)) st = Inr (ps', a, a)"
    by (auto simp: mp_verify_and_update_def and_then_Inr_iff split: if_splits prod.splits)
  have "accounted Q ps (ps, 0, 0)" by (simp add: accounted_def carried_all_refl)
  then have "accounted Q ps st"
    by (rule fold_result_invariant [OF visit [unfolded visit_each_account_fold]])
      (auto intro: update_work_accounted [OF _ _ assms(2)])
  from update_work_accounted [OF last this assms(2)] show ?thesis by (simp add: accounted_def)
qed

section \<open>What a run of the programs keeps\<close>

text \<open>All programs a context knows of are in \<open>Q\<close>.\<close>

definition known :: "pubkey set \<Rightarrow> invoke_context \<Rightarrow> bool" where
  "known Q c \<longleftrightarrow> set (ic_program_ids c) \<union> pa_key ` set (ic_pre_accounts c) \<union> fst ` set (ic_account_deps c) \<subseteq> Q"

definition ctx_kept :: "pubkey set \<Rightarrow> invoke_context \<Rightarrow> invoke_context \<Rightarrow> bool" where
  "ctx_kept Q c c' \<longleftrightarrow> carried_all Q (ic_pre_accounts c) (ic_pre_accounts c') \<and>
     pre_total (ic_pre_accounts c') = pre_total (ic_pre_accounts c) \<and> known Q c'"

lemma ctx_step_kept:
  assumes "ctx_step Q c c'" and "known Q c"
  shows "ctx_kept Q c c'"
  using assms(1)
proof cases
  case (step_push k)
  then have "c' = c\<lparr>ic_program_ids := ic_program_ids c @ [k]\<rparr>" by (auto simp: ctx_push_def split: if_splits)
  with assms(2) step_push(2) show ?thesis by (simp add: ctx_kept_def known_def carried_all_refl)
next
  case step_pop
  with assms(2) show ?thesis
    by (simp add: ctx_kept_def known_def ctx_pop_def carried_all_refl) (meson in_set_butlastD subset_iff)
next
  case (step_verify m ci accts s pres)
  with assms(2) have "last (ic_program_ids c) \<in> Q" by (auto simp: known_def)
  from mp_verify_and_update_keeps [OF step_verify(3) this]
  have kept: "carried_all Q (ic_pre_accounts c) pres" "pre_total pres = pre_total (ic_pre_accounts c)" by simp_all
  from carried_all_keys [OF kept(1)] have "pa_key ` set pres = pa_key ` set (ic_pre_accounts c)"
    by (metis set_map)
  with kept assms(2) step_verify(1) show ?thesis by (simp add: ctx_kept_def known_def)
next
  case step_consume
  with assms(2) show ?thesis by (simp add: ctx_kept_def known_def carried_all_refl)
qed

lemma ctx_steps_kept: "ctx_steps Q c c' \<Longrightarrow> known Q c \<Longrightarrow> ctx_kept Q c c'"
proof (induction rule: rtranclp_induct)
  case base
  then show ?case by (simp add: ctx_kept_def carried_all_refl)
next
  case (step d e)
  then have "ctx_kept Q c d" by simp
  moreover from this have "ctx_kept Q d e" using step.hyps(2) by (intro ctx_step_kept) (simp_all add: ctx_kept_def)
  ultimately show ?case by (auto simp: ctx_kept_def intro: carried_all_trans)
qed

section \<open>The contract of a program\<close>

text \<open>
  A run that was given the accounts \<open>A\<close> leaves every other allocated account as it was, and acts on
  the context only by the steps above.
\<close>

definition keeps_frame :: "pubkey set \<Rightarrow> nat set \<Rightarrow> machine \<Rightarrow> machine \<Rightarrow> bool" where
  "keeps_frame Q A M M' \<longleftrightarrow> (\<forall>r. r \<notin> A \<longrightarrow> r < m_next M \<longrightarrow> m_store M' r = m_store M r) \<and>
     m_next M \<le> m_next M' \<and> ctx_steps Q (m_ctx M) (m_ctx M')"

definition framed :: "process_instruction \<Rightarrow> bool" where
  "framed f \<longleftrightarrow> (\<forall>Q pid ks bs M M'. f pid ks bs M = Inr M' \<longrightarrow> insert pid (key ` set ks) \<subseteq> Q \<longrightarrow>
     known Q (m_ctx M) \<longrightarrow> keeps_frame Q (acct ` set ks) M M')"

lemma keeps_frame_trans:
  assumes "keeps_frame Q A M M'" and "keeps_frame Q B M' M''"
  shows "keeps_frame Q (A \<union> B) M M''"
  using assms by (auto simp: keeps_frame_def intro: rtranclp_trans)

lemma keeps_frame_mono: "keeps_frame Q A M M' \<Longrightarrow> A \<subseteq> B \<Longrightarrow> keeps_frame Q B M M'"
  by (auto simp: keeps_frame_def)

lemma keeps_frame_fresh: "keeps_frame Q A M M' \<Longrightarrow> (\<And>r. r \<in> A \<Longrightarrow> m_next M \<le> r) \<Longrightarrow> keeps_frame Q {} M M'"
  by (auto simp: keeps_frame_def not_less [symmetric])

lemma keeps_frame_known: "keeps_frame Q A M M' \<Longrightarrow> known Q (m_ctx M) \<Longrightarrow> known Q (m_ctx M')"
  using ctx_steps_kept by (auto simp: keeps_frame_def ctx_kept_def)

lemma keeps_frame_ctx: "ctx_steps Q (m_ctx M) c \<Longrightarrow> keeps_frame Q A M (M\<lparr>m_ctx := c\<rparr>)"
  by (simp add: keeps_frame_def)

lemma framedD:
  "framed f \<Longrightarrow> f pid ks bs M = Inr M' \<Longrightarrow> pid \<in> Q \<Longrightarrow> key ` set ks \<subseteq> Q \<Longrightarrow> known Q (m_ctx M) \<Longrightarrow>
     acct ` set ks \<subseteq> A \<Longrightarrow> keeps_frame Q A M M'"
  unfolding framed_def by (meson insert_subset keeps_frame_mono)

text \<open>A program that does not call others only changes its accounts.\<close>

definition builtin :: "(keyed_account list \<Rightarrow> bytes \<Rightarrow> store \<Rightarrow> store program_result) \<Rightarrow> process_instruction" where
  "builtin f pid ks bs M = and_then (f ks bs (m_store M)) (\<lambda>s. Inr (M\<lparr>m_store := s\<rparr>))"

lemma framed_builtin:
  assumes "\<And>ks bs s s' r. f ks bs s = Inr s' \<Longrightarrow> r \<notin> acct ` set ks \<Longrightarrow> s' r = s r"
  shows "framed (builtin f)"
  using assms by (auto simp: framed_def builtin_def and_then_Inr_iff keeps_frame_def)

section \<open>The accounts of an instruction\<close>

lemma create_keyed_accounts_sets:
  assumes "create_keyed_accounts m ci execs accts = Inr ks"
  shows "acct ` set ks = snd ` set execs \<union> (\<lambda>i. accts ! i) ` set (unique_accounts ci)"
    and "key ` set ks \<subseteq> fst ` set execs \<union> set (account_keys m)"
    and "\<forall>i\<in>set (unique_accounts ci). i < length accts \<and> i < length (account_keys m)"
proof -
  from assms obtain js where js: "those (map (keyed_account_at m accts) (ci_accounts ci)) = Some js"
    "ks = create_keyed_readonly_accounts execs @ js"
    by (auto simp: create_keyed_accounts_def split: option.splits)
  have "list_all2 (\<lambda>i k. keyed_account_at m accts i = Some k) is ls"
    if "those (map (keyed_account_at m accts) is) = Some ls" for "is" ls
    using that by (induction "is" arbitrary: ls) (auto split: option.splits)
  from this [OF js(1)] have all: "list_all2 (\<lambda>i k. unat i < length accts \<and> unat i < length (account_keys m) \<and>
      acct k = accts ! unat i \<and> key k \<in> set (account_keys m)) (ci_accounts ci) js"
    by (rule list_all2_mono) (auto simp: keyed_account_at_def Let_def split: if_splits)
  have js': "acct ` set js = (\<lambda>i. accts ! unat i) ` set (ci_accounts ci)" "key ` set js \<subseteq> set (account_keys m)"
      "\<forall>i\<in>set (ci_accounts ci). unat i < length accts \<and> unat i < length (account_keys m)"
    using all by (induction rule: list_all2_induct) auto
  have execs: "acct ` set (create_keyed_readonly_accounts execs) = snd ` set execs"
    "key ` set (create_keyed_readonly_accounts execs) = fst ` set execs"
    by (induction execs) (auto simp: create_keyed_readonly_accounts_def)
  show "acct ` set ks = snd ` set execs \<union> (\<lambda>i. accts ! i) ` set (unique_accounts ci)"
    unfolding js(2) set_append image_Un execs js' unique_accounts_props(2) image_image ..
  show "key ` set ks \<subseteq> fst ` set execs \<union> set (account_keys m)"
    unfolding js(2) set_append image_Un execs using js'(2) by blast
  show "\<forall>i\<in>set (unique_accounts ci). i < length accts \<and> i < length (account_keys m)"
    unfolding unique_accounts_props(2) using js'(3) by blast
qed

lemma ci_program_id_in: "ci_program_id m ci = Inr pid \<Longrightarrow> pid \<in> set (account_keys m)"
  by (auto simp: ci_program_id_def nth_opt_def split: if_splits)

lemma ctx_verify_and_update_frame:
  "ctx_verify_and_update m ci accts M = Inr M' \<Longrightarrow> keeps_frame Q {} M M'"
  by (auto simp: ctx_verify_and_update_def Let_def and_then_Inr_iff split: if_splits
    intro!: keeps_frame_ctx r_into_rtranclp step_verify)

section \<open>Fresh copies and the copy back\<close>

lemma alloc_accounts_fresh:
  "alloc_accounts as M = (rs, M') \<Longrightarrow>
     (\<forall>r\<in>set rs. m_next M \<le> r) \<and> (\<forall>r<m_next M. m_store M' r = m_store M r) \<and>
     m_next M \<le> m_next M' \<and> m_ctx M' = m_ctx M"
proof (induction as arbitrary: M rs)
  case (Cons a as)
  obtain rs' where "alloc_accounts as (M\<lparr>m_store := (m_store M)(m_next M := a), m_next := m_next M + 1\<rparr>) = (rs', M')"
    "rs = m_next M # rs'"
    using Cons.prems by (auto simp: Let_def split: prod.splits)
  from Cons.IH [OF this(1)] this(2) show ?case by auto
qed simp

lemma copy_back_frame:
  assumes "fold_result (copy_back m) ips s = Inr s'" and "r \<notin> (\<lambda>(_, _, k). acct k) ` set ips"
  shows "s' r = s r"
proof (rule fold_result_invariant [OF assms(1), where P = "\<lambda>t. t r = s r"])
  show "u r = s r" if "x \<in> set ips" "copy_back m x t = Inr u" "t r = s r" for x t u
  proof -
    obtain i q k where x: "x = (i, q, k)" by (cases x)
    with that(1) assms(2) have "r \<noteq> acct k" by force
    with that(2,3) show ?thesis by (auto simp: x copy_back_def Let_def split: if_splits)
  qed
qed simp

lemma find_all_keyed_sets:
  "find_all_keyed ks xs = Inr kas \<Longrightarrow> set kas \<subseteq> set ks \<and> set xs = key ` set kas"
proof (induction xs arbitrary: kas)
  case (Cons x xs)
  then obtain ka kas' where "find_keyed ks x = Inr ka" "find_all_keyed ks xs = Inr kas'" "kas = ka # kas'"
    by (auto simp: and_then_Inr_iff)
  with Cons.IH [of kas'] show ?case by (auto simp: find_keyed_def find_Some_iff)
qed simp

lemma find_SomeD: "find p xs = Some x \<Longrightarrow> x \<in> set xs \<and> p x"
  by (auto simp: find_Some_iff)

lemma ctx_get_account_known: "ctx_get_account M k = Some a \<Longrightarrow> known Q (m_ctx M) \<Longrightarrow> k \<in> Q"
proof -
  assume "ctx_get_account M k = Some a" and known: "known Q (m_ctx M)"
  then consider p where "find (\<lambda>p. pa_key p = k) (ic_pre_accounts (m_ctx M)) = Some p"
    | p where "find (\<lambda>(k', _). k' = k) (ic_account_deps (m_ctx M)) = Some p"
    by (auto simp: ctx_get_account_def split: option.splits)
  then have "k \<in> pa_key ` set (ic_pre_accounts (m_ctx M)) \<union> fst ` set (ic_account_deps (m_ctx M))"
    by cases (force dest!: find_SomeD)+
  with known show ?thesis by (auto simp: known_def)
qed

lemma callee_accounts_known:
  assumes "callee_accounts P pid M = Inr execs" and "known Q (m_ctx M)"
  shows "fst ` set execs \<subseteq> Q"
proof -
  from assms(1) obtain a where a: "ctx_get_account M pid = Some a" by (auto simp: callee_accounts_def and_then_Inr_iff)
  consider "execs = [(pid, a)]"
    | k b where "execs = [(pid, a), (k, b)]" "ctx_get_account M k = Some b"
    using assms(1) by (force simp: a callee_accounts_def and_then_def
      split: sum.splits if_splits upgradeable_loader_state.splits option.splits)
  then show ?thesis using ctx_get_account_known [OF a assms(2)] ctx_get_account_known [OF _ assms(2)]
    by cases auto
qed

lemma add_program_snd: "snd ` set (add_program k f ps) \<subseteq> insert f (snd ` set ps)"
  by (induction k f ps rule: add_program.induct) auto

lemma fold_add_program_snd:
  "snd ` set (fold (\<lambda>(k, f). add_program k f) ps qs) \<subseteq> snd ` set ps \<union> snd ` set qs"
proof (induction ps arbitrary: qs)
  case (Cons p ps)
  obtain k f where p: "p = (k, f)" by (cases p)
  from Cons.IH [of "add_program k f qs"] add_program_snd [of k f qs] show ?case unfolding p by auto
qed simp

section \<open>The verification of an instruction\<close>

lemma create_pre_accounts_shape:
  assumes "create_pre_accounts m ci accts s = Inr pres"
  shows "pres = map (\<lambda>i. pre_account_new (account_keys m ! i) (s (accts ! i))
      (i < unat (num_required_signatures (header m))) (msg_is_writable m i)) (unique_accounts ci)"
proof -
  have "ps' = ps @ map g xs"
    if "fold_result (\<lambda>(u, i). (\<lambda>ps. if b i then Inr (ps @ [g i]) else Inl e)) (enumerate n xs) ps = Inr ps'"
    for b g n xs and e :: "'e" and ps ps' :: "'p list"
    using that
  proof (induction xs arbitrary: n ps)
    case (Cons x xs)
    from Cons.IH [of "Suc n" "ps @ [g x]"] Cons.prems show ?case by (simp split: if_splits)
  qed simp
  from this [of _ _ _ 0 "unique_accounts ci" "[]"] show ?thesis
    using assms by (auto simp: create_pre_accounts_def visit_each_account_fold)
qed

lemma verify_fold:
  fixes a b a' b' :: u128
  assumes "fold_result (\<lambda>(u, i). (\<lambda>(pre_sum, post_sum).
      if i < length accts \<and> u < length pres
      then and_then (pre_account_verify pid r (s (accts ! i)) (pres ! u)) (\<lambda>_.
        Inr (pre_sum + ucast (lamports (pa_account (pres ! u))), post_sum + ucast (lamports (s (accts ! i)))))
      else Inl Panic)) (enumerate n xs) (a, b) = Inr (a', b')"
    and "length pres = n + length xs"
  shows "(\<forall>j<length xs. pre_account_verify pid r (s (accts ! (xs ! j))) (pres ! (n + j)) = Inr ()) \<and>
    a' = a + pre_total (drop n pres) \<and> b' = b + (\<Sum>i\<leftarrow>xs. ucast (lamports (s (accts ! i))))"
  using assms
proof (induction xs arbitrary: n a b)
  case (Cons i xs)
  then have drop: "drop n pres = pres ! n # drop (Suc n) pres" by (simp add: Cons_nth_drop_Suc)
  from Cons.prems have "pre_account_verify pid r (s (accts ! i)) (pres ! n) = Inr ()"
    by (auto simp: and_then_Inr_iff split: if_splits)
  moreover from this Cons.IH [of "Suc n"] Cons.prems
  have "\<forall>j<length xs. pre_account_verify pid r (s (accts ! (xs ! j))) (pres ! (Suc n + j)) = Inr ()"
    "a' = a + ucast (lamports (pa_account (pres ! n))) + pre_total (drop (Suc n) pres)"
    "b' = b + ucast (lamports (s (accts ! i))) + (\<Sum>i\<leftarrow>xs. ucast (lamports (s (accts ! i))))"
    by (auto split: if_splits)
  ultimately show ?case by (auto simp: drop less_Suc_eq_0_disj nth_Cons split: nat.splits)
qed simp

lemma mp_verify_checks:
  assumes "mp_verify m ci pres accts r s = Inr ()" and "length pres = length (unique_accounts ci)"
    and "ci_program_id m ci = Inr pid"
  shows "\<forall>j<length (unique_accounts ci).
      pre_account_verify pid r (s (accts ! (unique_accounts ci ! j))) (pres ! j) = Inr ()"
    and "pre_total pres = (\<Sum>i\<leftarrow>unique_accounts ci. ucast (lamports (s (accts ! i))))"
proof -
  from assms(1) obtain a where "fold_result (\<lambda>(u, i). (\<lambda>(pre_sum, post_sum).
      if i < length accts \<and> u < length pres
      then and_then (pre_account_verify pid r (s (accts ! i)) (pres ! u)) (\<lambda>_.
        Inr (pre_sum + ucast (lamports (pa_account (pres ! u))), post_sum + ucast (lamports (s (accts ! i)))))
      else Inl Panic)) (enumerate 0 (unique_accounts ci)) (0 :: u128, 0 :: u128) = Inr (a, a)"
    by (auto simp: mp_verify_def [unfolded Let_def] visit_each_account_fold and_then_Inr_iff assms(3) split: if_splits)
  from verify_fold [OF this] assms(2)
  show "\<forall>j<length (unique_accounts ci).
      pre_account_verify pid r (s (accts ! (unique_accounts ci ! j))) (pres ! j) = Inr ()"
    "pre_total pres = (\<Sum>i\<leftarrow>unique_accounts ci. ucast (lamports (s (accts ! i))))"
    by (simp, auto)
qed

text \<open>At most 256 balances are added, so the 128-bit sums are exact.\<close>

lemma u128_sum_exact:
  fixes f :: "'a \<Rightarrow> u64"
  assumes "length xs \<le> 2 ^ 60"
  shows "unat (\<Sum>x\<leftarrow>xs. ucast (f x) :: u128) = (\<Sum>x\<leftarrow>xs. unat (f x))"
proof -
  have "(\<Sum>x\<leftarrow>xs. ucast (f x) :: u128) = of_nat (\<Sum>x\<leftarrow>xs. unat (f x))"
    by (induction xs) (simp_all add: unsigned_ucast_eq)
  moreover have "(\<Sum>x\<leftarrow>xs. unat (f x)) \<le> length xs * 2 ^ 64"
    by (induction xs) (simp_all add: add_mono less_imp_le)
  moreover have "length xs * 2 ^ 64 \<le> 2 ^ 60 * (2 ^ 64 :: nat)" using assms by (rule mult_le_mono1)
  ultimately show ?thesis by (simp add: unat_of_nat)
qed

lemma instruction_total:
  assumes accts: "distinct accts" and xs: "distinct xs" "length xs \<le> 256" "\<forall>i\<in>set xs. i < length accts"
    and sums: "(\<Sum>i\<leftarrow>xs. ucast (lamports (s' (accts ! i))) :: u128) = (\<Sum>i\<leftarrow>xs. ucast (lamports (s (accts ! i))))"
    and other: "\<And>r. r \<in> set accts \<Longrightarrow> r \<notin> (\<lambda>i. accts ! i) ` set xs \<Longrightarrow> lamports (s' r) = lamports (s r)"
  shows "total_lamports (set accts) s' = total_lamports (set accts) s"
proof -
  let ?A = "(\<lambda>i. accts ! i) ` set xs"
  have sub: "?A \<subseteq> set accts" using xs(3) by auto
  have "inj_on (\<lambda>i. accts ! i) (set xs)" using xs(3) accts by (auto simp: inj_on_def nth_eq_iff_index_eq)
  then have list: "total_lamports ?A t = (\<Sum>i\<leftarrow>xs. unat (lamports (t (accts ! i))))" for t
    using xs(1) by (simp add: total_lamports_def sum.reindex sum_list_distinct_conv_sum_set)
  have split: "total_lamports (set accts) t = total_lamports (set accts - ?A) t + total_lamports ?A t" for t
    unfolding total_lamports_def by (rule sum.subset_diff [OF sub]) simp
  have "total_lamports ?A s' = total_lamports ?A s"
    unfolding list using arg_cong [OF sums, of unat] xs(2) by (simp add: u128_sum_exact)
  moreover have "total_lamports (set accts - ?A) s' = total_lamports (set accts - ?A) s"
    unfolding total_lamports_def by (rule sum.cong) (simp_all add: other)
  ultimately show ?thesis by (simp add: split)
qed

lemma fixup_keeps:
  assumes "fixup_instructions_sysvar m accts index s = Inr s1" and "distinct accts"
  shows "lamports (s1 r) = lamports (s r)"
    and "i < length accts \<Longrightarrow> i < length (account_keys m) \<Longrightarrow> account_keys m ! i \<noteq> sysvar_instructions_id \<Longrightarrow>
      s1 (accts ! i) = s (accts ! i)"
proof -
  let ?f = "find (\<lambda>(_, k). k = sysvar_instructions_id) (enumerate 0 (account_keys m))"
  have "s1 = s \<or> (\<exists>j bs. j < length accts \<and> j < length (account_keys m) \<and> account_keys m ! j = sysvar_instructions_id \<and>
      s1 = s(accts ! j := (s (accts ! j))\<lparr>data := bs\<rparr>))"
  proof (cases ?f)
    case (Some p)
    obtain j k where p: "p = (j, k)" by (cases p)
    from find_SomeD [OF Some] have "j < length (account_keys m)" "account_keys m ! j = sysvar_instructions_id"
      by (auto simp: p in_set_enumerate_eq)
    with assms(1) Some show ?thesis by (auto simp: fixup_instructions_sysvar_def p split: if_splits option.splits)
  qed (use assms(1) in \<open>simp add: fixup_instructions_sysvar_def\<close>)
  then show "lamports (s1 r) = lamports (s r)" "i < length accts \<Longrightarrow> i < length (account_keys m) \<Longrightarrow>
      account_keys m ! i \<noteq> sysvar_instructions_id \<Longrightarrow> s1 (accts ! i) = s (accts ! i)"
    using assms(2) by (auto simp: nth_eq_iff_index_eq)
qed

text \<open>
  The state after the run and the verification of an instruction: \<open>s1\<close> is the store it started on,
  \<open>pres\<close> the records at the end.
\<close>

definition verified ::
  "pubkey set \<Rightarrow> execution \<Rightarrow> message \<Rightarrow> compiled_instruction \<Rightarrow> pubkey \<Rightarrow> store \<Rightarrow> pre_account list \<Rightarrow> store \<Rightarrow> bool" where
  "verified Q X m ci pid s1 pres s' \<longleftrightarrow>
     (let accts = ex_accounts X; xs = unique_accounts ci
      in (\<forall>i\<in>set xs. i < length accts) \<and>
         carried_all Q (map (\<lambda>i. pre_account_new (account_keys m ! i) (s1 (accts ! i))
           (i < unat (num_required_signatures (header m))) (msg_is_writable m i)) xs) pres \<and>
         (\<forall>j<length xs. pre_account_verify pid (ex_rent X) (s' (accts ! (xs ! j))) (pres ! j) = Inr ()) \<and>
         (\<Sum>i\<leftarrow>xs. ucast (lamports (s' (accts ! i))) :: u128) = (\<Sum>i\<leftarrow>xs. ucast (lamports (s1 (accts ! i)))) \<and>
         (\<forall>r\<in>set accts. r \<notin> (\<lambda>i. accts ! i) ` set xs \<longrightarrow> s' r = s1 r))"

lemma verified_total:
  "verified Q X m ci pid s1 pres s' \<Longrightarrow> distinct (ex_accounts X) \<Longrightarrow>
     total_lamports (set (ex_accounts X)) s' = total_lamports (set (ex_accounts X)) s1"
  by (rule instruction_total [OF _ unique_accounts_props(1,3)]) (auto simp: verified_def Let_def)

lemma verified_change:
  assumes v: "verified Q X m ci pid s1 pres s'" and "pid \<in> Q" and "distinct (ex_accounts X)"
    and i: "i < length (ex_accounts X)"
  shows "safe_change Q (msg_is_writable m i) (s1 (ex_accounts X ! i)) (s' (ex_accounts X ! i))"
proof (cases "i \<in> set (unique_accounts ci)")
  case True
  then obtain j where j: "j < length (unique_accounts ci)" "unique_accounts ci ! j = i" by (auto simp: in_set_conv_nth)
  from v j have "carried Q (pre_account_new (account_keys m ! i) (s1 (ex_accounts X ! i))
      (i < unat (num_required_signatures (header m))) (msg_is_writable m i)) (pres ! j)"
    by (auto simp: verified_def Let_def list_all2_conv_all_nth)
  then have "pa_is_writable (pres ! j) = msg_is_writable m i"
    "safe_change Q (msg_is_writable m i) (s1 (ex_accounts X ! i)) (pa_account (pres ! j))"
    by (simp_all add: carried_def pre_account_new_def)
  moreover from v j have "pre_account_verify pid (ex_rent X) (s' (ex_accounts X ! i)) (pres ! j) = Inr ()"
    by (auto simp: verified_def Let_def)
  ultimately show ?thesis
    using obeys_safe(1) [OF _ assms(2)] by (auto simp: pre_account_verify_obeys intro: safe_change_trans)
next
  case False
  with v i assms(3) have "ex_accounts X ! i \<notin> (\<lambda>i. ex_accounts X ! i) ` set (unique_accounts ci)"
    by (auto simp: verified_def Let_def nth_eq_iff_index_eq)
  with v i show ?thesis by (simp add: verified_def Let_def safe_change_refl)
qed

text \<open>
  What a transaction's programs may do to its accounts: the lamports add up, and every account but
  the instructions sysvar changes safely.
\<close>

definition safe_run :: "pubkey set \<Rightarrow> execution \<Rightarrow> message \<Rightarrow> store \<Rightarrow> store \<Rightarrow> bool" where
  "safe_run Q X m s s' \<longleftrightarrow>
     total_lamports (set (ex_accounts X)) s' = total_lamports (set (ex_accounts X)) s \<and>
     (\<forall>i<length (ex_accounts X). i < length (account_keys m) \<longrightarrow> account_keys m ! i \<noteq> sysvar_instructions_id \<longrightarrow>
        safe_change Q (msg_is_writable m i) (s (ex_accounts X ! i)) (s' (ex_accounts X ! i)))"

lemma safe_run_refl: "safe_run Q X m s s"
  by (simp add: safe_run_def safe_change_refl)

lemma safe_run_trans: "safe_run Q X m s t \<Longrightarrow> safe_run Q X m t u \<Longrightarrow> safe_run Q X m s u"
  unfolding safe_run_def by (auto intro: safe_change_trans)

section \<open>Privileges of an invoked instruction\<close>

lemma fold_result_unit: "fold_result (\<lambda>x _. f x) xs () = Inr u \<longleftrightarrow> (\<forall>x\<in>set xs. f x = Inr ())"
  by (induction xs) (auto simp: and_then_Inr_iff)

lemma create_message_checked:
  assumes "create_message P ix ks signers = Inr (m, callee, j)"
  shows "message_new (uniq_fn P) [ix] None = Some m"
    and "\<forall>a\<in>set (accounts ix). check_privileges ks signers a = Inr ()"
    and "\<exists>k. find (\<lambda>k. program_id ix = key k) ks = Some k"
  using assms by (auto simp: create_message_def and_then_Inr_iff fold_result_unit split: option.splits list.splits)

section \<open>Programs that keep the contract\<close>

locale framed_programs =
  fixes P :: processor
  assumes programs_framed: "(k, f) \<in> set (programs P) \<Longrightarrow> framed f"
    and native_framed: "framed (native_loader P)"
begin

lemma process_frame:
  assumes run: "mp_process_instruction P pid ks bs M = Inr M'"
    and Q: "pid \<in> Q" "key ` set ks \<subseteq> Q" "known Q (m_ctx M)"
  shows "keeps_frame Q (acct ` set ks) M M'"
proof -
  from run obtain k rest where ks: "ks = k # rest" by (cases ks) (simp_all add: mp_process_instruction_def)
  have rest: "key ` set rest \<subseteq> Q" "acct ` set rest \<subseteq> acct ` set ks" using Q(2) by (auto simp: ks)
  have find: "framed f" if "find g (programs P) = Some (k', f)" for g k' f
    using that programs_framed by (metis find_Some_iff nth_mem)
  from run consider g k' f where "find g (programs P) = Some (k', f)" "f pid rest bs M = Inr M'"
    | g k' f where "find g (programs P) = Some (k', f)" "f pid ks bs M = Inr M'"
    | "native_loader P pid ks bs M = Inr M'"
    by (auto simp: mp_process_instruction_def ks Let_def split: if_splits option.splits)
  then show ?thesis
  proof cases
    case 1
    show ?thesis by (rule framedD [OF find [OF 1(1)] 1(2) Q(1) rest(1) Q(3) rest(2)])
  next
    case 2
    show ?thesis by (rule framedD [OF find [OF 2(1)] 2(2) Q order.refl])
  next
    case 3
    show ?thesis by (rule framedD [OF native_framed 3 Q order.refl])
  qed
qed

lemma callee_framed: "framed_programs (P\<lparr>programs := fold (\<lambda>(k, f). add_program k f) (programs P) []\<rparr>)"
proof
  show "framed f" if "(k, f) \<in> set (programs (P\<lparr>programs := fold (\<lambda>(k, f). add_program k f) (programs P) []\<rparr>))" for k f
    using that fold_add_program_snd [of "programs P" "[]"] programs_framed by (auto simp: image_iff)
qed (simp add: native_framed)

lemma cross_program_frame:
  assumes run: "process_cross_program_instruction P m execs accts M = Inr M'"
    and Q: "set (account_keys m) \<subseteq> Q" "fst ` set execs \<subseteq> Q" "known Q (m_ctx M)"
  shows "keeps_frame Q (snd ` set execs \<union> set accts) M M'"
proof -
  from run obtain ci rest pid M1 ks c M2 M3 where step:
    "instructions m = ci # rest" "ci_program_id m ci = Inr pid" "ctx_verify_and_update m ci accts M = Inr M1"
    "create_keyed_accounts m ci execs accts = Inr ks" "ctx_push pid (m_ctx M1) = Inr c"
    "mp_process_instruction (P\<lparr>programs := fold (\<lambda>(k, f). add_program k f) (programs P) []\<rparr>) pid ks (ci_data ci)
       (M1\<lparr>m_ctx := c\<rparr>) = Inr M2"
    "ctx_verify_and_update m ci accts M2 = Inr M3" "M' = M3\<lparr>m_ctx := ctx_pop (m_ctx M3)\<rparr>"
    by (auto simp: process_cross_program_instruction_def and_then_Inr_iff Let_def split: list.splits)
  note sets = create_keyed_accounts_sets [OF step(4)]
  have pid: "pid \<in> Q" using ci_program_id_in [OF step(2)] Q(1) by blast
  have keys: "key ` set ks \<subseteq> Q" using sets(2) Q(1,2) by blast
  have passed: "acct ` set ks \<subseteq> snd ` set execs \<union> set accts" using sets(1,3) by auto
  have f1: "keeps_frame Q {} M M1" by (rule ctx_verify_and_update_frame [OF step(3)])
  have f2: "keeps_frame Q {} M1 (M1\<lparr>m_ctx := c\<rparr>)"
    using step_push [OF step(5) pid] by (intro keeps_frame_ctx r_into_rtranclp)
  note f12 = keeps_frame_trans [OF f1 f2]
  have f3: "keeps_frame Q (acct ` set ks) (M1\<lparr>m_ctx := c\<rparr>) M2"
    using framed_programs.process_frame [OF callee_framed step(6) pid keys] keeps_frame_known [OF f12 Q(3)] by blast
  have f4: "keeps_frame Q {} M2 M3" by (rule ctx_verify_and_update_frame [OF step(7)])
  have f5: "keeps_frame Q {} M3 M'"
    unfolding step(8) by (intro keeps_frame_ctx r_into_rtranclp step_pop)
  from keeps_frame_trans [OF keeps_frame_trans [OF f12 f3] keeps_frame_trans [OF f4 f5]] show ?thesis
    by (rule keeps_frame_mono) (use passed in auto)
qed

text \<open>An invocation by a program is itself within the contract of the caller.\<close>

lemma native_invoke_frame:
  assumes run: "native_invoke P ix ks seeds M = Inr M'"
    and Q: "key ` set ks \<subseteq> Q" "known Q (m_ctx M)"
  shows "keeps_frame Q (acct ` set ks) M M'"
proof -
  from run obtain caller signers m callee j refs execs where calls:
    "get_caller (m_ctx M) = Inr caller" "derive_signers P caller seeds = Inr signers"
    "create_message P ix ks signers = Inr (m, callee, j)"
    and step1: "find_all_keyed ks (account_keys m) = Inr refs" "callee_accounts P callee M = Inr execs"
    by (auto simp: native_invoke_def and_then_Inr_iff)
  obtain accts M1 where step2: "alloc_accounts (map (\<lambda>ka. m_store M (acct ka)) refs) M = (accts, M1)" by fastforce
  obtain exec_refs M2 where step3: "alloc_accounts (map snd execs) M1 = (exec_refs, M2)" by fastforce
  note step1 = step1 step2 step3
  from run obtain M3 s' where step2:
    "process_cross_program_instruction P m (zip (map fst execs) exec_refs) accts M2 = Inr M3"
    "fold_result (copy_back m) (enumerate 0 (zip accts refs)) (m_store M3) = Inr s'" "M' = M3\<lparr>m_store := s'\<rparr>"
    by (auto simp: native_invoke_def and_then_Inr_iff Let_def calls step1)
  note step = step1 step2
  have refs: "set refs \<subseteq> set ks" "set (account_keys m) \<subseteq> Q"
    using find_all_keyed_sets [OF step(1)] Q(1) by auto
  note fresh = alloc_accounts_fresh [OF step(3)] alloc_accounts_fresh [OF step(4)]
  have execs: "fst ` set (zip (map fst execs) exec_refs) \<subseteq> Q"
    using callee_accounts_known [OF step(2) Q(2)] by (auto dest!: set_zip_leftD)
  have "known Q (m_ctx M2)" using fresh Q(2) by simp
  from cross_program_frame [OF step(5) refs(2) execs this]
  have inner: "keeps_frame Q (snd ` set (zip (map fst execs) exec_refs) \<union> set accts) M2 M3" .
  have store: "s' r = m_store M r" if "r \<notin> acct ` set ks" "r < m_next M" for r
  proof -
    have "r \<notin> (\<lambda>(_, _, k). acct k) ` set (enumerate 0 (zip accts refs))"
      using that(1) refs(1) by (auto simp: enumerate_eq_zip dest!: set_zip_rightD)
    from copy_back_frame [OF step(6) this] have "s' r = m_store M3 r" .
    moreover have "r \<notin> snd ` set (zip (map fst execs) exec_refs) \<union> set accts"
      using fresh that(2) by (force dest!: set_zip_rightD)
    with inner fresh that(2) have "m_store M3 r = m_store M2 r" by (auto simp: keeps_frame_def)
    ultimately show ?thesis using fresh that(2) by simp
  qed
  with inner fresh step(7) show ?thesis by (auto simp: keeps_frame_def)
qed

lemma execute_verified:
  assumes run: "execute_instruction P X m ci execs index (s, free) = Inr (s', free')"
    and layout: "\<forall>r\<in>set (ex_accounts X). r < free" "snd ` set execs \<inter> set (ex_accounts X) = {}"
    and Q: "set (account_keys m) \<union> fst ` set execs \<union> fst ` set (ex_account_deps X) \<subseteq> Q"
  obtains s1 pid pres where
    "(if ex_instructions_sysvar_enabled X then fixup_instructions_sysvar m (ex_accounts X) index s else Inr s) = Inr s1"
    "pid \<in> Q" "free \<le> free'" "verified Q X m ci pid s1 pres s'"
proof -
  let ?accts = "ex_accounts X" and ?xs = "unique_accounts ci"
  from run obtain s1 pres pid ks M c where step:
    "(if ex_instructions_sysvar_enabled X then fixup_instructions_sysvar m ?accts index s else Inr s) = Inr s1"
    "create_pre_accounts m ci ?accts s1 = Inr pres" "ci_program_id m ci = Inr pid"
    "create_keyed_accounts m ci execs ?accts = Inr ks"
    "c = invoke_context_new pid (ex_rent X) pres (ex_account_deps X) (ex_max_invoke_depth X) (ex_max_units X)"
    "mp_process_instruction P pid ks (ci_data ci) \<lparr>m_store = s1, m_next = free, m_ctx = c\<rparr> = Inr M"
    "mp_verify m ci (ic_pre_accounts (m_ctx M)) ?accts (ex_rent X) (m_store M) = Inr ()"
    "s' = m_store M" "free' = m_next M"
    by (auto simp: execute_instruction_def and_then_Inr_iff Let_def)
  note sets = create_keyed_accounts_sets [OF step(4)]
  note pres = create_pre_accounts_shape [OF step(2)]
  have pid: "pid \<in> Q" using ci_program_id_in [OF step(3)] Q by blast
  have known: "known Q c"
    using Q pid sets(3) by (auto simp: known_def step(5) invoke_context_new_def pres pre_account_new_def)
  have frame: "keeps_frame Q (acct ` set ks) \<lparr>m_store = s1, m_next = free, m_ctx = c\<rparr> M"
    using sets(2) Q known pid by (intro process_frame [OF step(6)]) auto
  have other: "s' r = s1 r" if "r \<in> set ?accts" "r \<notin> (\<lambda>i. ?accts ! i) ` set ?xs" for r
    using frame that layout unfolding keeps_frame_def sets(1) step(8) by simp blast
  have kept: "carried_all Q pres (ic_pre_accounts (m_ctx M))"
    "pre_total (ic_pre_accounts (m_ctx M)) = pre_total pres"
    using frame known ctx_steps_kept [of Q c "m_ctx M"]
    by (auto simp: keeps_frame_def ctx_kept_def step(5) invoke_context_new_def)
  from kept(1) have len: "length (ic_pre_accounts (m_ctx M)) = length ?xs"
    by (simp add: list_all2_lengthD [symmetric] pres)
  note checks = mp_verify_checks [OF step(7) len step(3), folded step(8)]
  show thesis
  proof (rule that [OF step(1) pid])
    show "free \<le> free'" using frame by (simp add: keeps_frame_def step(9))
    show "verified Q X m ci pid s1 (ic_pre_accounts (m_ctx M)) s'"
      unfolding verified_def using sets(3) kept(1) [unfolded pres] checks kept(2) other
      by (simp add: pres pre_total_def pre_account_new_def comp_def)
  qed
qed

lemma execute_keeps:
  assumes run: "execute_instruction P X m ci execs index (s, free) = Inr (s', free')"
    and layout: "distinct (ex_accounts X)" "\<forall>r\<in>set (ex_accounts X). r < free"
      "snd ` set execs \<inter> set (ex_accounts X) = {}"
    and Q: "set (account_keys m) \<union> fst ` set execs \<union> fst ` set (ex_account_deps X) \<subseteq> Q"
  shows "free \<le> free' \<and> safe_run Q X m s s'"
proof -
  obtain s1 pid pres where fixup:
    "(if ex_instructions_sysvar_enabled X then fixup_instructions_sysvar m (ex_accounts X) index s else Inr s) = Inr s1"
    and v: "pid \<in> Q" "free \<le> free'" "verified Q X m ci pid s1 pres s'"
    by (rule execute_verified [OF run layout(2,3) Q])
  have s1: "lamports (s1 r) = lamports (s r)" "i < length (ex_accounts X) \<Longrightarrow> i < length (account_keys m) \<Longrightarrow>
      account_keys m ! i \<noteq> sysvar_instructions_id \<Longrightarrow> s1 (ex_accounts X ! i) = s (ex_accounts X ! i)" for r i
    using fixup fixup_keeps [OF _ layout(1), of m index s s1] by (auto split: if_splits)
  from verified_total [OF v(3) layout(1)] have "total_lamports (set (ex_accounts X)) s' = total_lamports (set (ex_accounts X)) s"
    by (simp add: total_lamports_def s1(1))
  with verified_change [OF v(3) v(1) layout(1)] s1(2) v(2) show ?thesis
    unfolding safe_run_def by (metis (no_types))
qed

lemma process_message_keeps:
  assumes run: "process_message P X m loaders (s, free) = Inr (s', free')"
    and layout: "distinct (ex_accounts X)" "\<forall>r\<in>set (ex_accounts X). r < free"
      "\<forall>execs\<in>set loaders. snd ` set execs \<inter> set (ex_accounts X) = {}"
    and Q: "set (account_keys m) \<union> (\<Union>execs\<in>set loaders. fst ` set execs) \<union> fst ` set (ex_account_deps X) \<subseteq> Q"
  shows "safe_run Q X m s s'"
proof -
  have "free \<le> snd (s', free') \<and> safe_run Q X m s (fst (s', free'))"
  proof (rule fold_result_invariant [OF run [unfolded process_message_def],
        where P = "\<lambda>st. free \<le> snd st \<and> safe_run Q X m s (fst st)"])
    show "free \<le> snd (s, free) \<and> safe_run Q X m s (fst (s, free))" by (simp add: safe_run_refl)
    fix x st st'
    assume x: "execute_indexed P X m loaders x st = Inr st'" and inv: "free \<le> snd st \<and> safe_run Q X m s (fst st)"
    obtain i ci where i: "x = (i, ci)" by (cases x)
    obtain t f t' f' where st: "st = (t, f)" "st' = (t', f')" by (cases st, cases st')
    from x obtain execs where execs: "nth_opt loaders i = Some execs" "execute_instruction P X m ci execs i (t, f) = Inr (t', f')"
      by (auto simp: execute_indexed_def i st split: option.splits sum.splits failure.splits)
    then have "execs \<in> set loaders" by (auto simp: nth_opt_def split: if_splits)
    then have "snd ` set execs \<inter> set (ex_accounts X) = {}"
      "set (account_keys m) \<union> fst ` set execs \<union> fst ` set (ex_account_deps X) \<subseteq> Q" using layout(3) Q by (simp, blast)
    moreover have "\<forall>r\<in>set (ex_accounts X). r < f" using layout(2) inv by (auto simp: st)
    ultimately have "f \<le> f' \<and> safe_run Q X m t t'" by (intro execute_keeps [OF execs(2) layout(1)])
    with inv show "free \<le> snd st' \<and> safe_run Q X m s (fst st')" by (auto simp: st intro: safe_run_trans)
  qed
  then show ?thesis by simp
qed

end

end
