(* ===== verification/StakeHistory.thy ===== *)
theory StakeHistory
  imports RecentMap
begin

text \<open>
  The history of the cluster's stake (\<open>sdk/program/src/stake_history.rs\<close>), from which warm-up and
  cool-down are computed.
\<close>

definition STAKE_HISTORY_MAX_ENTRIES :: nat where
  "STAKE_HISTORY_MAX_ENTRIES = 512"

record stake_history_entry =
  effective :: u64
  activating :: u64
  deactivating :: u64

type_synonym stake_history = "(epoch \<times> stake_history_entry) list"

definition stake_history_search :: "epoch \<Rightarrow> stake_history \<Rightarrow> nat + nat" where
  "stake_history_search e h = binary_search_by (\<lambda>(probe, _). cmp e probe) h"

definition stake_history_get :: "stake_history \<Rightarrow> epoch \<Rightarrow> stake_history_entry option" where
  "stake_history_get h e =
     (case stake_history_search e h of Inr index \<Rightarrow> Some (snd (h ! index)) | Inl _ \<Rightarrow> None)"

definition stake_history_add :: "stake_history \<Rightarrow> epoch \<Rightarrow> stake_history_entry \<Rightarrow> stake_history" where
  "stake_history_add h e entry =
     take STAKE_HISTORY_MAX_ENTRIES
       (case stake_history_search e h of
          Inr index \<Rightarrow> h[index := (e, entry)]
        | Inl index \<Rightarrow> take index h @ (e, entry) # drop index h)"

interpretation stake_history: recent_map stake_history_get stake_history_add 512
proof
  show "stake_history_get h k = recent_get h k" for h k
    by (simp add: stake_history_get_def stake_history_search_def recent_get_def recent_search_def)
  show "stake_history_add h k v = take 512 (recent_insert h k v)" for h k v
    by (simp add: stake_history_add_def stake_history_search_def STAKE_HISTORY_MAX_ENTRIES_def
      recent_insert_def recent_search_def)
qed

end
