(* ===== verification/StakeState.thy ===== *)
theory StakeState
  imports StakeHistory VoteState
begin

text \<open>
  The state of a stake account (\<open>programs/stake/src/stake_state.rs\<close>): authorities, lockup, the
  delegation with its warm-up and cool-down, and the rewards. The tracer of the reward calculation
  only observes and is left out.
\<close>

section \<open>Data\<close>

record lockup =
  lk_unix_timestamp :: i64
  lk_epoch :: epoch
  lk_custodian :: pubkey

record stake_authorized =
  staker :: pubkey
  withdrawer :: pubkey

record stake_meta =
  rent_exempt_reserve :: u64
  sm_authorized :: stake_authorized
  sm_lockup :: lockup

record delegation =
  voter_pubkey :: pubkey
  dl_stake :: u64
  activation_epoch :: epoch
  deactivation_epoch :: epoch
  warmup_cooldown_rate :: f64

record stake =
  st_delegation :: delegation
  credits_observed :: u64

datatype stake_state =
    StakeUninitialized
  | StakeInitialized stake_meta
  | Stake stake_meta stake
  | RewardsPool

datatype stake_authorize = StakeStaker | StakeWithdrawer

record lockup_args =
  la_unix_timestamp :: "i64 option"
  la_epoch :: "epoch option"
  la_custodian :: "pubkey option"

record stake_config =
  cfg_warmup_cooldown_rate :: f64
  cfg_slash_penalty :: u8

record point_value =
  pv_rewards :: u64
  pv_points :: u128

datatype stake_error =
    NoCreditsToRedeem
  | LockupInForce
  | AlreadyDeactivated
  | TooSoonToRedelegate
  | InsufficientStake
  | MergeTransientStake
  | MergeMismatch

text \<open>The conversion to an instruction error: the index in the enumeration.\<close>

fun stake_error_code :: "stake_error \<Rightarrow> instruction_error" where
  "stake_error_code NoCreditsToRedeem = Custom 0"
| "stake_error_code LockupInForce = Custom 1"
| "stake_error_code AlreadyDeactivated = Custom 2"
| "stake_error_code TooSoonToRedelegate = Custom 3"
| "stake_error_code InsufficientStake = Custom 4"
| "stake_error_code MergeTransientStake = Custom 5"
| "stake_error_code MergeMismatch = Custom 6"

definition DEFAULT_WARMUP_COOLDOWN_RATE :: f64 where
  "DEFAULT_WARMUP_COOLDOWN_RATE = Fin (1 / 4)"

definition DEFAULT_SLASH_PENALTY :: u8 where
  "DEFAULT_SLASH_PENALTY = of_nat ((5 * 255) div 100)"

definition default_stake_config :: stake_config where
  "default_stake_config =
     \<lparr>cfg_warmup_cooldown_rate = DEFAULT_WARMUP_COOLDOWN_RATE, cfg_slash_penalty = DEFAULT_SLASH_PENALTY\<rparr>"

definition default_lockup :: lockup where
  "default_lockup = \<lparr>lk_unix_timestamp = 0, lk_epoch = 0, lk_custodian = 0\<rparr>"

text \<open>\<open>size_of::<StakeState>()\<close>: the variant with a stake (120 + 72 bytes) and the tag, aligned to 8.\<close>

definition STAKE_STATE_SIZE :: nat where
  "STAKE_STATE_SIZE = 200"

section \<open>Parts of a state\<close>

definition stake_get_rent_exempt_reserve :: "rent \<Rightarrow> u64" where
  "stake_get_rent_exempt_reserve r = minimum_balance r STAKE_STATE_SIZE"

fun state_stake :: "stake_state \<Rightarrow> stake option" where
  "state_stake (Stake m st) = Some st"
| "state_stake _ = None"

fun state_delegation :: "stake_state \<Rightarrow> delegation option" where
  "state_delegation (Stake m st) = Some (st_delegation st)"
| "state_delegation _ = None"

fun state_authorized :: "stake_state \<Rightarrow> stake_authorized option" where
  "state_authorized (Stake m st) = Some (sm_authorized m)"
| "state_authorized (StakeInitialized m) = Some (sm_authorized m)"
| "state_authorized _ = None"

fun state_meta :: "stake_state \<Rightarrow> stake_meta option" where
  "state_meta (Stake m st) = Some m"
| "state_meta (StakeInitialized m) = Some m"
| "state_meta _ = None"

definition state_lockup :: "stake_state \<Rightarrow> lockup option" where
  "state_lockup st = map_option sm_lockup (state_meta st)"

section \<open>Lockup and authorities\<close>

definition is_in_force :: "lockup \<Rightarrow> clock \<Rightarrow> pubkey option \<Rightarrow> bool" where
  "is_in_force l c custodian =
     (if custodian = Some (lk_custodian l) then False
      else sint (unix_timestamp c) < sint (lk_unix_timestamp l) \<or> clock_epoch c < lk_epoch l)"

definition meta_set_lockup :: "lockup_args \<Rightarrow> pubkey set \<Rightarrow> stake_meta \<Rightarrow> stake_meta program_result" where
  "meta_set_lockup args signers m =
     (let l = sm_lockup m
      in if lk_custodian l \<notin> signers then Inl (Err MissingRequiredSignature)
         else Inr (m\<lparr>sm_lockup :=
           \<lparr>lk_unix_timestamp = (case la_unix_timestamp args of Some t \<Rightarrow> t | None \<Rightarrow> lk_unix_timestamp l),
            lk_epoch = (case la_epoch args of Some e \<Rightarrow> e | None \<Rightarrow> lk_epoch l),
            lk_custodian = (case la_custodian args of Some k \<Rightarrow> k | None \<Rightarrow> lk_custodian l)\<rparr>\<rparr>))"

definition rewrite_rent_exempt_reserve ::
  "rent \<Rightarrow> nat \<Rightarrow> stake_meta \<Rightarrow> stake_meta \<times> (u64 \<times> u64) option" where
  "rewrite_rent_exempt_reserve r data_len m =
     (let corrected = minimum_balance r data_len
      in if corrected \<noteq> rent_exempt_reserve m
         then (m\<lparr>rent_exempt_reserve := corrected\<rparr>, Some (rent_exempt_reserve m, corrected))
         else (m, None))"

definition authorized_auto :: "pubkey \<Rightarrow> stake_authorized" where
  "authorized_auto k = \<lparr>staker = k, withdrawer = k\<rparr>"

definition authorized_check ::
  "stake_authorized \<Rightarrow> pubkey set \<Rightarrow> stake_authorize \<Rightarrow> unit program_result" where
  "authorized_check a signers w =
     (case w of
        StakeStaker \<Rightarrow> if staker a \<in> signers then Inr () else Inl (Err MissingRequiredSignature)
      | StakeWithdrawer \<Rightarrow> if withdrawer a \<in> signers then Inr () else Inl (Err MissingRequiredSignature))"

definition authorized_authorize ::
  "pubkey set \<Rightarrow> pubkey \<Rightarrow> stake_authorize \<Rightarrow> stake_authorized \<Rightarrow> stake_authorized program_result" where
  "authorized_authorize signers new_authorized w a =
     (case w of
        StakeStaker \<Rightarrow>
          if staker a \<notin> signers \<and> withdrawer a \<notin> signers then Inl (Err MissingRequiredSignature)
          else Inr (a\<lparr>staker := new_authorized\<rparr>)
      | StakeWithdrawer \<Rightarrow>
          and_then (authorized_check a signers w) (\<lambda>_. Inr (a\<lparr>withdrawer := new_authorized\<rparr>)))"

section \<open>Warm-up and cool-down\<close>

definition default_delegation :: delegation where
  "default_delegation =
     \<lparr>voter_pubkey = 0, dl_stake = 0, activation_epoch = 0, deactivation_epoch = - 1,
      warmup_cooldown_rate = cfg_warmup_cooldown_rate default_stake_config\<rparr>"

definition delegation_new :: "pubkey \<Rightarrow> u64 \<Rightarrow> epoch \<Rightarrow> f64 \<Rightarrow> delegation" where
  "delegation_new voter amount activation rate =
     default_delegation\<lparr>voter_pubkey := voter, dl_stake := amount, activation_epoch := activation,
       warmup_cooldown_rate := rate\<rparr>"

definition is_bootstrap :: "delegation \<Rightarrow> bool" where
  "is_bootstrap d \<longleftrightarrow> activation_epoch d = - 1"

text \<open>
  The share of the cluster's change between two epochs that falls to \<open>amount\<close> of the \<open>waiting\<close> stake,
  at least one lamport.
\<close>

definition entitlement :: "f64 \<Rightarrow> u64 \<Rightarrow> u64 \<Rightarrow> u64 \<Rightarrow> u64" where
  "entitlement rate amount waiting cluster_effective =
     (let weight = f64_div (f64_of_u64 amount) (f64_of_u64 waiting);
          newly_cluster_stake = f64_mult (f64_of_u64 cluster_effective) rate
      in max (u64_of_f64 (f64_mult weight newly_cluster_stake)) 1)"

text \<open>The loops over the epochs; \<open>prev\<close> is the cluster's stake at \<open>prev_epoch\<close>.\<close>

function activating_loop ::
  "stake_history \<Rightarrow> delegation \<Rightarrow> epoch \<Rightarrow> epoch \<Rightarrow> stake_history_entry \<Rightarrow> u64 \<Rightarrow> u64" where
  "activating_loop h d target_epoch prev_epoch prev current_effective =
     (let current_epoch = prev_epoch + 1
      in if activating prev = 0 then current_effective
         else
           let remaining = dl_stake d - current_effective;
               new_effective = current_effective +
                 entitlement (warmup_cooldown_rate d) remaining (activating prev) (effective prev)
           in if dl_stake d \<le> new_effective then dl_stake d
              else if target_epoch \<le> current_epoch \<or> deactivation_epoch d \<le> current_epoch then new_effective
              else case stake_history_get h current_epoch of
                     Some current \<Rightarrow> activating_loop h d target_epoch current_epoch current new_effective
                   | None \<Rightarrow> new_effective)"
  by pat_completeness auto

definition epochs_left :: "epoch \<Rightarrow> epoch \<Rightarrow> nat" where
  "epochs_left target e = (if e = - 1 then unat target + 1 else unat target - unat e)"

lemma epochs_left_less: "\<not> target \<le> e + 1 \<Longrightarrow> epochs_left target (e + 1) < epochs_left target e"
proof -
  assume "\<not> target \<le> e + 1"
  then have less: "unat (e + 1) < unat target" by (simp add: word_le_nat_alt)
  have "unat (- 1 :: epoch) = 18446744073709551615" by (simp add: unsigned_minus_1_eq_mask mask_eq_exp_minus_1)
  then have "unat (e + 1) \<noteq> unat (- 1 :: epoch)" using less unat_lt2p_u64 [of target] by linarith
  then have "e + 1 \<noteq> - 1" by metis
  with less show ?thesis by (auto simp: epochs_left_def unat_succ)
qed

termination activating_loop
  by (relation "measure (\<lambda>(_, _, target, e, _). epochs_left target e)") (auto simp: epochs_left_less)

declare activating_loop.simps [simp del]

function deactivating_loop ::
  "stake_history \<Rightarrow> delegation \<Rightarrow> epoch \<Rightarrow> epoch \<Rightarrow> stake_history_entry \<Rightarrow> u64 \<Rightarrow> u64" where
  "deactivating_loop h d target_epoch prev_epoch prev current_effective =
     (let current_epoch = prev_epoch + 1
      in if deactivating prev = 0 then current_effective
         else
           let new_effective = saturating_sub current_effective
                 (entitlement (warmup_cooldown_rate d) current_effective (deactivating prev) (effective prev))
           in if new_effective = 0 then new_effective
              else if target_epoch \<le> current_epoch then new_effective
              else case stake_history_get h current_epoch of
                     Some current \<Rightarrow> deactivating_loop h d target_epoch current_epoch current new_effective
                   | None \<Rightarrow> new_effective)"
  by pat_completeness auto
termination
  by (relation "measure (\<lambda>(_, _, target, e, _). epochs_left target e)") (auto simp: epochs_left_less)

declare deactivating_loop.simps [simp del]

definition stake_and_activating ::
  "delegation \<Rightarrow> epoch \<Rightarrow> stake_history option \<Rightarrow> bool \<Rightarrow> u64 \<times> u64" where
  "stake_and_activating d target_epoch history fix_stake_deactivate =
     (if is_bootstrap d then (dl_stake d, 0)
      else if fix_stake_deactivate \<and> activation_epoch d = deactivation_epoch d then (0, 0)
      else if target_epoch = activation_epoch d then (0, dl_stake d)
      else if target_epoch < activation_epoch d then (0, 0)
      else case Option.bind history (\<lambda>h. map_option (Pair h) (stake_history_get h (activation_epoch d))) of
             Some (h, entry) \<Rightarrow>
               let e = activating_loop h d target_epoch (activation_epoch d) entry 0 in (e, dl_stake d - e)
           | None \<Rightarrow> (dl_stake d, 0))"

definition stake_activating_and_deactivating ::
  "delegation \<Rightarrow> epoch \<Rightarrow> stake_history option \<Rightarrow> bool \<Rightarrow> u64 \<times> u64 \<times> u64" where
  "stake_activating_and_deactivating d target_epoch history fix_stake_deactivate =
     (let (effective_stake, activating_stake) = stake_and_activating d target_epoch history fix_stake_deactivate
      in if target_epoch < deactivation_epoch d then (effective_stake, activating_stake, 0)
         else if target_epoch = deactivation_epoch d then (effective_stake, 0, min effective_stake (dl_stake d))
         else case Option.bind history (\<lambda>h. map_option (Pair h) (stake_history_get h (deactivation_epoch d))) of
                Some (h, entry) \<Rightarrow>
                  let e = deactivating_loop h d target_epoch (deactivation_epoch d) entry effective_stake
                  in (e, 0, e)
              | None \<Rightarrow> (0, 0, 0))"

definition delegation_stake :: "delegation \<Rightarrow> epoch \<Rightarrow> stake_history option \<Rightarrow> bool \<Rightarrow> u64" where
  "delegation_stake d e history fix_stake_deactivate =
     fst (stake_activating_and_deactivating d e history fix_stake_deactivate)"

definition rewrite_stake :: "u64 \<Rightarrow> u64 \<Rightarrow> delegation \<Rightarrow> delegation \<times> (u64 \<times> u64) option" where
  "rewrite_stake account_balance rent_exempt_balance d =
     (let corrected = saturating_sub account_balance rent_exempt_balance
      in if dl_stake d \<noteq> corrected then (d\<lparr>dl_stake := corrected\<rparr>, Some (dl_stake d, corrected)) else (d, None))"

section \<open>Points and rewards\<close>

definition stake_stake :: "stake \<Rightarrow> epoch \<Rightarrow> stake_history option \<Rightarrow> bool \<Rightarrow> u64" where
  "stake_stake st e history fix_stake_deactivate = delegation_stake (st_delegation st) e history fix_stake_deactivate"

text \<open>The body of the loop over the epochs with credits.\<close>

definition add_points ::
  "stake \<Rightarrow> stake_history option \<Rightarrow> bool \<Rightarrow> epoch \<times> u64 \<times> u64 \<Rightarrow> u128 \<times> u64 \<Rightarrow> u128 \<times> u64" where
  "add_points st history fix_stake_deactivate = (\<lambda>(e, final_epoch_credits, initial_epoch_credits) (points, new_credits_observed).
     let amount = ucast (delegation_stake (st_delegation st) e history fix_stake_deactivate) :: u128;
         earned_credits =
           (if credits_observed st < initial_epoch_credits then final_epoch_credits - initial_epoch_credits
            else if credits_observed st < final_epoch_credits then final_epoch_credits - new_credits_observed
            else 0)
     in (points + amount * ucast earned_credits, max new_credits_observed final_epoch_credits))"

definition calculate_points_and_credits ::
  "stake \<Rightarrow> vote_state \<Rightarrow> stake_history option \<Rightarrow> bool \<Rightarrow> u128 \<times> u64" where
  "calculate_points_and_credits st vs history fix_stake_deactivate =
     (if credits vs \<le> credits_observed st then
        if fix_stake_deactivate then (0, credits_observed st) else (0, 0)
      else fold (add_points st history fix_stake_deactivate) (epoch_credits vs) (0, credits_observed st))"

definition stake_calculate_points :: "stake \<Rightarrow> vote_state \<Rightarrow> stake_history option \<Rightarrow> bool \<Rightarrow> u128" where
  "stake_calculate_points st vs history fix_stake_deactivate =
     fst (calculate_points_and_credits st vs history fix_stake_deactivate)"

text \<open>\<open>None\<close> inside is no payout; the products and the conversion that are unwrapped may panic.\<close>

definition calculate_rewards ::
  "stake \<Rightarrow> point_value \<Rightarrow> vote_state \<Rightarrow> stake_history option \<Rightarrow> bool \<Rightarrow> (u64 \<times> u64 \<times> u64) option program_result" where
  "calculate_rewards st pv vs history fix_stake_deactivate =
     (let (points, new_credits) = calculate_points_and_credits st vs history fix_stake_deactivate
      in if pv_rewards pv = 0 \<and> fix_stake_deactivate then Inr (Some (0, 0, new_credits))
         else if points = 0 \<or> pv_points pv = 0 then Inr None
         else if 2 ^ 128 \<le> unat points * unat (pv_rewards pv) then Inl Panic
         else
           let rewards = points * ucast (pv_rewards pv) div pv_points pv
           in if 2 ^ 64 \<le> unat rewards then Inl Panic
              else if rewards = 0 then Inr None
              else
                let (voter_rewards, staker_rewards, is_split) = commission_split vs (ucast rewards)
                in if (voter_rewards = 0 \<or> staker_rewards = 0) \<and> is_split then Inr None
                   else Inr (Some (staker_rewards, voter_rewards, new_credits)))"

definition stake_redeem_rewards ::
  "point_value \<Rightarrow> vote_state \<Rightarrow> stake_history option \<Rightarrow> bool \<Rightarrow> stake \<Rightarrow> (stake \<times> u64 \<times> u64) option program_result" where
  "stake_redeem_rewards pv vs history fix_stake_deactivate st =
     and_then (calculate_rewards st pv vs history fix_stake_deactivate) (\<lambda>r.
       Inr (map_option (\<lambda>(stakers_reward, voters_reward, new_credits).
         (st\<lparr>credits_observed := new_credits,
             st_delegation := (st_delegation st)\<lparr>dl_stake := dl_stake (st_delegation st) + stakers_reward\<rparr>\<rparr>,
          stakers_reward, voters_reward)) r))"

section \<open>Changing a delegation\<close>

definition stake_new :: "u64 \<Rightarrow> pubkey \<Rightarrow> vote_state \<Rightarrow> epoch \<Rightarrow> stake_config \<Rightarrow> stake" where
  "stake_new amount voter vs activation cfg =
     \<lparr>st_delegation = delegation_new voter amount activation (cfg_warmup_cooldown_rate cfg),
      credits_observed = credits vs\<rparr>"

definition redelegate ::
  "u64 \<Rightarrow> pubkey \<Rightarrow> vote_state \<Rightarrow> clock \<Rightarrow> stake_history \<Rightarrow> stake_config \<Rightarrow> stake \<Rightarrow> (stake_error, stake) outcome" where
  "redelegate stake_lamports voter vs c history cfg st =
     (if stake_stake st (clock_epoch c) (Some history) True \<noteq> 0 then Inl (Err TooSoonToRedelegate)
      else Inr \<lparr>st_delegation =
                  \<lparr>voter_pubkey = voter, dl_stake = stake_lamports, activation_epoch = clock_epoch c,
                   deactivation_epoch = - 1, warmup_cooldown_rate = cfg_warmup_cooldown_rate cfg\<rparr>,
                credits_observed = credits vs\<rparr>)"

text \<open>The stake that stays and the one that is split off.\<close>

definition stake_split :: "u64 \<Rightarrow> u64 \<Rightarrow> stake \<Rightarrow> (stake_error, stake \<times> stake) outcome" where
  "stake_split remaining_stake_delta split_stake_amount st =
     (let d = st_delegation st
      in if dl_stake d < remaining_stake_delta then Inl (Err InsufficientStake)
         else
           let st' = st\<lparr>st_delegation := d\<lparr>dl_stake := dl_stake d - remaining_stake_delta\<rparr>\<rparr>
           in Inr (st', st'\<lparr>st_delegation := (st_delegation st')\<lparr>dl_stake := split_stake_amount\<rparr>\<rparr>))"

definition stake_deactivate :: "epoch \<Rightarrow> stake \<Rightarrow> (stake_error, stake) outcome" where
  "stake_deactivate e st =
     (let d = st_delegation st
      in if deactivation_epoch d \<noteq> - 1 then Inl (Err AlreadyDeactivated)
         else Inr (st\<lparr>st_delegation := d\<lparr>deactivation_epoch := e\<rparr>\<rparr>))"

definition calculate_split_rent_exempt_reserve :: "u64 \<Rightarrow> u64 \<Rightarrow> u64 \<Rightarrow> u64" where
  "calculate_split_rent_exempt_reserve source_rent_exempt_reserve source_data_len split_data_len =
     (let lamports_per_byte_year = source_rent_exempt_reserve div (source_data_len + ACCOUNT_STORAGE_OVERHEAD)
      in lamports_per_byte_year * (split_data_len + ACCOUNT_STORAGE_OVERHEAD))"

definition new_stake_history_entry ::
  "epoch \<Rightarrow> delegation list \<Rightarrow> stake_history option \<Rightarrow> bool \<Rightarrow> stake_history_entry" where
  "new_stake_history_entry e ds history fix_stake_deactivate =
     (let (eff, act, deact) =
            fold (\<lambda>d (x, y, z).
              case stake_activating_and_deactivating d e history fix_stake_deactivate of
                (x', y', z') \<Rightarrow> (x + x', y + y', z + z')) ds (0, 0, 0)
      in \<lparr>effective = eff, activating = act, deactivating = deact\<rparr>)"

section \<open>Warm-up and cool-down never create stake\<close>

lemma entitlement_pos: "1 \<le> entitlement rate amount waiting n"
  by (simp add: entitlement_def Let_def)

lemma activating_loop_le: "e \<le> dl_stake d \<Longrightarrow> activating_loop h d target prev_epoch prev e \<le> dl_stake d"
proof (induction h d target prev_epoch prev e rule: activating_loop.induct)
  case (1 h d target prev_epoch prev e)
  show ?case
    by (subst activating_loop.simps)
      (use 1 in \<open>auto simp: Let_def split: option.splits\<close>)
qed

lemma deactivating_loop_le: "deactivating_loop h d target prev_epoch prev e \<le> e"
proof (induction h d target prev_epoch prev e rule: deactivating_loop.induct)
  case (1 h d target prev_epoch prev e)
  show ?case
    by (subst deactivating_loop.simps)
      (use 1 in \<open>auto simp: Let_def saturating_sub_le split: option.splits intro: order.trans [OF _ saturating_sub_le]\<close>)
qed

end
