(* ===== verification/ConfigProgram.thy ===== *)
theory ConfigProgram
  imports SystemProgram
begin

text \<open>
  The config program (\<open>programs/config/src/config_processor.rs\<close>, \<open>lib.rs\<close>, \<open>config_instruction.rs\<close>):
  accounts whose data is a list of keys, some of them signers, followed by the configuration. The
  bincode encoding of the key list is the parameter \<open>C\<close>.
\<close>

section \<open>Data\<close>

type_synonym config_keys = "(pubkey \<times> bool) list"

definition config_program_id :: pubkey where
  "config_program_id = 0x03064aa3002f74dcc86e43310f0c052af8c5da27f6104019a323efa000000000"

text \<open>The bytes after the keys; slicing beyond the end panics.\<close>

definition get_config_data :: "config_keys serde \<Rightarrow> bytes \<Rightarrow> (unit, bytes) outcome" where
  "get_config_data C bs =
     (case de C bs of
        None \<Rightarrow> Inl (Err ())
      | Some (keys, _) \<Rightarrow>
          let offset = length (ser C keys)
          in if length bs < offset then Inl Panic else Inr (drop offset bs))"

definition create_config_account :: "config_keys serde \<Rightarrow> 'a serde \<Rightarrow> config_keys \<Rightarrow> 'a \<Rightarrow> u64 \<Rightarrow> account" where
  "create_config_account C D keys config_data amount =
     default_account\<lparr>lamports := amount, data := ser C keys @ ser D config_data, owner := config_program_id\<rparr>"

section \<open>The instruction processor\<close>

text \<open>One signer of the update: the state is the number of signers so far and the accounts left.\<close>

definition check_config_signer ::
  "keyed_account \<Rightarrow> config_keys \<Rightarrow> pubkey \<Rightarrow> nat \<times> keyed_account list \<Rightarrow> (nat \<times> keyed_account list) program_result" where
  "check_config_signer config current signer = (\<lambda>(counter, ks).
     if signer \<noteq> key config then
       (case ks of
          [] \<Rightarrow> Inl (Err MissingRequiredSignature)
        | k # ks' \<Rightarrow>
            (case signer_key k of
               None \<Rightarrow> Inl (Err MissingRequiredSignature)
             | Some sk \<Rightarrow>
                 if sk \<noteq> signer then Inl (Err MissingRequiredSignature)
                 else if current \<noteq> [] \<and> signer \<notin> set (map fst (filter snd current))
                 then Inl (Err MissingRequiredSignature)
                 else Inr (counter + 1, ks')))
     else if signer_key config = None then Inl (Err MissingRequiredSignature)
     else Inr (counter + 1, ks))"

definition config_process_instruction ::
  "config_keys serde \<Rightarrow> keyed_account list \<Rightarrow> bytes \<Rightarrow> store \<Rightarrow> store program_result" where
  "config_process_instruction C keyed_accounts bs s =
     and_then (limited_deserialize C bs) (\<lambda>key_list.
     and_then (next_keyed_account keyed_accounts) (\<lambda>(config, ks).
     and_then (ok_or (map_option fst (de C (data (s (acct config))))) (Err InvalidAccountData)) (\<lambda>current.
       let current_signer_keys = map fst (filter snd current)
       in if current_signer_keys = [] \<and> signer_key config = None then Inl (Err MissingRequiredSignature)
          else and_then (fold_result (check_config_signer config current) (map fst (filter snd key_list)) (0, ks))
            (\<lambda>(counter, _).
               if counter < length current_signer_keys then Inl (Err MissingRequiredSignature)
               else
                 let a = s (acct config)
                 in if length (data a) < length bs then Inl (Err InvalidInstructionData)
                    else Inr (s(acct config := a\<lparr>data := bs @ drop (length bs) (data a)\<rparr>))))))"

section \<open>Instruction builders\<close>

text \<open>An instruction carries the encoding of the keys followed by that of the configuration.\<close>

definition config_initialize_account :: "config_keys serde \<Rightarrow> 'a serde \<Rightarrow> 'a \<Rightarrow> pubkey \<Rightarrow> instruction" where
  "config_initialize_account C D default_config config_pubkey =
     \<lparr>program_id = config_program_id, accounts = [account_meta_new config_pubkey True], ix_data = ser C [] @ ser D default_config\<rparr>"

definition ix_config_create_account ::
  "config_keys serde \<Rightarrow> 'a serde \<Rightarrow> system_lib \<Rightarrow> u64 \<Rightarrow> 'a \<Rightarrow> pubkey \<Rightarrow> pubkey \<Rightarrow> u64 \<Rightarrow> config_keys \<Rightarrow> instruction list" where
  "ix_config_create_account C D S max_space default_config from_account_pubkey config_account_pubkey amount keys =
     [system_create_account S from_account_pubkey config_account_pubkey amount
        (max_space + of_nat (length (ser C keys))) config_program_id,
      config_initialize_account C D default_config config_account_pubkey]"

definition config_store :: "config_keys serde \<Rightarrow> 'a serde \<Rightarrow> pubkey \<Rightarrow> bool \<Rightarrow> config_keys \<Rightarrow> 'a \<Rightarrow> instruction" where
  "config_store C D config_pubkey is_config_signer keys x =
     \<lparr>program_id = config_program_id,
      accounts = account_meta_new config_pubkey is_config_signer #
        map (\<lambda>(k, _). account_meta_new k True) (filter (\<lambda>(k, signer). signer \<and> k \<noteq> config_pubkey) keys),
      ix_data = ser C keys @ ser D x\<rparr>"

section \<open>Who must have signed\<close>

lemma check_config_signer_Inr:
  "check_config_signer config current k (n, ks) = Inr (n', ks') \<Longrightarrow>
     n' = n + 1 \<and> (\<exists>used. ks = used @ ks') \<and>
     k \<in> get_signers (config # ks) \<and> (k = key config \<or> current = [] \<or> k \<in> set (map fst (filter snd current)))"
  by (auto simp: check_config_signer_def signer_key_def get_signers_def List.map_filter_def
    split: if_splits list.splits option.splits)

lemma check_config_signers:
  "fold_result (check_config_signer config current) xs (n, ks) = Inr (n', ks') \<Longrightarrow>
     n' = n + length xs \<and> (\<exists>used. ks = used @ ks') \<and>
     (\<forall>k\<in>set xs. k \<in> get_signers (config # ks) \<and> (k = key config \<or> current = [] \<or> k \<in> set (map fst (filter snd current))))"
proof (induction xs arbitrary: n ks)
  case (Cons x xs)
  obtain m ks1 where step: "check_config_signer config current x (n, ks) = Inr (m, ks1)"
    "fold_result (check_config_signer config current) xs (m, ks1) = Inr (n', ks')"
    using Cons.prems by (auto simp: and_then_Inr_iff)
  from check_config_signer_Inr [OF step(1)] obtain used where one: "m = n + 1" "ks = used @ ks1"
    "x \<in> get_signers (config # ks)" "x = key config \<or> current = [] \<or> x \<in> set (map fst (filter snd current))"
    by blast
  have "get_signers (config # ks1) \<subseteq> get_signers (config # ks)"
    by (auto simp: one(2) get_signers_def List.map_filter_def split: option.splits)
  with one Cons.IH [OF step(2)] show ?case by auto
qed simp

lemma config_run:
  assumes "config_process_instruction C (config # ks) bs s = Inr s'"
  obtains keys current n ks' where "limited_deserialize C bs = Inr keys"
    "map_option fst (de C (data (s (acct config)))) = Some current"
    "fold_result (check_config_signer config current) (map fst (filter snd keys)) (0, ks) = Inr (n, ks')"
    "length (map fst (filter snd current)) \<le> n" "length bs \<le> length (data (s (acct config)))"
    "s' = s(acct config := (s (acct config))\<lparr>data := bs @ drop (length bs) (data (s (acct config)))\<rparr>)"
  using assms by (auto simp: config_process_instruction_def and_then_Inr_iff Let_def not_less split: if_splits)

text \<open>
  An update of a config account is signed by all the signers stored in it, provided the update
  names each of its signers once and does not make the account itself a signer when it was none.
\<close>

theorem config_update_signed:
  assumes "config_process_instruction C (config # ks) bs s = Inr s'"
    and "limited_deserialize C bs = Inr keys" and "de C (data (s (acct config))) = Some (current, rest)"
    and "distinct (map fst (filter snd keys))"
    and "(key config, True) \<in> set keys \<longrightarrow> (key config, True) \<in> set current"
  shows "set (map fst (filter snd current)) \<subseteq> get_signers (config # ks)"
proof -
  let ?xs = "map fst (filter snd keys)" and ?cur = "map fst (filter snd current)"
  from assms(1) obtain n ks' where
    fold: "fold_result (check_config_signer config current) ?xs (0, ks) = Inr (n, ks')" and n: "length ?cur \<le> n"
    by (rule config_run) (use assms(2,3) in auto)
  note signers = check_config_signers [OF fold]
  show ?thesis
  proof (cases "current = []")
    case False
    have self: "key config \<in> set ?xs \<longrightarrow> key config \<in> set ?cur" using assms(5) by force
    have sub: "set ?xs \<subseteq> set ?cur"
    proof
      fix k assume k: "k \<in> set ?xs"
      with signers have "k = key config \<or> current = [] \<or> k \<in> set ?cur" by blast
      with k self False show "k \<in> set ?cur" by blast
    qed
    have "card (set ?cur) \<le> length ?cur" by (rule card_length)
    also have "\<dots> \<le> card (set ?xs)" using n signers distinct_card [OF assms(4)] by simp
    finally have "set ?xs = set ?cur" by (intro card_subset_eq sub) (use card_mono [OF _ sub] in auto)
    with signers show ?thesis by blast
  qed simp
qed

text \<open>
  (C26) Without that, an update needs fewer signatures than are stored: an account whose data stores two
  signers can be overwritten by one of them alone, by naming that signer twice.
\<close>

theorem config_one_signer_twice:
  assumes C: "serde_ok C" and stored: "data (s (acct config)) = ser C [(a, True), (b, True)] @ rest"
    and size: "length (ser C [(a, True), (a, True)]) \<le> min PACKET_DATA_SIZE (length (data (s (acct config))))"
    and k: "is_signer k" "key k = a" "a \<noteq> key config"
  shows "config_process_instruction C [config, k, k] (ser C [(a, True), (a, True)]) s =
    Inr (s(acct config := (s (acct config))\<lparr>data := ser C [(a, True), (a, True)] @
      drop (length (ser C [(a, True), (a, True)])) (data (s (acct config)))\<rparr>))"
proof -
  have "limited_deserialize C (ser C [(a, True), (a, True)]) = Inr [(a, True), (a, True)]"
    using size by (intro limited_deserialize_ser [OF C]) simp
  moreover have "de C (data (s (acct config))) = Some ([(a, True), (b, True)], rest)"
    unfolding stored by (rule codec.dec_enc [OF C])
  ultimately show ?thesis
    using k size by (simp add: config_process_instruction_def next_keyed_account_def check_config_signer_def
      signer_key_def not_less Let_def)
qed

section \<open>A concrete instance\<close>

definition config_keys_serde :: "config_keys serde" where
  "config_keys_serde = \<lparr>ser = enc_list (enc_pair enc_key enc_bool), de = dec_list (dec_pair dec_key dec_bool)\<rparr>"

interpretation config_keys: codec "ser config_keys_serde" "de config_keys_serde"
  unfolding config_keys_serde_def serde.simps by (intro codec_rules)

definition config_key :: keyed_account where
  "config_key = \<lparr>is_signer = False, is_writable = True, key = 8, acct = 1\<rparr>"

definition config_signer :: keyed_account where
  "config_signer = \<lparr>is_signer = True, is_writable = False, key = 5, acct = 2\<rparr>"

definition config_demo :: "config_keys \<Rightarrow> store" where
  "config_demo keys r = default_account\<lparr>data := ser config_keys_serde keys, owner := config_program_id\<rparr>"

lemma config_ser_length: "length (ser config_keys_serde [(a, x), (b, y)]) = length (ser config_keys_serde [(a', x'), (b', y')])"
  by (simp add: config_keys_serde_def enc_pair_def enc_bool_def)

theorem config_update_signed_witness:
  "\<exists>s'. config_process_instruction config_keys_serde [config_key, config_signer] (ser config_keys_serde [(5, True)])
     (config_demo [(5, True)]) = Inr s' \<and> {5} \<subseteq> get_signers [config_key, config_signer]"
proof -
  let ?bs = "ser config_keys_serde [(5, True)]" and ?s = "config_demo [(5, True)]"
  have de: "de config_keys_serde (data (?s (acct config_key))) = Some ([(5, True)], [])"
    using config_keys.dec_enc_exact by (simp add: config_demo_def)
  have "length ?bs \<le> PACKET_DATA_SIZE" by (simp add: config_keys_serde_def enc_pair_def enc_bool_def PACKET_DATA_SIZE_def)
  from limited_deserialize_ser [OF config_keys.codec_axioms this]
  have ix: "limited_deserialize config_keys_serde ?bs = Inr [(5, True)]" .
  then obtain s' where run: "config_process_instruction config_keys_serde [config_key, config_signer] ?bs ?s = Inr s'"
    using de by (simp add: config_process_instruction_def next_keyed_account_def check_config_signer_def signer_key_def
      config_key_def config_signer_def Let_def) (simp add: config_demo_def)
  from config_update_signed [OF run ix de] run show ?thesis by (simp add: config_key_def)
qed

theorem config_one_signer_twice_witness:
  "\<exists>s'. config_process_instruction config_keys_serde [config_key, config_signer, config_signer]
     (ser config_keys_serde [(5, True), (5, True)]) (config_demo [(5, True), (6, True)]) = Inr s' \<and>
   6 \<notin> get_signers [config_key, config_signer, config_signer]"
proof -
  have "length (ser config_keys_serde [(5, True), (5, True)])
      \<le> min PACKET_DATA_SIZE (length (data (config_demo [(5, True), (6, True)] (acct config_key))))"
    by (simp add: config_demo_def config_keys_serde_def enc_pair_def enc_bool_def PACKET_DATA_SIZE_def)
  from config_one_signer_twice [of config_keys_serde "config_demo [(5, True), (6, True)]" config_key 5 6 "[]" config_signer, OF config_keys.codec_axioms _ this]
  show ?thesis
    by (simp add: config_demo_def config_key_def config_signer_def get_signers_def signer_key_def List.map_filter_def)
qed

end
