(* ===== verification/StakeAccount.thy ===== *)
theory StakeAccount
  imports StakeState ConfigProgram PubkeyDerive
begin

text \<open>
  The operations on stake accounts (the trait \<open>StakeAccount\<close>, \<open>MergeKind\<close> and the functions the runtime
  calls, in \<open>programs/stake/src/stake_state.rs\<close>, and \<open>config.rs\<close>). The encodings and the hash come from
  crates outside the repository; the record \<open>stake_lib\<close> passes them in.
\<close>

datatype stake_instruction =
    StakeInitialize stake_authorized lockup
  | StakeAuthorize pubkey stake_authorize
  | DelegateStake
  | StakeSplit u64
  | StakeWithdraw u64
  | StakeDeactivate
  | SetLockup lockup_args
  | StakeMerge
  | StakeAuthorizeWithSeed pubkey stake_authorize bytes pubkey

record stake_lib =
  stk_state :: "stake_state serde"
  stk_vote :: "vote_state_versions serde"
  stk_instruction :: "stake_instruction serde"
  stk_rent :: "rent serde"
  stk_clock :: "clock serde"
  stk_history :: "stake_history serde"
  stk_config_keys :: "config_keys serde"
  stk_config :: "stake_config serde"
  stk_sha256 :: "bytes \<Rightarrow> hash"

definition stake_result :: "(stake_error, 'a) outcome \<Rightarrow> 'a program_result" where
  "stake_result r =
     (case r of Inl (Err e) \<Rightarrow> Inl (Err (stake_error_code e)) | Inl Panic \<Rightarrow> Inl Panic | Inr x \<Rightarrow> Inr x)"

section \<open>The stake configuration\<close>

definition stake_config_id :: pubkey where
  "stake_config_id = 0x06a1d817a502050b680791e6ce6db88e1e5b7150f61fc6790a4eb4d100000000"

definition config_from :: "stake_lib \<Rightarrow> account \<Rightarrow> (unit, stake_config) outcome" where
  "config_from L a =
     and_then (get_config_data (stk_config_keys L) (data a)) (\<lambda>bs.
       ok_or (map_option fst (de (stk_config L) bs)) (Err ()))"

definition config_from_keyed_account :: "stake_lib \<Rightarrow> store \<Rightarrow> keyed_account \<Rightarrow> stake_config program_result" where
  "config_from_keyed_account L s k =
     (if key k \<noteq> stake_config_id then Inl (Err InvalidArgument)
      else case config_from L (s (acct k)) of
             Inl (Err _) \<Rightarrow> Inl (Err InvalidArgument)
           | Inl Panic \<Rightarrow> Inl Panic
           | Inr cfg \<Rightarrow> Inr cfg)"

definition config_create_account :: "stake_lib \<Rightarrow> u64 \<Rightarrow> stake_config \<Rightarrow> account" where
  "config_create_account L amount cfg = create_config_account (stk_config_keys L) (stk_config L) [] cfg amount"

section \<open>Reading an account\<close>

definition state_from :: "stake_lib \<Rightarrow> account \<Rightarrow> stake_state option" where
  "state_from L a = (case get_state (stk_state L) a of Inl _ \<Rightarrow> None | Inr st \<Rightarrow> Some st)"

definition stake_from :: "stake_lib \<Rightarrow> account \<Rightarrow> stake option" where
  "stake_from L a = Option.bind (state_from L a) state_stake"

definition delegation_from :: "stake_lib \<Rightarrow> account \<Rightarrow> delegation option" where
  "delegation_from L a = Option.bind (state_from L a) state_delegation"

definition authorized_from :: "stake_lib \<Rightarrow> account \<Rightarrow> stake_authorized option" where
  "authorized_from L a = Option.bind (state_from L a) state_authorized"

definition lockup_from :: "stake_lib \<Rightarrow> account \<Rightarrow> lockup option" where
  "lockup_from L a = Option.bind (state_from L a) state_lockup"

definition meta_from :: "stake_lib \<Rightarrow> account \<Rightarrow> stake_meta option" where
  "meta_from L a = Option.bind (state_from L a) state_meta"

section \<open>Handlers\<close>

abbreviation read_stake :: "stake_lib \<Rightarrow> store \<Rightarrow> keyed_account \<Rightarrow> stake_state program_result" where
  "read_stake L s k \<equiv> keyed_state (stk_state L) s k"

abbreviation write_stake :: "stake_lib \<Rightarrow> keyed_account \<Rightarrow> stake_state \<Rightarrow> store \<Rightarrow> store program_result" where
  "write_stake L k st s \<equiv> keyed_set_state (stk_state L) k st s"

definition initialize_stake ::
  "stake_lib \<Rightarrow> keyed_account \<Rightarrow> stake_authorized \<Rightarrow> lockup \<Rightarrow> rent \<Rightarrow> store \<Rightarrow> store program_result" where
  "initialize_stake L me authorized lock r s =
     (if length (data (s (acct me))) \<noteq> STAKE_STATE_SIZE then Inl (Err InvalidAccountData)
      else and_then (read_stake L s me) (\<lambda>st.
        case st of
          StakeUninitialized \<Rightarrow>
            let reserve = minimum_balance r (length (data (s (acct me))))
            in if reserve < lamports (s (acct me))
               then write_stake L me (StakeInitialized
                      \<lparr>rent_exempt_reserve = reserve, sm_authorized = authorized, sm_lockup = lock\<rparr>) s
               else Inl (Err InsufficientFunds)
        | _ \<Rightarrow> Inl (Err InvalidAccountData)))"

definition authorize_stake ::
  "stake_lib \<Rightarrow> keyed_account \<Rightarrow> pubkey set \<Rightarrow> pubkey \<Rightarrow> stake_authorize \<Rightarrow> store \<Rightarrow> store program_result" where
  "authorize_stake L me signers new_authority w s =
     and_then (read_stake L s me) (\<lambda>st.
       case st of
         Stake m stk \<Rightarrow>
           and_then (authorized_authorize signers new_authority w (sm_authorized m)) (\<lambda>a.
             write_stake L me (Stake (m\<lparr>sm_authorized := a\<rparr>) stk) s)
       | StakeInitialized m \<Rightarrow>
           and_then (authorized_authorize signers new_authority w (sm_authorized m)) (\<lambda>a.
             write_stake L me (StakeInitialized (m\<lparr>sm_authorized := a\<rparr>)) s)
       | _ \<Rightarrow> Inl (Err InvalidAccountData))"

definition authorize_stake_with_seed ::
  "stake_lib \<Rightarrow> keyed_account \<Rightarrow> keyed_account \<Rightarrow> bytes \<Rightarrow> pubkey \<Rightarrow> pubkey \<Rightarrow> stake_authorize \<Rightarrow> store \<Rightarrow> store program_result" where
  "authorize_stake_with_seed L me authority_base authority_seed authority_owner new_authority w s =
     and_then
       (case signer_key authority_base of
          None \<Rightarrow> Inr {}
        | Some base \<Rightarrow>
            (case create_with_seed (stk_sha256 L) base authority_seed authority_owner of
               Inl e \<Rightarrow> Inl (Err (pubkey_error_code e))
             | Inr k \<Rightarrow> Inr {k}))
       (\<lambda>signers. authorize_stake L me signers new_authority w s)"

definition read_vote :: "stake_lib \<Rightarrow> store \<Rightarrow> keyed_account \<Rightarrow> vote_state program_result" where
  "read_vote L s k = and_then (keyed_state (stk_vote L) s k) (\<lambda>v. Inr (convert_to_current v))"

definition delegate_stake_account ::
  "stake_lib \<Rightarrow> keyed_account \<Rightarrow> keyed_account \<Rightarrow> clock \<Rightarrow> stake_history \<Rightarrow> stake_config \<Rightarrow> pubkey set \<Rightarrow> store \<Rightarrow>
     store program_result" where
  "delegate_stake_account L me vote_account c history cfg signers s =
     (if owner (s (acct vote_account)) \<noteq> vote_program_id then Inl (Err IncorrectProgramId)
      else and_then (read_stake L s me) (\<lambda>st.
        case st of
          StakeInitialized m \<Rightarrow>
            and_then (authorized_check (sm_authorized m) signers StakeStaker) (\<lambda>_.
            and_then (read_vote L s vote_account) (\<lambda>vs.
              let stk = stake_new (saturating_sub (lamports (s (acct me))) (rent_exempt_reserve m))
                    (key vote_account) vs (clock_epoch c) cfg
              in write_stake L me (Stake m stk) s))
        | Stake m stk \<Rightarrow>
            and_then (authorized_check (sm_authorized m) signers StakeStaker) (\<lambda>_.
            and_then (read_vote L s vote_account) (\<lambda>vs.
            and_then (stake_result (redelegate (saturating_sub (lamports (s (acct me))) (rent_exempt_reserve m))
                (key vote_account) vs c history cfg stk)) (\<lambda>stk'.
              write_stake L me (Stake m stk') s)))
        | _ \<Rightarrow> Inl (Err InvalidAccountData)))"

definition deactivate_stake_account ::
  "stake_lib \<Rightarrow> keyed_account \<Rightarrow> clock \<Rightarrow> pubkey set \<Rightarrow> store \<Rightarrow> store program_result" where
  "deactivate_stake_account L me c signers s =
     and_then (read_stake L s me) (\<lambda>st.
       case st of
         Stake m stk \<Rightarrow>
           and_then (authorized_check (sm_authorized m) signers StakeStaker) (\<lambda>_.
           and_then (stake_result (stake_deactivate (clock_epoch c) stk)) (\<lambda>stk'.
             write_stake L me (Stake m stk') s))
       | _ \<Rightarrow> Inl (Err InvalidAccountData))"

definition set_stake_lockup ::
  "stake_lib \<Rightarrow> keyed_account \<Rightarrow> lockup_args \<Rightarrow> pubkey set \<Rightarrow> store \<Rightarrow> store program_result" where
  "set_stake_lockup L me args signers s =
     and_then (read_stake L s me) (\<lambda>st.
       case st of
         StakeInitialized m \<Rightarrow>
           and_then (meta_set_lockup args signers m) (\<lambda>m'. write_stake L me (StakeInitialized m') s)
       | Stake m stk \<Rightarrow>
           and_then (meta_set_lockup args signers m) (\<lambda>m'. write_stake L me (Stake m' stk) s)
       | _ \<Rightarrow> Inl (Err InvalidAccountData))"

section \<open>Splitting\<close>

text \<open>
  The arm for a delegated stake. \<open>missing\<close> is what the new account still needs to be rent-exempt; a full
  split moves the whole balance.
\<close>

definition split_delegated ::
  "stake_lib \<Rightarrow> keyed_account \<Rightarrow> u64 \<Rightarrow> keyed_account \<Rightarrow> pubkey set \<Rightarrow> stake_meta \<Rightarrow> stake \<Rightarrow> store \<Rightarrow> store program_result" where
  "split_delegated L me amount split signers m stk s =
     and_then (authorized_check (sm_authorized m) signers StakeStaker) (\<lambda>_.
       let balance = lamports (s (acct me));
           split_reserve = calculate_split_rent_exempt_reserve (rent_exempt_reserve m)
             (of_nat (length (data (s (acct me))))) (of_nat (length (data (s (acct split)))));
           missing = saturating_sub split_reserve (lamports (s (acct split)))
       in if amount < missing \<or> (amount < split_reserve \<and> amount = balance) \<or>
             (amount \<noteq> balance \<and> (balance \<le> amount + rent_exempt_reserve m \<or> amount \<le> missing))
          then Inl (Err InsufficientFunds)
          else
            let (remaining_stake_delta, split_stake_amount) =
                  (if amount = balance then
                     let delta = saturating_sub amount (rent_exempt_reserve m)
                     in (delta, min (amount - split_reserve) delta)
                   else (amount, amount - missing))
            in and_then (stake_result (stake_split remaining_stake_delta split_stake_amount stk)) (\<lambda>(stk', split_stk).
               and_then (write_stake L me (Stake m stk') s) (\<lambda>s1.
                 write_stake L split (Stake (m\<lparr>rent_exempt_reserve := split_reserve\<rparr>) split_stk) s1)))"

definition split_initialized ::
  "stake_lib \<Rightarrow> keyed_account \<Rightarrow> u64 \<Rightarrow> keyed_account \<Rightarrow> pubkey set \<Rightarrow> stake_meta \<Rightarrow> store \<Rightarrow> store program_result" where
  "split_initialized L me amount split signers m s =
     and_then (authorized_check (sm_authorized m) signers StakeStaker) (\<lambda>_.
       let balance = lamports (s (acct me));
           split_reserve = calculate_split_rent_exempt_reserve (rent_exempt_reserve m)
             (of_nat (length (data (s (acct me))))) (of_nat (length (data (s (acct split)))));
           missing = saturating_sub split_reserve (lamports (s (acct split)))
       in if amount < split_reserve \<or>
             (amount \<noteq> balance \<and> (balance \<le> amount + rent_exempt_reserve m \<or> amount \<le> missing))
          then Inl (Err InsufficientFunds)
          else write_stake L split (StakeInitialized (m\<lparr>rent_exempt_reserve := split_reserve\<rparr>)) s)"

definition split_stake_account ::
  "stake_lib \<Rightarrow> keyed_account \<Rightarrow> u64 \<Rightarrow> keyed_account \<Rightarrow> pubkey set \<Rightarrow> store \<Rightarrow> store program_result" where
  "split_stake_account L me amount split signers s =
     (if owner (s (acct split)) \<noteq> stake_program_id then Inl (Err IncorrectProgramId)
      else and_then (read_stake L s split) (\<lambda>split_state.
        if split_state \<noteq> StakeUninitialized then Inl (Err InvalidAccountData)
        else if lamports (s (acct me)) < amount then Inl (Err InsufficientFunds)
        else and_then (read_stake L s me) (\<lambda>st.
             and_then
               (case st of
                  Stake m stk \<Rightarrow> split_delegated L me amount split signers m stk s
                | StakeInitialized m \<Rightarrow> split_initialized L me amount split signers m s
                | StakeUninitialized \<Rightarrow>
                    if key me \<notin> signers then Inl (Err MissingRequiredSignature) else Inr s
                | RewardsPool \<Rightarrow> Inl (Err InvalidAccountData)) (\<lambda>s1.
             and_then
               (if amount = lamports (s1 (acct me)) then write_stake L me StakeUninitialized s1 else Inr s1) (\<lambda>s2.
               Inr (debit (acct me) amount (credit (acct split) amount s2)))))))"

section \<open>Merging\<close>

datatype merge_kind =
    Inactive stake_meta u64
  | ActivationEpoch stake_meta stake
  | FullyActive stake_meta stake

fun mk_meta :: "merge_kind \<Rightarrow> stake_meta" where
  "mk_meta (Inactive m _) = m"
| "mk_meta (ActivationEpoch m _) = m"
| "mk_meta (FullyActive m _) = m"

fun active_stake :: "merge_kind \<Rightarrow> stake option" where
  "active_stake (Inactive _ _) = None"
| "active_stake (ActivationEpoch _ stk) = Some stk"
| "active_stake (FullyActive _ stk) = Some stk"

definition get_if_mergeable ::
  "stake_lib \<Rightarrow> keyed_account \<Rightarrow> clock \<Rightarrow> stake_history \<Rightarrow> store \<Rightarrow> merge_kind program_result" where
  "get_if_mergeable L k c history s =
     and_then (read_stake L s k) (\<lambda>st.
       case st of
         Stake m stk \<Rightarrow>
           (case stake_activating_and_deactivating (st_delegation stk) (clock_epoch c) (Some history) True of
              (e, a, d) \<Rightarrow>
                if e = 0 \<and> a = 0 \<and> d = 0 then Inr (Inactive m (lamports (s (acct k))))
                else if e = 0 then Inr (ActivationEpoch m stk)
                else if a = 0 \<and> d = 0 then Inr (FullyActive m stk)
                else Inl (Err (stake_error_code MergeTransientStake)))
       | StakeInitialized m \<Rightarrow> Inr (Inactive m (lamports (s (acct k))))
       | _ \<Rightarrow> Inl (Err InvalidAccountData))"

definition metas_can_merge :: "stake_meta \<Rightarrow> stake_meta \<Rightarrow> unit program_result" where
  "metas_can_merge m source =
     (if sm_authorized m = sm_authorized source \<and> sm_lockup m = sm_lockup source then Inr ()
      else Inl (Err (stake_error_code MergeMismatch)))"

definition active_delegations_can_merge :: "delegation \<Rightarrow> delegation \<Rightarrow> unit program_result" where
  "active_delegations_can_merge d source =
     (if voter_pubkey d = voter_pubkey source \<and>
         f64_less (f64_abs (f64_sub (warmup_cooldown_rate d) (warmup_cooldown_rate source))) f64_EPSILON \<and>
         deactivation_epoch d = - 1 \<and> deactivation_epoch source = - 1
      then Inr () else Inl (Err (stake_error_code MergeMismatch)))"

definition active_stakes_can_merge :: "stake \<Rightarrow> stake \<Rightarrow> unit program_result" where
  "active_stakes_can_merge stk source =
     and_then (active_delegations_can_merge (st_delegation stk) (st_delegation source)) (\<lambda>_.
       if credits_observed stk = credits_observed source then Inr ()
       else Inl (Err (stake_error_code MergeMismatch)))"

definition add_stake :: "u64 \<Rightarrow> stake \<Rightarrow> stake" where
  "add_stake n stk = stk\<lparr>st_delegation := (st_delegation stk)\<lparr>dl_stake := dl_stake (st_delegation stk) + n\<rparr>\<rparr>"

definition merge_kinds :: "merge_kind \<Rightarrow> merge_kind \<Rightarrow> stake_state option program_result" where
  "merge_kinds a b =
     and_then (metas_can_merge (mk_meta a) (mk_meta b)) (\<lambda>_.
     and_then (case (active_stake a, active_stake b) of
         (Some stk, Some source) \<Rightarrow> active_stakes_can_merge stk source | _ \<Rightarrow> Inr ()) (\<lambda>_.
       case (a, b) of
         (Inactive _ _, Inactive _ _) \<Rightarrow> Inr None
       | (Inactive _ _, ActivationEpoch _ _) \<Rightarrow> Inr None
       | (ActivationEpoch m stk, Inactive _ source_lamports) \<Rightarrow> Inr (Some (Stake m (add_stake source_lamports stk)))
       | (ActivationEpoch m stk, ActivationEpoch source_meta source_stake) \<Rightarrow>
           Inr (Some (Stake m (add_stake (rent_exempt_reserve source_meta + dl_stake (st_delegation source_stake)) stk)))
       | (FullyActive m stk, FullyActive _ source_stake) \<Rightarrow>
           Inr (Some (Stake m (add_stake (dl_stake (st_delegation source_stake)) stk)))
       | _ \<Rightarrow> Inl (Err (stake_error_code MergeMismatch))))"

definition merge_stake_accounts ::
  "stake_lib \<Rightarrow> keyed_account \<Rightarrow> keyed_account \<Rightarrow> clock \<Rightarrow> stake_history \<Rightarrow> pubkey set \<Rightarrow> store \<Rightarrow> store program_result" where
  "merge_stake_accounts L me source c history signers s =
     (if owner (s (acct source)) \<noteq> stake_program_id then Inl (Err IncorrectProgramId)
      else if key source = key me then Inl (Err InvalidArgument)
      else and_then (get_if_mergeable L me c history s) (\<lambda>kind.
           and_then (authorized_check (sm_authorized (mk_meta kind)) signers StakeStaker) (\<lambda>_.
           and_then (get_if_mergeable L source c history s) (\<lambda>source_kind.
           and_then (merge_kinds kind source_kind) (\<lambda>merged.
           and_then (case merged of Some st \<Rightarrow> write_stake L me st s | None \<Rightarrow> Inr s) (\<lambda>s1.
           and_then (write_stake L source StakeUninitialized s1) (\<lambda>s2.
             let amount = lamports (s2 (acct source))
             in Inr (credit (acct me) amount (debit (acct source) amount s2)))))))))"

section \<open>Withdrawing\<close>

text \<open>The lockup, what must stay in the account, and whether some of it is staked.\<close>

definition withdraw_limits ::
  "stake_lib \<Rightarrow> keyed_account \<Rightarrow> clock \<Rightarrow> stake_history \<Rightarrow> pubkey set \<Rightarrow> store \<Rightarrow> (lockup \<times> u64 \<times> bool) program_result" where
  "withdraw_limits L me c history signers s =
     and_then (read_stake L s me) (\<lambda>st.
       case st of
         Stake m stk \<Rightarrow>
           and_then (authorized_check (sm_authorized m) signers StakeWithdrawer) (\<lambda>_.
             let d = st_delegation stk;
                 staked = (if deactivation_epoch d \<le> clock_epoch c
                   then delegation_stake d (clock_epoch c) (Some history) True else dl_stake d)
             in Inr (sm_lockup m, staked + rent_exempt_reserve m, staked \<noteq> 0))
       | StakeInitialized m \<Rightarrow>
           and_then (authorized_check (sm_authorized m) signers StakeWithdrawer) (\<lambda>_.
             Inr (sm_lockup m, rent_exempt_reserve m, False))
       | StakeUninitialized \<Rightarrow>
           if key me \<notin> signers then Inl (Err MissingRequiredSignature) else Inr (default_lockup, 0, False)
       | RewardsPool \<Rightarrow> Inl (Err InvalidAccountData))"

definition withdraw_stake ::
  "stake_lib \<Rightarrow> keyed_account \<Rightarrow> u64 \<Rightarrow> keyed_account \<Rightarrow> clock \<Rightarrow> stake_history \<Rightarrow> keyed_account \<Rightarrow> keyed_account option \<Rightarrow>
     store \<Rightarrow> store program_result" where
  "withdraw_stake L me amount to c history withdraw_authority custodian s =
     and_then (ok_or (signer_key withdraw_authority) (Err MissingRequiredSignature)) (\<lambda>authority.
     and_then (withdraw_limits L me c history {authority} s) (\<lambda>(lock, reserve, is_staked).
       let balance = lamports (s (acct me))
       in if is_in_force lock c (Option.bind custodian signer_key) then Inl (Err (stake_error_code LockupInForce))
          else if is_staked \<and> balance < amount + reserve then Inl (Err InsufficientFunds)
          else if amount \<noteq> balance \<and> balance < amount + reserve
          then if is_staked then Inl Panic else Inl (Err InsufficientFunds)
          else and_then (if amount = balance then write_stake L me StakeUninitialized s else Inr s) (\<lambda>s1.
            Inr (credit (acct to) amount (debit (acct me) amount s1)))))"

section \<open>Functions the runtime calls\<close>

definition redeem_rewards ::
  "stake_lib \<Rightarrow> account \<Rightarrow> account \<Rightarrow> point_value \<Rightarrow> stake_history option \<Rightarrow> bool \<Rightarrow>
     (account \<times> account \<times> u64 \<times> u64) program_result" where
  "redeem_rewards L stake_account vote_account pv history fix_stake_deactivate =
     and_then (get_state (stk_state L) stake_account) (\<lambda>st.
       case st of
         Stake m stk \<Rightarrow>
           and_then (get_state (stk_vote L) vote_account) (\<lambda>v.
           and_then (stake_redeem_rewards pv (convert_to_current v) history fix_stake_deactivate stk) (\<lambda>r.
             case r of
               Some (stk', stakers_reward, voters_reward) \<Rightarrow>
                 and_then (set_state (stk_state L) (Stake m stk')
                     (stake_account\<lparr>lamports := lamports stake_account + stakers_reward\<rparr>)) (\<lambda>a.
                   Inr (a, vote_account\<lparr>lamports := lamports vote_account + voters_reward\<rparr>, stakers_reward, voters_reward))
             | None \<Rightarrow> Inl (Err (stake_error_code NoCreditsToRedeem))))
       | _ \<Rightarrow> Inl (Err InvalidAccountData))"

definition calculate_points ::
  "stake_lib \<Rightarrow> account \<Rightarrow> account \<Rightarrow> stake_history option \<Rightarrow> bool \<Rightarrow> u128 program_result" where
  "calculate_points L stake_account vote_account history fix_stake_deactivate =
     and_then (get_state (stk_state L) stake_account) (\<lambda>st.
       case st of
         Stake m stk \<Rightarrow>
           and_then (get_state (stk_vote L) vote_account) (\<lambda>v.
             Inr (stake_calculate_points stk (convert_to_current v) history fix_stake_deactivate))
       | _ \<Rightarrow> Inl (Err InvalidAccountData))"

definition rewrite_stakes ::
  "stake_lib \<Rightarrow> rent \<Rightarrow> account \<Rightarrow> (account \<times> string \<times> (u64 \<times> u64) \<times> (u64 \<times> u64)) program_result" where
  "rewrite_stakes L r a =
     and_then (get_state (stk_state L) a) (\<lambda>st.
       case st of
         StakeInitialized m \<Rightarrow>
           (case rewrite_rent_exempt_reserve r (length (data a)) m of
              (_, None) \<Rightarrow> Inl (Err InvalidAccountData)
            | (m', Some status) \<Rightarrow>
                and_then (set_state (stk_state L) (StakeInitialized m') a) (\<lambda>a'. Inr (a', ''initialized'', status, (0, 0))))
       | Stake m stk \<Rightarrow>
           let (m', meta_status) = rewrite_rent_exempt_reserve r (length (data a)) m;
               (d', stake_status) = rewrite_stake (lamports a) (rent_exempt_reserve m') (st_delegation stk)
           in if meta_status = None \<and> stake_status = None then Inl (Err InvalidAccountData)
              else and_then (set_state (stk_state L) (Stake m' (stk\<lparr>st_delegation := d'\<rparr>)) a) (\<lambda>a'.
                Inr (a', ''stake'', case_option (0, 0) id meta_status, case_option (0, 0) id stake_status))
       | _ \<Rightarrow> Inl (Err InvalidAccountData))"

text \<open>Accounts made at genesis; \<open>Panic\<close> is a failed assertion or \<open>expect\<close>.\<close>

definition create_lockup_stake_account ::
  "stake_lib \<Rightarrow> stake_authorized \<Rightarrow> lockup \<Rightarrow> rent \<Rightarrow> u64 \<Rightarrow> account program_result" where
  "create_lockup_stake_account L authorized lock r amount =
     (let a = new_account amount STAKE_STATE_SIZE stake_program_id;
          reserve = minimum_balance r (length (data a))
      in if amount < reserve then Inl Panic
         else ok_or (serialize_data (stk_state L) (StakeInitialized
                \<lparr>rent_exempt_reserve = reserve, sm_authorized = authorized, sm_lockup = lock\<rparr>) a) Panic)"

definition do_create_account ::
  "stake_lib \<Rightarrow> pubkey \<Rightarrow> pubkey \<Rightarrow> account \<Rightarrow> rent \<Rightarrow> u64 \<Rightarrow> epoch \<Rightarrow> account program_result" where
  "do_create_account L authorized voter vote_account r amount activation =
     (let a = new_account amount STAKE_STATE_SIZE stake_program_id
      in and_then (ok_or (deserialize_data (stk_vote L) vote_account) Panic) (\<lambda>v.
           let reserve = minimum_balance r (length (data a));
               m = \<lparr>rent_exempt_reserve = reserve, sm_authorized = authorized_auto authorized, sm_lockup = default_lockup\<rparr>;
               stk = stake_new (amount - reserve) voter (convert_to_current v) activation default_stake_config
           in ok_or (serialize_data (stk_state L) (Stake m stk) a) Panic))"

definition create_bootstrap_account ::
  "stake_lib \<Rightarrow> pubkey \<Rightarrow> pubkey \<Rightarrow> account \<Rightarrow> rent \<Rightarrow> u64 \<Rightarrow> account program_result" where
  "create_bootstrap_account L authorized voter vote_account r amount =
     do_create_account L authorized voter vote_account r amount (- 1)"

definition create_account_with_activation_epoch ::
  "stake_lib \<Rightarrow> pubkey \<Rightarrow> pubkey \<Rightarrow> account \<Rightarrow> rent \<Rightarrow> u64 \<Rightarrow> epoch \<Rightarrow> account program_result" where
  "create_account_with_activation_epoch L authorized voter vote_account r amount activation =
     do_create_account L authorized voter vote_account r amount activation"

end
