(* ===== verification/StakeProgram.thy ===== *)
theory StakeProgram
  imports StakeAccount SystemProgram
begin

text \<open>
  The stake program (\<open>programs/stake/src/stake_instruction.rs\<close>): the dispatch of its instructions and the
  builders that clients use.
\<close>

section \<open>The instruction processor\<close>

text \<open>The sysvars some instructions read from the next two accounts.\<close>

definition clock_and_history ::
  "stake_lib \<Rightarrow> keyed_account list \<Rightarrow> store \<Rightarrow> (clock \<times> stake_history \<times> keyed_account list) program_result" where
  "clock_and_history L ks s =
     and_then (next_keyed_account ks) (\<lambda>(clock_account, ks1).
     and_then (from_keyed_account sysvar_clock_id (stk_clock L) s clock_account) (\<lambda>c.
     and_then (next_keyed_account ks1) (\<lambda>(history_account, ks2).
     and_then (from_keyed_account sysvar_stake_history_id (stk_history L) s history_account) (\<lambda>h.
       Inr (c, h, ks2)))))"

definition stake_dispatch ::
  "stake_lib \<Rightarrow> keyed_account \<Rightarrow> keyed_account list \<Rightarrow> pubkey set \<Rightarrow> stake_instruction \<Rightarrow> store \<Rightarrow> store program_result" where
  "stake_dispatch L me ks signers ix s =
     (case ix of
        StakeInitialize authorized lock \<Rightarrow>
          and_then (next_keyed_account ks) (\<lambda>(rent_account, _).
          and_then (from_keyed_account sysvar_rent_id (stk_rent L) s rent_account) (\<lambda>r.
            initialize_stake L me authorized lock r s))
      | StakeAuthorize k w \<Rightarrow> authorize_stake L me signers k w s
      | StakeAuthorizeWithSeed k w seed own \<Rightarrow>
          and_then (next_keyed_account ks) (\<lambda>(authority_base, _).
            authorize_stake_with_seed L me authority_base seed own k w s)
      | DelegateStake \<Rightarrow>
          and_then (next_keyed_account ks) (\<lambda>(vote_account, ks1).
          and_then (clock_and_history L ks1 s) (\<lambda>(c, h, ks2).
          and_then (next_keyed_account ks2) (\<lambda>(config_account, _).
          and_then (config_from_keyed_account L s config_account) (\<lambda>cfg.
            delegate_stake_account L me vote_account c h cfg signers s))))
      | StakeSplit amount \<Rightarrow>
          and_then (next_keyed_account ks) (\<lambda>(split, _). split_stake_account L me amount split signers s)
      | StakeMerge \<Rightarrow>
          and_then (next_keyed_account ks) (\<lambda>(source, ks1).
          and_then (clock_and_history L ks1 s) (\<lambda>(c, h, _).
            merge_stake_accounts L me source c h signers s))
      | StakeWithdraw amount \<Rightarrow>
          and_then (next_keyed_account ks) (\<lambda>(to, ks1).
          and_then (clock_and_history L ks1 s) (\<lambda>(c, h, ks2).
          and_then (next_keyed_account ks2) (\<lambda>(withdraw_authority, ks3).
            withdraw_stake L me amount to c h withdraw_authority
              (case ks3 of [] \<Rightarrow> None | k # _ \<Rightarrow> Some k) s)))
      | StakeDeactivate \<Rightarrow>
          and_then (next_keyed_account ks) (\<lambda>(clock_account, _).
          and_then (from_keyed_account sysvar_clock_id (stk_clock L) s clock_account) (\<lambda>c.
            deactivate_stake_account L me c signers s))
      | SetLockup args \<Rightarrow> set_stake_lockup L me args signers s)"

definition stake_process_instruction ::
  "stake_lib \<Rightarrow> keyed_account list \<Rightarrow> bytes \<Rightarrow> store \<Rightarrow> store program_result" where
  "stake_process_instruction L keyed_accounts bs s =
     (let signers = get_signers keyed_accounts
      in and_then (next_keyed_account keyed_accounts) (\<lambda>(me, ks).
         if owner (s (acct me)) \<noteq> stake_program_id then Inl (Err IncorrectProgramId)
         else and_then (limited_deserialize (stk_instruction L) bs) (\<lambda>ix.
           stake_dispatch L me ks signers ix s)))"

section \<open>Instruction builders\<close>

definition stake_instruction_new :: "stake_lib \<Rightarrow> stake_instruction \<Rightarrow> account_meta list \<Rightarrow> instruction" where
  "stake_instruction_new L ix metas = instruction_new (stk_instruction L) stake_program_id ix metas"

definition ix_initialize :: "stake_lib \<Rightarrow> pubkey \<Rightarrow> stake_authorized \<Rightarrow> lockup \<Rightarrow> instruction" where
  "ix_initialize L stake_pubkey authorized lock =
     stake_instruction_new L (StakeInitialize authorized lock)
       [account_meta_new stake_pubkey False, account_meta_new_readonly sysvar_rent_id False]"

definition ix_stake_create_account_with_seed ::
  "stake_lib \<Rightarrow> system_lib \<Rightarrow> pubkey \<Rightarrow> pubkey \<Rightarrow> pubkey \<Rightarrow> bytes \<Rightarrow> stake_authorized \<Rightarrow> lockup \<Rightarrow> u64 \<Rightarrow> instruction list" where
  "ix_stake_create_account_with_seed L S from_pubkey stake_pubkey base seed authorized lock amount =
     [system_create_account_with_seed S from_pubkey stake_pubkey base seed amount (of_nat STAKE_STATE_SIZE) stake_program_id,
      ix_initialize L stake_pubkey authorized lock]"

definition ix_stake_create_account ::
  "stake_lib \<Rightarrow> system_lib \<Rightarrow> pubkey \<Rightarrow> pubkey \<Rightarrow> stake_authorized \<Rightarrow> lockup \<Rightarrow> u64 \<Rightarrow> instruction list" where
  "ix_stake_create_account L S from_pubkey stake_pubkey authorized lock amount =
     [system_create_account S from_pubkey stake_pubkey amount (of_nat STAKE_STATE_SIZE) stake_program_id,
      ix_initialize L stake_pubkey authorized lock]"

definition ix_split_only :: "stake_lib \<Rightarrow> pubkey \<Rightarrow> pubkey \<Rightarrow> u64 \<Rightarrow> pubkey \<Rightarrow> instruction" where
  "ix_split_only L stake_pubkey authorized_pubkey amount split_stake_pubkey =
     stake_instruction_new L (StakeSplit amount)
       [account_meta_new stake_pubkey False, account_meta_new split_stake_pubkey False,
        account_meta_new_readonly authorized_pubkey True]"

definition ix_split :: "stake_lib \<Rightarrow> system_lib \<Rightarrow> pubkey \<Rightarrow> pubkey \<Rightarrow> u64 \<Rightarrow> pubkey \<Rightarrow> instruction list" where
  "ix_split L S stake_pubkey authorized_pubkey amount split_stake_pubkey =
     [system_create_account S authorized_pubkey split_stake_pubkey 0 (of_nat STAKE_STATE_SIZE) stake_program_id,
      ix_split_only L stake_pubkey authorized_pubkey amount split_stake_pubkey]"

definition ix_split_with_seed ::
  "stake_lib \<Rightarrow> system_lib \<Rightarrow> pubkey \<Rightarrow> pubkey \<Rightarrow> u64 \<Rightarrow> pubkey \<Rightarrow> pubkey \<Rightarrow> bytes \<Rightarrow> instruction list" where
  "ix_split_with_seed L S stake_pubkey authorized_pubkey amount split_stake_pubkey base seed =
     [system_create_account_with_seed S authorized_pubkey split_stake_pubkey base seed 0 (of_nat STAKE_STATE_SIZE) stake_program_id,
      ix_split_only L stake_pubkey authorized_pubkey amount split_stake_pubkey]"

definition ix_merge :: "stake_lib \<Rightarrow> pubkey \<Rightarrow> pubkey \<Rightarrow> pubkey \<Rightarrow> instruction list" where
  "ix_merge L destination_stake_pubkey source_stake_pubkey authorized_pubkey =
     [stake_instruction_new L StakeMerge
        [account_meta_new destination_stake_pubkey False, account_meta_new source_stake_pubkey False,
         account_meta_new_readonly sysvar_clock_id False, account_meta_new_readonly sysvar_stake_history_id False,
         account_meta_new_readonly authorized_pubkey True]]"

definition ix_delegate_stake :: "stake_lib \<Rightarrow> pubkey \<Rightarrow> pubkey \<Rightarrow> pubkey \<Rightarrow> instruction" where
  "ix_delegate_stake L stake_pubkey authorized_pubkey vote_pubkey =
     stake_instruction_new L DelegateStake
       [account_meta_new stake_pubkey False, account_meta_new_readonly vote_pubkey False,
        account_meta_new_readonly sysvar_clock_id False, account_meta_new_readonly sysvar_stake_history_id False,
        account_meta_new_readonly stake_config_id False, account_meta_new_readonly authorized_pubkey True]"

definition ix_create_account_and_delegate_stake ::
  "stake_lib \<Rightarrow> system_lib \<Rightarrow> pubkey \<Rightarrow> pubkey \<Rightarrow> pubkey \<Rightarrow> stake_authorized \<Rightarrow> lockup \<Rightarrow> u64 \<Rightarrow> instruction list" where
  "ix_create_account_and_delegate_stake L S from_pubkey stake_pubkey vote_pubkey authorized lock amount =
     ix_stake_create_account L S from_pubkey stake_pubkey authorized lock amount @
     [ix_delegate_stake L stake_pubkey (staker authorized) vote_pubkey]"

definition ix_create_account_with_seed_and_delegate_stake ::
  "stake_lib \<Rightarrow> system_lib \<Rightarrow> pubkey \<Rightarrow> pubkey \<Rightarrow> pubkey \<Rightarrow> bytes \<Rightarrow> pubkey \<Rightarrow> stake_authorized \<Rightarrow> lockup \<Rightarrow> u64 \<Rightarrow> instruction list" where
  "ix_create_account_with_seed_and_delegate_stake L S from_pubkey stake_pubkey base seed vote_pubkey authorized lock amount =
     ix_stake_create_account_with_seed L S from_pubkey stake_pubkey base seed authorized lock amount @
     [ix_delegate_stake L stake_pubkey (staker authorized) vote_pubkey]"

text \<open>The optional signature of the custodian.\<close>

definition custodian_meta :: "pubkey option \<Rightarrow> account_meta list" where
  "custodian_meta custodian = (case custodian of None \<Rightarrow> [] | Some k \<Rightarrow> [account_meta_new_readonly k True])"

definition ix_stake_authorize ::
  "stake_lib \<Rightarrow> pubkey \<Rightarrow> pubkey \<Rightarrow> pubkey \<Rightarrow> stake_authorize \<Rightarrow> pubkey option \<Rightarrow> instruction" where
  "ix_stake_authorize L stake_pubkey authorized_pubkey new_authorized_pubkey w custodian =
     stake_instruction_new L (StakeAuthorize new_authorized_pubkey w)
       ([account_meta_new stake_pubkey False, account_meta_new_readonly sysvar_clock_id False,
         account_meta_new_readonly authorized_pubkey True] @ custodian_meta custodian)"

definition ix_stake_authorize_with_seed ::
  "stake_lib \<Rightarrow> pubkey \<Rightarrow> pubkey \<Rightarrow> bytes \<Rightarrow> pubkey \<Rightarrow> pubkey \<Rightarrow> stake_authorize \<Rightarrow> pubkey option \<Rightarrow> instruction" where
  "ix_stake_authorize_with_seed L stake_pubkey authority_base authority_seed authority_owner new_authorized_pubkey w custodian =
     stake_instruction_new L (StakeAuthorizeWithSeed new_authorized_pubkey w authority_seed authority_owner)
       ([account_meta_new stake_pubkey False, account_meta_new_readonly authority_base True,
         account_meta_new_readonly sysvar_clock_id False] @ custodian_meta custodian)"

definition ix_stake_withdraw ::
  "stake_lib \<Rightarrow> pubkey \<Rightarrow> pubkey \<Rightarrow> pubkey \<Rightarrow> u64 \<Rightarrow> pubkey option \<Rightarrow> instruction" where
  "ix_stake_withdraw L stake_pubkey withdrawer_pubkey to_pubkey amount custodian =
     stake_instruction_new L (StakeWithdraw amount)
       ([account_meta_new stake_pubkey False, account_meta_new to_pubkey False,
         account_meta_new_readonly sysvar_clock_id False, account_meta_new_readonly sysvar_stake_history_id False,
         account_meta_new_readonly withdrawer_pubkey True] @ custodian_meta custodian)"

definition ix_deactivate_stake :: "stake_lib \<Rightarrow> pubkey \<Rightarrow> pubkey \<Rightarrow> instruction" where
  "ix_deactivate_stake L stake_pubkey authorized_pubkey =
     stake_instruction_new L StakeDeactivate
       [account_meta_new stake_pubkey False, account_meta_new_readonly sysvar_clock_id False,
        account_meta_new_readonly authorized_pubkey True]"

definition ix_set_lockup :: "stake_lib \<Rightarrow> pubkey \<Rightarrow> lockup_args \<Rightarrow> pubkey \<Rightarrow> instruction" where
  "ix_set_lockup L stake_pubkey args custodian_pubkey =
     stake_instruction_new L (SetLockup args)
       [account_meta_new stake_pubkey False, account_meta_new_readonly custodian_pubkey True]"

end
