(* ===== verification/StakeLib.thy ===== *)
theory StakeLib
  imports StakeAccount VoteLib
begin

text \<open>
  A concrete instance of the parameters of the stake program: an injective encoding of the state of a
  stake account. It shows that what the theorems assume of bincode can hold, and the state of a stake
  account is an instance of the contract \<open>serde_state\<close> with it.
\<close>

section \<open>Numbers\<close>

definition int_repr :: "int \<Rightarrow> bool \<times> nat" where
  "int_repr i = (i < 0, nat \<bar>i\<bar>)"

definition int_of_repr :: "bool \<times> nat \<Rightarrow> int" where
  "int_of_repr = (\<lambda>(neg, n). if neg then - int n else int n)"

lemma int_of_repr: "int_of_repr (int_repr i) = i"
  by (simp add: int_repr_def int_of_repr_def)

fun f64_repr :: "f64 \<Rightarrow> (int \<times> int) + bool option" where
  "f64_repr (Fin q) = Inl (quotient_of q)"
| "f64_repr PosInf = Inr (Some True)"
| "f64_repr NegInf = Inr (Some False)"
| "f64_repr NaN = Inr None"

fun f64_of_repr :: "(int \<times> int) + bool option \<Rightarrow> f64" where
  "f64_of_repr (Inl (a, b)) = Fin (of_int a / of_int b)"
| "f64_of_repr (Inr (Some True)) = PosInf"
| "f64_of_repr (Inr (Some False)) = NegInf"
| "f64_of_repr (Inr None) = NaN"

lemma f64_of_repr: "f64_of_repr (f64_repr x) = x"
proof (cases x)
  case (Fin q)
  obtain a b where "quotient_of q = (a, b)" by fastforce
  then show ?thesis using quotient_of_div [of q a b] by (simp add: Fin)
qed simp_all

abbreviation "enc_int \<equiv> enc_via int_repr (enc_pair enc_bool enc_nat)"
abbreviation "dec_int \<equiv> dec_via int_of_repr (dec_pair dec_bool dec_nat)"

definition enc_f64 :: "f64 enc" where
  "enc_f64 = enc_via f64_repr (enc_sum (enc_pair enc_int enc_int) (enc_option enc_bool))"

definition dec_f64 :: "f64 dec" where
  "dec_f64 = dec_via f64_of_repr (dec_sum (dec_pair dec_int dec_int) (dec_option dec_bool))"

lemma codec_f64: "codec enc_f64 dec_f64"
  unfolding enc_f64_def dec_f64_def by (intro codec_via codec_rules f64_of_repr int_of_repr)

section \<open>The state of a stake account\<close>

type_synonym stake_meta_repr = "u64 \<times> (pubkey \<times> pubkey) \<times> i64 \<times> epoch \<times> pubkey"
type_synonym stake_repr = "(pubkey \<times> u64 \<times> epoch \<times> epoch \<times> f64) \<times> u64"

definition stake_meta_repr :: "stake_meta \<Rightarrow> stake_meta_repr" where
  "stake_meta_repr m =
     (rent_exempt_reserve m, (staker (sm_authorized m), withdrawer (sm_authorized m)),
      lk_unix_timestamp (sm_lockup m), lk_epoch (sm_lockup m), lk_custodian (sm_lockup m))"

definition stake_meta_of :: "stake_meta_repr \<Rightarrow> stake_meta" where
  "stake_meta_of = (\<lambda>(r, (a, b), t, e, c).
     \<lparr>rent_exempt_reserve = r, sm_authorized = \<lparr>staker = a, withdrawer = b\<rparr>,
      sm_lockup = \<lparr>lk_unix_timestamp = t, lk_epoch = e, lk_custodian = c\<rparr>\<rparr>)"

definition stake_repr :: "stake \<Rightarrow> stake_repr" where
  "stake_repr stk = (let d = st_delegation stk
     in ((voter_pubkey d, dl_stake d, activation_epoch d, deactivation_epoch d, warmup_cooldown_rate d),
         credits_observed stk))"

definition stake_of :: "stake_repr \<Rightarrow> stake" where
  "stake_of = (\<lambda>((v, n, a, e, w), c).
     \<lparr>st_delegation = \<lparr>voter_pubkey = v, dl_stake = n, activation_epoch = a, deactivation_epoch = e,
        warmup_cooldown_rate = w\<rparr>, credits_observed = c\<rparr>)"

fun stake_state_repr :: "stake_state \<Rightarrow> bool + stake_meta_repr + stake_meta_repr \<times> stake_repr" where
  "stake_state_repr StakeUninitialized = Inl True"
| "stake_state_repr (StakeInitialized m) = Inr (Inl (stake_meta_repr m))"
| "stake_state_repr (Stake m stk) = Inr (Inr (stake_meta_repr m, stake_repr stk))"
| "stake_state_repr RewardsPool = Inl False"

fun stake_state_of :: "bool + stake_meta_repr + stake_meta_repr \<times> stake_repr \<Rightarrow> stake_state" where
  "stake_state_of (Inl b) = (if b then StakeUninitialized else RewardsPool)"
| "stake_state_of (Inr (Inl m)) = StakeInitialized (stake_meta_of m)"
| "stake_state_of (Inr (Inr (m, stk))) = Stake (stake_meta_of m) (stake_of stk)"

lemma stake_state_of_repr: "stake_state_of (stake_state_repr st) = st"
  by (cases st) (simp_all add: stake_meta_repr_def stake_meta_of_def stake_repr_def stake_of_def Let_def)

abbreviation "enc_meta \<equiv> enc_pair enc_u64 (enc_pair (enc_pair enc_key enc_key) (enc_pair enc_u64 (enc_pair enc_u64 enc_key)))"
abbreviation "dec_meta \<equiv> dec_pair dec_u64 (dec_pair (dec_pair dec_key dec_key) (dec_pair dec_u64 (dec_pair dec_u64 dec_key)))"
abbreviation "enc_stake \<equiv>
  enc_pair (enc_pair enc_key (enc_pair enc_u64 (enc_pair enc_u64 (enc_pair enc_u64 enc_f64)))) enc_u64"
abbreviation "dec_stake \<equiv>
  dec_pair (dec_pair dec_key (dec_pair dec_u64 (dec_pair dec_u64 (dec_pair dec_u64 dec_f64)))) dec_u64"

definition stake_serde :: "stake_state serde" where
  "stake_serde =
     \<lparr>ser = enc_via stake_state_repr (enc_sum enc_bool (enc_sum enc_meta (enc_pair enc_meta enc_stake))),
      de = dec_via stake_state_of (dec_sum dec_bool (dec_sum dec_meta (dec_pair dec_meta dec_stake)))\<rparr>"

interpretation stake_account: serde_state stake_serde
  unfolding serde_state_def stake_serde_def serde.simps
  by (intro codec_via codec_rules codec_f64 stake_state_of_repr)

text \<open>The other parameters: every instruction reads as \<open>ix\<close>, and the sysvars have fixed values.\<close>

definition demo_clock :: clock where
  "demo_clock = \<lparr>clock_slot = 100, epoch_start_timestamp = 0, clock_epoch = 3, leader_schedule_epoch = 4, unix_timestamp = 1000\<rparr>"

definition fixed_serde :: "'a \<Rightarrow> 'a serde" where
  "fixed_serde x = \<lparr>ser = (\<lambda>_. []), de = (\<lambda>bs. Some (x, bs))\<rparr>"

definition demo_stake :: "stake_instruction \<Rightarrow> stake_lib" where
  "demo_stake ix =
     \<lparr>stk_state = stake_serde, stk_vote = vote_serde, stk_instruction = fixed_serde ix, stk_rent = fixed_serde default_rent,
      stk_clock = fixed_serde demo_clock, stk_history = fixed_serde [], stk_config_keys = fixed_serde [],
      stk_config = fixed_serde default_stake_config, stk_sha256 = (\<lambda>bs. of_nat (length bs))\<rparr>"

lemma demo_stake_sel [simp]:
  "stk_state (demo_stake ix) = stake_serde" "stk_instruction (demo_stake ix) = fixed_serde ix"
  "stk_clock (demo_stake ix) = fixed_serde demo_clock" "stk_history (demo_stake ix) = fixed_serde []"
  by (simp_all add: demo_stake_def)

lemma fixed_serde_simps [simp]:
  "de (fixed_serde x) bs = Some (x, bs)" "limited_deserialize (fixed_serde x) bs = Inr x"
  "from_keyed_account k (fixed_serde x) s a = (if key a = k then Inr x else Inl (Err InvalidArgument))"
  by (simp_all add: fixed_serde_def limited_deserialize_def from_keyed_account_def from_account_def)

text \<open>An account holding a state, with the size of a stake account.\<close>

definition stake_account_of :: "u64 \<Rightarrow> stake_state \<Rightarrow> account" where
  "stake_account_of n st =
     default_account\<lparr>lamports := n, owner := stake_program_id,
       data := ser stake_serde st @ replicate (STAKE_STATE_SIZE - length (ser stake_serde st)) 0\<rparr>"

lemma stake_account_of_simps [simp]:
  "lamports (stake_account_of n st) = n" "owner (stake_account_of n st) = stake_program_id"
  "get_state stake_serde (stake_account_of n st) = Inr st"
  using stake_account.codec_axioms
  by (simp_all add: stake_account_of_def get_state_def deserialize_data_def codec.dec_enc ok_or_def)

end
