(* ===== verification/StakeRewards.thy ===== *)
theory StakeRewards
  imports StakeState VoteAuthority
begin

text \<open>
  Properties of a delegation and its rewards: warm-up and cool-down never create stake, a deactivated
  stake only shrinks, credits are paid once, and a round of rewards pays no more than it has.
\<close>

section \<open>Warm-up and cool-down\<close>

lemma stake_and_activating_le:
  "stake_and_activating d e h b = (x, y) \<Longrightarrow> unat x + unat y \<le> unat (dl_stake d)"
proof -
  assume run: "stake_and_activating d e h b = (x, y)"
  have "unat n + unat (dl_stake d - n) \<le> unat (dl_stake d)" if "n \<le> dl_stake d" for n
    using that by (simp add: unat_sub_exact word_le_nat_alt)
  from this [OF activating_loop_le] run show ?thesis
    by (auto simp: stake_and_activating_def Let_def split: if_splits option.splits bind_splits)
qed

lemma activation_bounds:
  assumes "stake_activating_and_deactivating d e h b = (x, y, z)"
  shows "unat x + unat y \<le> unat (dl_stake d) \<and> (z = 0 \<or> z = x \<and> y = 0)"
proof -
  obtain x0 y0 where start: "stake_and_activating d e h b = (x0, y0)" by fastforce
  note le = stake_and_activating_le [OF start]
  then have "x0 \<le> dl_stake d" by (simp add: word_le_nat_alt)
  moreover have "unat n \<le> unat (dl_stake d)" if "n \<le> x0" for n
    using that le by (simp add: word_le_nat_alt)
  from this [OF deactivating_loop_le] assms le calculation show ?thesis
    by (auto simp: stake_activating_and_deactivating_def start Let_def min_def
      split: if_splits option.splits bind_splits)
qed

lemma delegation_stake_le: "delegation_stake d e h b \<le> dl_stake d"
proof -
  obtain x y z where "stake_activating_and_deactivating d e h b = (x, y, z)" by (rule prod_cases3)
  with activation_bounds [OF this] show ?thesis by (simp add: delegation_stake_def word_le_nat_alt)
qed

text \<open>
  (C23) Whatever the history and the rate, the effective and the activating stake of a delegation
  together never exceed the delegated amount, and what is deactivating is nothing or all that is
  still effective.
\<close>

theorem stake_never_exceeds_delegation:
  assumes "stake_activating_and_deactivating d e h b = (x, y, z)"
  shows "unat x + unat y \<le> unat (dl_stake d) \<and> (z = 0 \<or> z = x \<and> y = 0)"
  using assms by (rule activation_bounds)

theorem stake_never_exceeds_delegation_witness:
  "\<exists>x y z. stake_activating_and_deactivating (delegation_new 1 1000 5 (Fin (1 / 4))) 5 None True = (x, y, z) \<and>
     y = 1000 \<and> unat x + unat y \<le> 1000"
proof -
  let ?d = "delegation_new 1 1000 5 (Fin (1 / 4))"
  have run: "stake_activating_and_deactivating ?d 5 None True = (0, 1000, 0)"
    by (simp add: stake_activating_and_deactivating_def stake_and_activating_def is_bootstrap_def delegation_new_def
      default_delegation_def)
  from stake_never_exceeds_delegation [OF run] run show ?thesis by (simp add: delegation_new_def)
qed

text \<open>Once a stake is deactivated, the warm-up that counts has ended.\<close>

lemma activating_loop_target:
  "deactivation_epoch d \<le> t \<Longrightarrow> deactivation_epoch d \<le> t' \<Longrightarrow>
     activating_loop h d t e prev n = activating_loop h d t' e prev n"
proof (induction h d t e prev n rule: activating_loop.induct)
  case (1 h d t e prev n)
  let ?n = "n + entitlement (warmup_cooldown_rate d) (dl_stake d - n) (activating prev) (effective prev)"
  show ?case
  proof (cases "activating prev = 0 \<or> dl_stake d \<le> ?n \<or> deactivation_epoch d \<le> e + 1")
    case True
    then show ?thesis
      by (subst (1 2) activating_loop.simps) (auto simp: Let_def)
  next
    case False
    with "1.prems" have less: "\<not> t \<le> e + 1" "\<not> t' \<le> e + 1" by auto
    have "activating_loop h d t (e + 1) c ?n = activating_loop h d t' (e + 1) c ?n"
      if "stake_history_get h (e + 1) = Some c" for c
      using False less that "1.prems" by (intro "1.IH") auto
    with False less show ?thesis
      by (subst (1 2) activating_loop.simps) (auto simp: Let_def split: option.splits)
  qed
qed

lemma deactivating_loop_mono:
  "t \<le> t' \<Longrightarrow> deactivating_loop h d t' e prev n \<le> deactivating_loop h d t e prev n"
proof (induction h d t e prev n rule: deactivating_loop.induct)
  case (1 h d t e prev n)
  let ?n = "saturating_sub n (entitlement (warmup_cooldown_rate d) n (deactivating prev) (effective prev))"
  show ?case
  proof (cases "deactivating prev = 0 \<or> ?n = 0")
    case True
    then show ?thesis by (subst (1 2) deactivating_loop.simps) (auto simp: Let_def)
  next
    case False
    show ?thesis
    proof (cases "t \<le> e + 1")
      case True
      have "deactivating_loop h d t' (e + 1) c ?n \<le> ?n" for c by (rule deactivating_loop_le)
      with False True show ?thesis
        by (subst (1 2) deactivating_loop.simps) (auto simp: Let_def split: option.splits)
    next
      case less: False
      with "1.prems" have less': "\<not> t' \<le> e + 1" by auto
      have "deactivating_loop h d t' (e + 1) c ?n \<le> deactivating_loop h d t (e + 1) c ?n"
        if "stake_history_get h (e + 1) = Some c" for c
        using False less that "1.prems" by (intro "1.IH") auto
      with False less less' show ?thesis
        by (subst (1 2) deactivating_loop.simps) (auto simp: Let_def split: option.splits)
    qed
  qed
qed

lemma effective_before_cooldown:
  assumes "is_bootstrap d \<or> activation_epoch d \<le> deactivation_epoch d"
    and "deactivation_epoch d \<le> e" and "deactivation_epoch d \<le> e'"
  shows "fst (stake_and_activating d e h True) = fst (stake_and_activating d e' h True)"
proof (cases "is_bootstrap d \<or> activation_epoch d = deactivation_epoch d")
  case True
  then show ?thesis by (auto simp: stake_and_activating_def)
next
  case False
  with assms have "activation_epoch d < e" "activation_epoch d < e'" by auto
  with False activating_loop_target [OF assms(2,3)] show ?thesis
    by (auto simp: stake_and_activating_def Let_def split: option.splits bind_splits)
qed



section \<open>Rewards\<close>

lemma add_points_credits:
  "snd (fold (add_points st h b) xs (p, n)) = foldl (\<lambda>m (e, f, i). max m f) n xs"
  by (induction xs arbitrary: p n) (auto simp: add_points_def Let_def)

lemma foldl_max_ge: "n \<le> foldl (\<lambda>m (e, f, i). max m f) n xs" for n :: u64
proof (induction xs arbitrary: n)
  case (Cons x xs)
  obtain e f i where x: "x = (e, f, i)" by (cases x)
  have "n \<le> max n f" by simp
  also have "\<dots> \<le> foldl (\<lambda>m (e, f, i). max m f) (max n f) xs" by (rule Cons.IH)
  finally show ?case by (simp add: x)
qed simp

lemma foldl_max_last:
  "xs \<noteq> [] \<Longrightarrow> fst (snd (last xs)) \<le> foldl (\<lambda>m (e, f, i). max m f) n xs" for n :: u64
proof (induction xs rule: rev_induct)
  case (snoc x xs)
  then show ?case by (cases x) simp
qed simp

lemma new_credits_ge:
  assumes "calculate_points_and_credits st vs h b = (p, n)" and "b \<or> p \<noteq> 0"
  shows "credits vs \<le> n" and "credits_observed st \<le> n"
proof -
  have "credits vs \<le> n \<and> credits_observed st \<le> n"
  proof (cases "credits vs \<le> credits_observed st")
    case True
    with assms show ?thesis by (auto simp: calculate_points_and_credits_def split: if_splits)
  next
    case False
    then have "epoch_credits vs \<noteq> []" by (auto simp: credits_def)
    moreover have "n = foldl (\<lambda>m (e, f, i). max m f) (credits_observed st) (epoch_credits vs)"
      using False assms(1) add_points_credits [of st h b "epoch_credits vs" 0 "credits_observed st"]
      by (simp add: calculate_points_and_credits_def)
    ultimately show ?thesis using foldl_max_ge foldl_max_last by (auto simp: credits_def)
  qed
  then show "credits vs \<le> n" "credits_observed st \<le> n" by auto
qed

text \<open>What a payout is made of.\<close>

lemma calculate_rewards_Some:
  assumes "calculate_rewards st pv vs h b = Inr (Some (a, v, n))"
  obtains p where "calculate_points_and_credits st vs h b = (p, n)" "b \<or> p \<noteq> 0"
    "(unat a + unat v) * unat (pv_points pv) \<le> unat p * unat (pv_rewards pv)"
proof -
  obtain p n' where pts: "calculate_points_and_credits st vs h b = (p, n')" by fastforce
  show thesis
  proof (cases "pv_rewards pv = 0 \<and> b")
    case True
    with assms pts show thesis by (intro that [of p]) (auto simp: calculate_rewards_def)
  next
    case False
    let ?r = "p * ucast (pv_rewards pv) div pv_points pv"
    from assms False have run: "p \<noteq> 0" "pv_points pv \<noteq> 0" "unat p * unat (pv_rewards pv) < 2 ^ 128"
      "unat ?r < 2 ^ 64" "n' = n" "\<exists>split. commission_split vs (ucast ?r) = (v, a, split)"
      by (auto simp: calculate_rewards_def pts Let_def not_le split: if_splits prod.splits)
    obtain mine theirs split where split: "commission_split vs (ucast ?r) = (mine, theirs, split)"
      "unat mine + unat theirs \<le> unat (ucast ?r :: u64)"
      using commission_split_exact [of vs "ucast ?r"] by blast
    have "unat (ucast (pv_rewards pv) :: u128) = unat (pv_rewards pv)" by (simp add: unat_ucast_up)
    then have "unat (p * ucast (pv_rewards pv)) = unat p * unat (pv_rewards pv)"
      using run(3) by (subst unat_mult_exact) simp_all
    then have r: "unat ?r = unat p * unat (pv_rewards pv) div unat (pv_points pv)" by (simp add: unat_div)
    have "unat a + unat v \<le> unat ?r" using split run(4,6) by (auto simp: unat_ucast_down)
    then have "(unat a + unat v) * unat (pv_points pv) \<le> unat ?r * unat (pv_points pv)" by (rule mult_le_mono1)
    also have "\<dots> \<le> unat p * unat (pv_rewards pv)" unfolding r by (rule div_times_less_eq_dividend)
    finally show thesis using pts run(1,5) by (intro that [of p]) auto
  qed
qed

text \<open>
  (C19) Credits are paid once: after a payout the stake has observed all the credits of the vote
  account, so that it earns no further points from that state, under any history and flag; and the
  stake grows by exactly the staker's part.
\<close>

theorem redeem_rewards_once:
  assumes "stake_redeem_rewards pv vs h b st = Inr (Some (st', a, v))"
  shows "credits vs \<le> credits_observed st' \<and> credits_observed st \<le> credits_observed st' \<and>
    stake_calculate_points st' vs h' b' = 0 \<and>
    st_delegation st' = (st_delegation st)\<lparr>dl_stake := dl_stake (st_delegation st) + a\<rparr>"
proof -
  from assms obtain n where run: "calculate_rewards st pv vs h b = Inr (Some (a, v, n))"
    and st': "st' = st\<lparr>credits_observed := n, st_delegation := (st_delegation st)\<lparr>dl_stake := dl_stake (st_delegation st) + a\<rparr>\<rparr>"
    by (auto simp: stake_redeem_rewards_def and_then_Inr_iff)
  obtain p where "calculate_points_and_credits st vs h b = (p, n)" "b \<or> p \<noteq> 0"
    by (rule calculate_rewards_Some [OF run])
  from new_credits_ge [OF this] show ?thesis
    by (auto simp: st' stake_calculate_points_def calculate_points_and_credits_def)
qed

text \<open>
  (C18) A round of rewards pays at most the lamports it has, however many stakes redeem: when the point
  value counts the points of all of them, stakers and voters together get no more than its rewards.
\<close>

theorem rewards_within_budget:
  assumes "list_all2 (\<lambda>(st, vs) (a, v). \<exists>n. calculate_rewards st pv vs h b = Inr (Some (a, v, n))) stakes paid"
    and "(\<Sum>(st, vs)\<leftarrow>stakes. unat (stake_calculate_points st vs h b)) \<le> unat (pv_points pv)" and "pv_points pv \<noteq> 0"
  shows "(\<Sum>(a, v)\<leftarrow>paid. unat a + unat v) \<le> unat (pv_rewards pv)"
proof -
  have "(\<Sum>(a, v)\<leftarrow>paid. unat a + unat v) * unat (pv_points pv)
      \<le> (\<Sum>(st, vs)\<leftarrow>stakes. unat (stake_calculate_points st vs h b)) * unat (pv_rewards pv)"
    using assms(1)
  proof (induction rule: list_all2_induct)
    case (Cons x stakes y paid)
    obtain st vs a v where xy: "x = (st, vs)" "y = (a, v)" by (cases x, cases y)
    from Cons.hyps(1) obtain n where "calculate_rewards st pv vs h b = Inr (Some (a, v, n))" by (auto simp: xy)
    then obtain p where "calculate_points_and_credits st vs h b = (p, n)"
      "(unat a + unat v) * unat (pv_points pv) \<le> unat p * unat (pv_rewards pv)"
      by (rule calculate_rewards_Some)
    with Cons.IH show ?case by (simp add: xy stake_calculate_points_def algebra_simps)
  qed simp
  also have "\<dots> \<le> unat (pv_points pv) * unat (pv_rewards pv)" using assms(2) by (rule mult_le_mono1)
  finally show ?thesis using assms(3) by (simp add: mult.commute unat_eq_iff)
qed

section \<open>A concrete payout\<close>

text \<open>A bootstrap stake of 1000 behind a voter with 10 credits and half of the commission.\<close>

definition paid_voter :: vote_state where
  "paid_voter = default_vote_state\<lparr>epoch_credits := [(3, 10, 0)], commission := 50\<rparr>"

definition paid_stake :: stake where
  "paid_stake = \<lparr>st_delegation = delegation_new 1 1000 (- 1) (Fin (1 / 4)), credits_observed = 0\<rparr>"

definition paid_points :: point_value where
  "paid_points = \<lparr>pv_rewards = 60, pv_points = 10000\<rparr>"

lemma paid_points_run: "calculate_points_and_credits paid_stake paid_voter None True = (10000, 10)"
  by (simp add: calculate_points_and_credits_def add_points_def paid_stake_def paid_voter_def credits_def
    delegation_stake_def stake_activating_and_deactivating_def stake_and_activating_def is_bootstrap_def
    delegation_new_def default_delegation_def Let_def)

lemma paid_rewards_run: "calculate_rewards paid_stake paid_points paid_voter None True = Inr (Some (30, 30, 10))"
proof -
  have "commission_split paid_voter 60 = (30, 30, True)"
    by (simp add: commission_split_def paid_voter_def min_def Let_def)
  then show ?thesis by (simp add: calculate_rewards_def paid_points_run paid_points_def Let_def)
qed

theorem redeem_rewards_once_witness:
  "\<exists>st'. stake_redeem_rewards paid_points paid_voter None True paid_stake = Inr (Some (st', 30, 30)) \<and>
     stake_calculate_points st' paid_voter None True = 0"
proof -
  obtain st' where run: "stake_redeem_rewards paid_points paid_voter None True paid_stake = Inr (Some (st', 30, 30))"
    by (simp add: stake_redeem_rewards_def paid_rewards_run)
  with redeem_rewards_once [OF run] show ?thesis by blast
qed

theorem rewards_within_budget_witness:
  "calculate_rewards paid_stake paid_points paid_voter None True = Inr (Some (30, 30, 10)) \<and>
   (\<Sum>(a, v)\<leftarrow>[(30 :: u64, 30 :: u64)]. unat a + unat v) \<le> 60"
  using rewards_within_budget [of paid_points None True "[(paid_stake, paid_voter)]" "[(30, 30)]"] paid_rewards_run
  by (simp add: stake_calculate_points_def paid_points_run paid_points_def)

end
