(* ===== verification/StakeSafety.thy ===== *)
theory StakeSafety
  imports StakeProgram StakeLib StakeRewards SystemSafety PreAccount
begin

text \<open>
  Properties of the stake program: which accounts and lamports an instruction moves, who must have
  signed, that active stake stays backed by lamports, and the overflow in its withdrawals.
\<close>

section \<open>What each handler did\<close>

lemma authorized_check_Inr [simp]:
  "authorized_check a S StakeStaker = Inr u \<longleftrightarrow> staker a \<in> S"
  "authorized_check a S StakeWithdrawer = Inr u \<longleftrightarrow> withdrawer a \<in> S"
  by (simp_all add: authorized_check_def)

lemma stake_result_Inr [simp]: "stake_result r = Inr x \<longleftrightarrow> r = Inr x"
  by (simp add: stake_result_def split: sum.splits failure.splits)

lemma authorized_authorize_Inr:
  "authorized_authorize S k w a = Inr a' \<Longrightarrow>
     withdrawer a \<in> S \<or> (w = StakeStaker \<and> staker a \<in> S)"
  by (cases w) (auto simp: authorized_authorize_def and_then_Inr_iff split: if_splits)

lemma initialize_stake_Inr:
  assumes "initialize_stake L me a l r s = Inr s'"
  obtains m where "write_stake L me (StakeInitialized m) s = Inr s'" "read_stake L s me = Inr StakeUninitialized"
    "rent_exempt_reserve m < lamports (s (acct me))"
proof -
  from assms obtain st where st: "read_stake L s me = Inr st"
    by (auto simp: initialize_stake_def and_then_Inr_iff split: if_splits)
  with assms show thesis
    by (cases st) (auto simp: initialize_stake_def and_then_Inr_iff Let_def split: if_splits intro: that)
qed

lemma authorize_stake_Inr:
  assumes "authorize_stake L me S k w s = Inr s'"
  obtains m a st where "read_stake L s me = Inr st" "state_meta st = Some m"
    "authorized_authorize S k w (sm_authorized m) = Inr a"
    "write_stake L me (case st of Stake _ stk \<Rightarrow> Stake (m\<lparr>sm_authorized := a\<rparr>) stk
       | _ \<Rightarrow> StakeInitialized (m\<lparr>sm_authorized := a\<rparr>)) s = Inr s'"
proof -
  from assms obtain st where st: "read_stake L s me = Inr st"
    by (auto simp: authorize_stake_def and_then_Inr_iff split: if_splits)
  with assms show thesis
    by (cases st) (auto simp: authorize_stake_def and_then_Inr_iff intro: that)
qed

lemma authorize_stake_with_seed_Inr:
  assumes "authorize_stake_with_seed L me base seed own k w s = Inr s'"
  obtains S where "authorize_stake L me S k w s = Inr s'"
    "\<forall>x\<in>S. signer_key base \<noteq> None \<and> create_with_seed (stk_sha256 L) (key base) seed own = Inr x"
  using assms by (auto simp: authorize_stake_with_seed_def and_then_Inr_iff signer_key_def
    split: if_splits sum.splits intro: that)

lemma delegate_stake_Inr:
  assumes "delegate_stake_account L me v c h cfg S s = Inr s'"
  obtains m stk st where "write_stake L me (Stake m stk) s = Inr s'" "read_stake L s me = Inr st" "state_meta st = Some m"
    "staker (sm_authorized m) \<in> S"
    "dl_stake (st_delegation stk) = saturating_sub (lamports (s (acct me))) (rent_exempt_reserve m)"
proof -
  from assms obtain st where st: "read_stake L s me = Inr st"
    by (auto simp: delegate_stake_account_def and_then_Inr_iff split: if_splits)
  with assms show thesis
    by (cases st) (auto simp: delegate_stake_account_def and_then_Inr_iff redelegate_def stake_new_def delegation_new_def
      Let_def split: if_splits intro: that)
qed

lemma deactivate_stake_Inr:
  assumes "deactivate_stake_account L me c S s = Inr s'"
  obtains m stk where "read_stake L s me = Inr (Stake m stk)" "staker (sm_authorized m) \<in> S"
    "deactivation_epoch (st_delegation stk) = - 1"
    "write_stake L me (Stake m (stk\<lparr>st_delegation := (st_delegation stk)\<lparr>deactivation_epoch := clock_epoch c\<rparr>\<rparr>)) s = Inr s'"
proof -
  from assms obtain st where st: "read_stake L s me = Inr st"
    by (auto simp: deactivate_stake_account_def and_then_Inr_iff split: if_splits)
  with assms show thesis
    by (cases st) (auto simp: deactivate_stake_account_def and_then_Inr_iff stake_deactivate_def Let_def
      split: if_splits intro: that)
qed

lemma set_stake_lockup_Inr:
  assumes "set_stake_lockup L me args S s = Inr s'"
  obtains m l st where "read_stake L s me = Inr st" "state_meta st = Some m" "lk_custodian (sm_lockup m) \<in> S"
    "write_stake L me (case st of Stake _ stk \<Rightarrow> Stake (m\<lparr>sm_lockup := l\<rparr>) stk
       | _ \<Rightarrow> StakeInitialized (m\<lparr>sm_lockup := l\<rparr>)) s = Inr s'"
proof -
  from assms obtain st where st: "read_stake L s me = Inr st"
    by (auto simp: set_stake_lockup_def and_then_Inr_iff split: if_splits)
  with assms show thesis
    by (cases st) (auto simp: set_stake_lockup_def and_then_Inr_iff meta_set_lockup_def Let_def
      split: if_splits intro: that)
qed

definition with_stake :: "u64 \<Rightarrow> stake \<Rightarrow> stake" where
  "with_stake n stk = stk\<lparr>st_delegation := (st_delegation stk)\<lparr>dl_stake := n\<rparr>\<rparr>"

lemma with_stake_simps [simp]:
  "dl_stake (st_delegation (with_stake n stk)) = n"
  "deactivation_epoch (st_delegation (with_stake n stk)) = deactivation_epoch (st_delegation stk)"
  by (simp_all add: with_stake_def)

text \<open>The numbers of a split: the new reserve \<open>sr\<close>, and what leaves the old stake and enters the new one.\<close>

definition split_amounts :: "u64 \<Rightarrow> u64 \<Rightarrow> u64 \<Rightarrow> u64 \<Rightarrow> u64 \<Rightarrow> u64 \<Rightarrow> u64 \<Rightarrow> bool" where
  "split_amounts n balance split_balance reserve sr delta amount \<longleftrightarrow>
     saturating_sub sr split_balance \<le> n \<and>
     (if n = balance then sr \<le> n \<and> delta = saturating_sub n reserve \<and> amount = min (n - sr) delta
      else n + reserve < balance \<and> delta = n \<and> amount = n - saturating_sub sr split_balance)"

lemma split_delegated_Inr:
  assumes "split_delegated L me n sp S m stk s = Inr s'"
  obtains s1 sr delta amount where "staker (sm_authorized m) \<in> S"
    "write_stake L me (Stake m (with_stake (dl_stake (st_delegation stk) - delta) stk)) s = Inr s1"
    "write_stake L sp (Stake (m\<lparr>rent_exempt_reserve := sr\<rparr>) (with_stake amount stk)) s1 = Inr s'"
    "delta \<le> dl_stake (st_delegation stk)"
    "split_amounts n (lamports (s (acct me))) (lamports (s (acct sp))) (rent_exempt_reserve m) sr delta amount"
proof -
  define sr where "sr = calculate_split_rent_exempt_reserve (rent_exempt_reserve m)
    (of_nat (length (data (s (acct me))))) (of_nat (length (data (s (acct sp)))))"
  define missing where "missing = saturating_sub sr (lamports (s (acct sp)))"
  define delta where "delta = (if n = lamports (s (acct me)) then saturating_sub n (rent_exempt_reserve m) else n)"
  define amount where "amount = (if n = lamports (s (acct me)) then min (n - sr) delta else n - missing)"
  have pair: "(if n = lamports (s (acct me)) then
      let delta = saturating_sub n (rent_exempt_reserve m) in (delta, min (n - sr) delta)
    else (n, n - missing)) = (delta, amount)" by (simp add: delta_def amount_def Let_def)
  let ?bad = "n < missing \<or> (n < sr \<and> n = lamports (s (acct me))) \<or>
    (n \<noteq> lamports (s (acct me)) \<and> (lamports (s (acct me)) \<le> n + rent_exempt_reserve m \<or> n \<le> missing))"
  have run: "and_then (authorized_check (sm_authorized m) S StakeStaker) (\<lambda>_.
      if ?bad then Inl (Err InsufficientFunds)
      else and_then (stake_result (stake_split delta amount stk)) (\<lambda>(stk', split_stk).
        and_then (write_stake L me (Stake m stk') s) (\<lambda>s1.
          write_stake L sp (Stake (m\<lparr>rent_exempt_reserve := sr\<rparr>) split_stk) s1))) = Inr s'"
    using assms unfolding split_delegated_def sr_def [symmetric] Let_def [of "lamports (s (acct me))"]
      Let_def [of sr] missing_def [symmetric] Let_def [of missing] pair Let_def [of "(delta, amount)"] prod.case .
  then have signed: "staker (sm_authorized m) \<in> S"
    by (simp only: and_then_Inr_iff authorized_check_Inr simp_thms)
  have inner: "(if ?bad then Inl (Err InsufficientFunds)
      else and_then (stake_result (stake_split delta amount stk)) (\<lambda>(stk', split_stk).
        and_then (write_stake L me (Stake m stk') s) (\<lambda>s1.
          write_stake L sp (Stake (m\<lparr>rent_exempt_reserve := sr\<rparr>) split_stk) s1))) = Inr s'"
    using run unfolding and_then_Inr_iff by blast
  then have ok: "\<not> ?bad" by (rule contrapos_pn) simp
  have "and_then (stake_result (stake_split delta amount stk)) (\<lambda>(stk', split_stk).
        and_then (write_stake L me (Stake m stk') s) (\<lambda>s1.
          write_stake L sp (Stake (m\<lparr>rent_exempt_reserve := sr\<rparr>) split_stk) s1)) = Inr s'"
    using inner unfolding if_not_P [OF ok] .
  then have "delta \<le> dl_stake (st_delegation stk) \<and>
    (\<exists>s1. write_stake L me (Stake m (with_stake (dl_stake (st_delegation stk) - delta) stk)) s = Inr s1 \<and>
      write_stake L sp (Stake (m\<lparr>rent_exempt_reserve := sr\<rparr>) (with_stake amount stk)) s1 = Inr s')"
    by (auto simp: and_then_Inr_iff stake_split_def with_stake_def Let_def split: if_splits)
  moreover from ok have "split_amounts n (lamports (s (acct me))) (lamports (s (acct sp))) (rent_exempt_reserve m) sr delta amount"
    by (auto simp: split_amounts_def missing_def delta_def amount_def)
  ultimately show thesis using signed by (blast intro: that)
qed

lemma split_initialized_Inr:
  "split_initialized L me n sp S m s = Inr s' \<longleftrightarrow>
     (\<exists>sr. sr = calculate_split_rent_exempt_reserve (rent_exempt_reserve m)
         (of_nat (length (data (s (acct me))))) (of_nat (length (data (s (acct sp))))) \<and>
       staker (sm_authorized m) \<in> S \<and> sr \<le> n \<and>
       (n = lamports (s (acct me)) \<or> n + rent_exempt_reserve m < lamports (s (acct me)) \<and>
          saturating_sub sr (lamports (s (acct sp))) < n) \<and>
       write_stake L sp (StakeInitialized (m\<lparr>rent_exempt_reserve := sr\<rparr>)) s = Inr s')"
  by (auto simp: split_initialized_def and_then_Inr_iff Let_def not_less not_le split: if_splits)

definition split_states ::
  "stake_lib \<Rightarrow> keyed_account \<Rightarrow> u64 \<Rightarrow> keyed_account \<Rightarrow> pubkey set \<Rightarrow> stake_state \<Rightarrow> store \<Rightarrow> store program_result" where
  "split_states L me n sp S st s = (case st of
      Stake m stk \<Rightarrow> split_delegated L me n sp S m stk s
    | StakeInitialized m \<Rightarrow> split_initialized L me n sp S m s
    | StakeUninitialized \<Rightarrow> if key me \<notin> S then Inl (Err MissingRequiredSignature) else Inr s
    | RewardsPool \<Rightarrow> Inl (Err InvalidAccountData))"

lemma split_stake_Inr:
  assumes "split_stake_account L me n sp S s = Inr s'"
  obtains st s1 s2 where "owner (s (acct sp)) = stake_program_id" "read_stake L s sp = Inr StakeUninitialized"
    "n \<le> lamports (s (acct me))" "read_stake L s me = Inr st" "split_states L me n sp S st s = Inr s1"
    "(if n = lamports (s1 (acct me)) then write_stake L me StakeUninitialized s1 else Inr s1) = Inr s2"
    "s' = debit (acct me) n (credit (acct sp) n s2)"
  using assms unfolding split_stake_account_def split_states_def [symmetric] if_Inl_Inr and_then_Inr_iff not_less sum.inject
  by (blast intro: that)

lemma merge_stake_Inr:
  assumes "merge_stake_accounts L me src c h S s = Inr s'"
  obtains kind src_kind merged s1 s2 where "owner (s (acct src)) = stake_program_id" "key src \<noteq> key me"
    "get_if_mergeable L me c h s = Inr kind" "staker (sm_authorized (mk_meta kind)) \<in> S"
    "get_if_mergeable L src c h s = Inr src_kind" "merge_kinds kind src_kind = Inr merged"
    "(case merged of Some st \<Rightarrow> write_stake L me st s | None \<Rightarrow> Inr s) = Inr s1"
    "write_stake L src StakeUninitialized s1 = Inr s2"
    "s' = credit (acct me) (lamports (s2 (acct src))) (debit (acct src) (lamports (s2 (acct src))) s2)"
  using assms by (auto simp: merge_stake_accounts_def and_then_Inr_iff Let_def split: if_splits intro: that)

lemma withdraw_stake_Inr:
  assumes "withdraw_stake L me n to c h auth cust s = Inr s'"
  obtains lock reserve staked s1 where "is_signer auth"
    "withdraw_limits L me c h {key auth} s = Inr (lock, reserve, staked)"
    "\<not> is_in_force lock c (Option.bind cust signer_key)"
    "n + reserve \<le> lamports (s (acct me)) \<or> n = lamports (s (acct me)) \<and> \<not> staked"
    "(if n = lamports (s (acct me)) then write_stake L me StakeUninitialized s else Inr s) = Inr s1"
    "s' = credit (acct to) n (debit (acct me) n s1)"
proof -
  from assms obtain a where a: "signer_key auth = Some a"
    by (cases "signer_key auth") (auto simp: withdraw_stake_def ok_or_def)
  then have auth: "is_signer auth" "a = key auth" by (auto simp: signer_key_def split: if_splits)
  from assms a obtain lock reserve staked where lim: "withdraw_limits L me c h {key auth} s = Inr (lock, reserve, staked)"
    by (auto simp: withdraw_stake_def ok_or_def and_then_Inr_iff auth)
  with assms a auth show thesis
    by (auto simp: withdraw_stake_def ok_or_def and_then_Inr_iff Let_def not_less split: if_splits intro: that)
qed

section \<open>What an instruction moves\<close>

lemma debit_credit: "debit a n (credit b n s) = credit b n (debit a n s)"
  by (auto simp: debit_def credit_def)

lemma get_state_lamports [simp]: "get_state C (a\<lparr>lamports := n\<rparr>) = get_state C a"
  by (simp add: get_state_def deserialize_data_def)

lemma write_stake_reads:
  assumes "serde_ok (stk_state L)" and "write_stake L k st s = Inr s'"
  shows "get_state (stk_state L) (s' (acct k)) = Inr st"
  using assms(2) get_set_state [OF assms(1)] by (auto simp: keyed_set_state_Inr)

text \<open>
  States of the accounts in \<open>R\<close> were written: no lamports moved, the owner, the size of the data and
  the flags are as before, and what was written reads back as a state.
\<close>

definition rewritten :: "stake_lib \<Rightarrow> nat set \<Rightarrow> store \<Rightarrow> store \<Rightarrow> bool" where
  "rewritten L R s s' \<longleftrightarrow>
     (\<forall>r. s' r = (s r)\<lparr>data := data (s' r)\<rparr> \<and> length (data (s' r)) = length (data (s r))) \<and>
     (\<forall>r. r \<notin> R \<longrightarrow> s' r = s r) \<and>
     (serde_ok (stk_state L) \<longrightarrow> (\<forall>r. s' r = s r \<or> (\<exists>st. get_state (stk_state L) (s' r) = Inr st)))"

lemma rewritten_refl [simp]: "rewritten L R s s"
  by (simp add: rewritten_def)

lemma same_but_data: "a = b\<lparr>data := data a\<rparr> \<Longrightarrow> b = c\<lparr>data := data b\<rparr> \<Longrightarrow> a = c\<lparr>data := data a\<rparr>"
  by (cases a; cases b; cases c) simp

lemma rewritten_trans: "rewritten L R s s1 \<Longrightarrow> rewritten L R s1 s2 \<Longrightarrow> rewritten L R s s2"
  unfolding rewritten_def by (metis same_but_data)

lemma rewritten_keeps:
  assumes "rewritten L R s s'"
  shows "lamports (s' r) = lamports (s r)" and "owner (s' r) = owner (s r)" and "r \<notin> R \<Longrightarrow> s' r = s r"
proof -
  have "s' r = (s r)\<lparr>data := data (s' r)\<rparr>" using assms by (simp add: rewritten_def)
  then show "lamports (s' r) = lamports (s r)" "owner (s' r) = owner (s r)" by (cases "s r"; cases "s' r"; simp)+
  show "r \<notin> R \<Longrightarrow> s' r = s r" using assms by (simp add: rewritten_def)
qed

lemma write_rewritten:
  assumes "write_stake L k st s = Inr s'" and "acct k \<in> R"
  shows "rewritten L R s s'"
  unfolding rewritten_def
proof (intro conjI allI impI)
  obtain d where d: "s' = s(acct k := (s (acct k))\<lparr>data := d\<rparr>)"
    using assms(1) by (auto simp: keyed_set_state_Inr set_state_def serialize_data_def ok_or_def split: if_splits)
  show "s' r = (s r)\<lparr>data := data (s' r)\<rparr>" for r by (simp add: d)
  show "length (data (s' r)) = length (data (s r))" for r using assms(1) by (simp add: keyed_set_state_keeps)
  show "s' r = s r" if "r \<notin> R" for r using that assms(2) by (auto simp: d)
  show "s' r = s r \<or> (\<exists>st. get_state (stk_state L) (s' r) = Inr st)" if "serde_ok (stk_state L)" for r
    using write_stake_reads [OF that assms(1)] by (cases "r = acct k") (simp_all add: d)
qed

text \<open>An instruction writes states and then moves lamports from one of its accounts to another.\<close>

definition stake_effect :: "stake_lib \<Rightarrow> keyed_account list \<Rightarrow> store \<Rightarrow> store \<Rightarrow> bool" where
  "stake_effect L ks s s' \<longleftrightarrow> (\<exists>s1. rewritten L (acct ` set ks) s s1 \<and>
     (\<exists>a\<in>set ks. \<exists>b\<in>set ks. \<exists>n. s' = credit (acct b) n (debit (acct a) n s1)))"

lemma stake_effect_rewritten:
  assumes "rewritten L (acct ` set ks) s s'" and "k \<in> set ks"
  shows "stake_effect L ks s s'"
proof -
  have "s' = credit (acct k) 0 (debit (acct k) 0 s')" by (simp add: credit_def debit_def)
  with assms show ?thesis unfolding stake_effect_def by blast
qed

lemma stake_effect_moved:
  assumes "rewritten L (acct ` set ks) s s1" and "a \<in> set ks" and "b \<in> set ks"
    and "s' = credit (acct b) n (debit (acct a) n s1)"
  shows "stake_effect L ks s s'"
  using assms unfolding stake_effect_def by blast

lemma split_states_rewritten:
  assumes "split_states L me n sp S st s = Inr s'" and "acct me \<in> R" and "acct sp \<in> R"
  shows "rewritten L R s s'"
proof (cases st)
  case (Stake m stk)
  then have "split_delegated L me n sp S m stk s = Inr s'" using assms(1) by (simp add: split_states_def)
  then show ?thesis
    by (rule split_delegated_Inr) (blast intro: rewritten_trans write_rewritten assms(2,3))
qed (use assms in \<open>auto simp: split_states_def split_initialized_Inr intro: write_rewritten split: if_splits\<close>)

lemma split_effect:
  assumes "split_stake_account L me n sp S s = Inr s'" and "me \<in> set ks" and "sp \<in> set ks"
  shows "stake_effect L ks s s'"
  using assms(1)
proof (rule split_stake_Inr)
  fix st s1 s2
  assume "split_states L me n sp S st s = Inr s1"
    and "(if n = lamports (s1 (acct me)) then write_stake L me StakeUninitialized s1 else Inr s1) = Inr s2"
    and s': "s' = debit (acct me) n (credit (acct sp) n s2)"
  then have "rewritten L (acct ` set ks) s s2" using assms(2,3)
    by (auto intro: rewritten_trans split_states_rewritten write_rewritten split: if_splits)
  then show ?thesis using assms(2,3)
    by (rule stake_effect_moved [where n = n]) (simp add: s' debit_credit)
qed

lemma merge_effect:
  assumes "merge_stake_accounts L me src c h S s = Inr s'" and "me \<in> set ks" and "src \<in> set ks"
  shows "stake_effect L ks s s'"
  using assms(1)
proof (rule merge_stake_Inr)
  fix merged s1 s2
  assume "(case merged of Some st \<Rightarrow> write_stake L me st s | None \<Rightarrow> Inr s) = Inr s1"
    and "write_stake L src StakeUninitialized s1 = Inr s2"
    and s': "s' = credit (acct me) (lamports (s2 (acct src))) (debit (acct src) (lamports (s2 (acct src))) s2)"
  then have "rewritten L (acct ` set ks) s s2" using assms(2,3)
    by (auto intro: rewritten_trans write_rewritten split: option.splits)
  then show ?thesis using assms(3,2) by (rule stake_effect_moved) (simp add: s')
qed

lemma withdraw_effect:
  assumes "withdraw_stake L me n to c h auth cust s = Inr s'" and "me \<in> set ks" and "to \<in> set ks"
  shows "stake_effect L ks s s'"
  using assms(1)
proof (rule withdraw_stake_Inr)
  fix s1
  assume "(if n = lamports (s (acct me)) then write_stake L me StakeUninitialized s else Inr s) = Inr s1"
    and s': "s' = credit (acct to) n (debit (acct me) n s1)"
  then have "rewritten L (acct ` set ks) s s1" using assms(2) by (auto intro: write_rewritten split: if_splits)
  then show ?thesis using assms(2,3) by (rule stake_effect_moved) (simp add: s')
qed

lemma state_change_effect:
  assumes "me \<in> set ks"
  shows "initialize_stake L me a l r s = Inr s' \<Longrightarrow> stake_effect L ks s s'"
    and "authorize_stake L me S k w s = Inr s' \<Longrightarrow> stake_effect L ks s s'"
    and "delegate_stake_account L me v c h cfg S s = Inr s' \<Longrightarrow> stake_effect L ks s s'"
    and "deactivate_stake_account L me c S s = Inr s' \<Longrightarrow> stake_effect L ks s s'"
    and "set_stake_lockup L me args S s = Inr s' \<Longrightarrow> stake_effect L ks s s'"
proof -
  have "stake_effect L ks s s'" if "write_stake L me st s = Inr s'" for st
    using assms that by (blast intro: stake_effect_rewritten write_rewritten)
  then show "initialize_stake L me a l r s = Inr s' \<Longrightarrow> stake_effect L ks s s'"
    "authorize_stake L me S k w s = Inr s' \<Longrightarrow> stake_effect L ks s s'"
    "delegate_stake_account L me v c h cfg S s = Inr s' \<Longrightarrow> stake_effect L ks s s'"
    "deactivate_stake_account L me c S s = Inr s' \<Longrightarrow> stake_effect L ks s s'"
    "set_stake_lockup L me args S s = Inr s' \<Longrightarrow> stake_effect L ks s s'"
    by (blast elim: initialize_stake_Inr authorize_stake_Inr delegate_stake_Inr deactivate_stake_Inr set_stake_lockup_Inr)+
qed

lemma stake_dispatch_effect:
  assumes "stake_dispatch L me ks S ix s = Inr s'"
  shows "stake_effect L (me # ks) s s'"
proof (cases ix)
  case (StakeAuthorizeWithSeed k w seed own)
  with assms show ?thesis
    by (auto simp: stake_dispatch_def and_then_Inr_iff elim!: authorize_stake_with_seed_Inr intro: state_change_effect)
qed (use assms in \<open>auto simp: stake_dispatch_def clock_and_history_def and_then_Inr_iff
  intro: state_change_effect split_effect merge_effect withdraw_effect\<close>)

definition stake_run :: "stake_lib \<Rightarrow> keyed_account list \<times> bytes \<Rightarrow> store \<Rightarrow> store program_result" where
  "stake_run L = (\<lambda>(ks, bs). stake_process_instruction L ks bs)"

lemma stake_process_Inr:
  assumes "stake_process_instruction L kas bs s = Inr s'"
  obtains me ks ix where "kas = me # ks" "owner (s (acct me)) = stake_program_id"
    "limited_deserialize (stk_instruction L) bs = Inr ix" "stake_dispatch L me ks (get_signers kas) ix s = Inr s'"
  using assms by (auto simp: stake_process_instruction_def and_then_Inr_iff Let_def split: if_splits intro: that)

lemma stake_effect_frame: "stake_effect L ks s s' \<Longrightarrow> r \<notin> passed_accounts (ks, bs) \<Longrightarrow> s' r = s r"
  by (auto simp: stake_effect_def passed_accounts_def credit_def debit_def rewritten_keeps(3))

lemma stake_effect_wrapped:
  assumes "stake_effect L ks s s'" and "finite R" and "passed_accounts (ks, bs) \<subseteq> R"
  shows "wrapped_total R s' = wrapped_total R s"
proof -
  from assms(1) obtain a b n s1 where "rewritten L (acct ` set ks) s s1" "a \<in> set ks" "b \<in> set ks"
    "s' = credit (acct b) n (debit (acct a) n s1)" by (auto simp: stake_effect_def)
  moreover from this(1) have "wrapped_total R s1 = wrapped_total R s" by (simp add: wrapped_total_def rewritten_keeps)
  moreover have "acct a \<in> R" "acct b \<in> R" using calculation(2,3) assms(3) by (auto simp: passed_accounts_def)
  ultimately show ?thesis using assms(2) by (simp add: lamport_simps)
qed

interpretation stake: lamport_program "stake_run L" passed_accounts for L
proof
  fix i s s' r R
  assume run: "stake_run L i s = Inr s'"
  obtain ks bs where i: "i = (ks, bs)" by fastforce
  have "stake_effect L ks s s'"
    using run by (auto simp: stake_run_def i elim!: stake_process_Inr intro: stake_dispatch_effect)
  then show "r \<notin> passed_accounts i \<Longrightarrow> s' r = s r"
    "finite R \<Longrightarrow> passed_accounts i \<subseteq> R \<Longrightarrow> wrapped_total R s' = wrapped_total R s"
    by (auto simp: i dest: stake_effect_frame stake_effect_wrapped)
qed

section \<open>Types of accounts\<close>

definition well_typed :: "stake_lib \<Rightarrow> account \<Rightarrow> bool" where
  "well_typed L a \<longleftrightarrow> (owner a = stake_program_id \<longrightarrow> (\<exists>st. get_state (stk_state L) a = Inr st))"

lemma stake_effect_typed:
  assumes "serde_ok (stk_state L)" and "stake_effect L ks s s'"
  shows "(well_typed L (s r) \<longrightarrow> well_typed L (s' r)) \<and> owner (s' r) = owner (s r) \<and>
    length (data (s' r)) = length (data (s r)) \<and> executable (s' r) = executable (s r) \<and> rent_epoch (s' r) = rent_epoch (s r)"
proof -
  from assms(2) obtain s1 a b n where rw: "rewritten L (acct ` set ks) s s1" and "a \<in> set ks" and "b \<in> set ks"
    and s'_def: "s' = credit (acct b) n (debit (acct a) n s1)" unfolding stake_effect_def by blast
  have "s' r = (s1 r)\<lparr>lamports := lamports (s' r)\<rparr>" by (simp add: s'_def credit_def debit_def)
  then have s': "\<exists>n. s' r = (s1 r)\<lparr>lamports := n\<rparr>" by blast
  have "s1 r = (s r)\<lparr>data := data (s1 r)\<rparr>" "length (data (s1 r)) = length (data (s r))"
    "s1 r = s r \<or> (\<exists>st. get_state (stk_state L) (s1 r) = Inr st)"
    using rw assms(1) unfolding rewritten_def by blast+
  with s' show ?thesis by (cases "s r"; cases "s1 r") (auto simp: well_typed_def get_state_def deserialize_data_def)
qed

lemma stake_process_effect: "stake_process_instruction L kas bs s = Inr s' \<Longrightarrow> stake_effect L kas s s'"
  by (auto elim!: stake_process_Inr intro: stake_dispatch_effect)

text \<open>
  (C17) Stake instructions keep the types of accounts: an account of the stake program whose data
  decodes to a stake state still holds one afterwards, and of every account the owner, the size of
  the data, the executable flag and the rent epoch are unchanged.
\<close>

theorem stake_accounts_stay_typed:
  assumes "serde_ok (stk_state L)" and "stake_process_instruction L kas bs s = Inr s'"
  shows "(well_typed L (s r) \<longrightarrow> well_typed L (s' r)) \<and> owner (s' r) = owner (s r) \<and>
    length (data (s' r)) = length (data (s r)) \<and> executable (s' r) = executable (s r) \<and> rent_epoch (s' r) = rent_epoch (s r)"
  using assms(1) stake_process_effect [OF assms(2)] by (rule stake_effect_typed)

section \<open>Who must have signed\<close>

fun authorize_authority :: "stake_authorize \<Rightarrow> stake_authorized \<Rightarrow> pubkey set" where
  "authorize_authority StakeStaker a = {staker a, withdrawer a}"
| "authorize_authority StakeWithdrawer a = {withdrawer a}"

definition stake_authority :: "stake_instruction \<Rightarrow> stake_meta \<Rightarrow> pubkey set" where
  "stake_authority ix m = (case ix of
      StakeInitialize _ _ \<Rightarrow> {}
    | StakeAuthorize _ w \<Rightarrow> authorize_authority w (sm_authorized m)
    | StakeAuthorizeWithSeed _ w _ _ \<Rightarrow> authorize_authority w (sm_authorized m)
    | StakeWithdraw _ \<Rightarrow> {withdrawer (sm_authorized m)}
    | SetLockup _ \<Rightarrow> {lk_custodian (sm_lockup m)}
    | _ \<Rightarrow> {staker (sm_authorized m)})"

text \<open>The keys that count as signed: those of the signers, and for the seed variant those derived from one.\<close>

definition consents :: "stake_lib \<Rightarrow> keyed_account list \<Rightarrow> stake_instruction \<Rightarrow> pubkey \<Rightarrow> bool" where
  "consents L kas ix k \<longleftrightarrow> (case ix of
      StakeAuthorizeWithSeed _ _ seed own \<Rightarrow>
        \<exists>base\<in>get_signers kas. create_with_seed (stk_sha256 L) base seed own = Inr k
    | _ \<Rightarrow> k \<in> get_signers kas)"

lemma authorize_stake_authority:
  assumes "authorize_stake L me S k w s = Inr s'" and "read_stake L s me = Inr st" and "state_meta st = Some m"
  shows "\<exists>x\<in>authorize_authority w (sm_authorized m). x \<in> S"
  using assms(1) by (rule authorize_stake_Inr) (cases w; use assms(2,3) in \<open>auto dest: authorized_authorize_Inr\<close>)

lemma state_meta_iff:
  "state_meta st = Some m \<longleftrightarrow> st = StakeInitialized m \<or> (\<exists>stk. st = Stake m stk)"
  by (cases st) auto

lemma split_authority:
  assumes "split_stake_account L me n sp S s = Inr s'" and "read_stake L s me = Inr st" and "state_meta st = Some m"
  shows "staker (sm_authorized m) \<in> S"
  using assms(1)
proof (rule split_stake_Inr)
  fix st' s1 assume "read_stake L s me = Inr st'" and "split_states L me n sp S st' s = Inr s1"
  with assms(2,3) show ?thesis
    by (auto simp: state_meta_iff split_states_def split_initialized_Inr elim: split_delegated_Inr)
qed

lemma mergeable_meta:
  assumes "get_if_mergeable L k c h s = Inr kind" and "read_stake L s k = Inr st" and "state_meta st = Some m"
  shows "mk_meta kind = m"
  using assms by (auto simp: get_if_mergeable_def state_meta_iff split: prod.splits if_splits)

lemma merge_authority:
  assumes "merge_stake_accounts L me src c h S s = Inr s'" and "read_stake L s me = Inr st" and "state_meta st = Some m"
  shows "staker (sm_authorized m) \<in> S"
  using assms(1) by (rule merge_stake_Inr) (use assms(2,3) mergeable_meta in fastforce)

lemma withdraw_limits_Inr:
  assumes "withdraw_limits L me c h S s = Inr (lock, reserve, staked)" and "read_stake L s me = Inr st"
    and "state_meta st = Some m"
  shows "lock = sm_lockup m" and "withdrawer (sm_authorized m) \<in> S"
  using assms by (auto simp: withdraw_limits_def state_meta_iff and_then_Inr_iff Let_def)

lemma withdraw_authority:
  assumes "withdraw_stake L me n to c h auth cust s = Inr s'" and "read_stake L s me = Inr st"
    and "state_meta st = Some m"
  shows "is_signer auth" and "withdrawer (sm_authorized m) = key auth"
    and "\<not> is_in_force (sm_lockup m) c (Option.bind cust signer_key)"
  using assms(1) by (rule withdraw_stake_Inr; use assms(2,3) withdraw_limits_Inr in fastforce)+

definition lockup_open :: "stake_lib \<Rightarrow> keyed_account list \<Rightarrow> lockup \<Rightarrow> store \<Rightarrow> bool" where
  "lockup_open L kas l s \<longleftrightarrow>
     lk_custodian l \<in> get_signers kas \<or>
     (\<exists>k\<in>set kas. \<exists>c. from_keyed_account sysvar_clock_id (stk_clock L) s k = Inr c \<and>
        sint (lk_unix_timestamp l) \<le> sint (unix_timestamp c) \<and> lk_epoch l \<le> clock_epoch c)"

lemma withdraw_dispatch_Inr:
  assumes "stake_dispatch L me ks S (StakeWithdraw n) s = Inr s'"
  obtains to ck hk auth rest c h where "ks = to # ck # hk # auth # rest"
    "from_keyed_account sysvar_clock_id (stk_clock L) s ck = Inr c"
    "withdraw_stake L me n to c h auth (case rest of [] \<Rightarrow> None | k # _ \<Rightarrow> Some k) s = Inr s'"
  using assms by (auto simp: stake_dispatch_def clock_and_history_def and_then_Inr_iff intro: that)

lemma withdraw_lockup_open:
  assumes "stake_dispatch L me ks S (StakeWithdraw n) s = Inr s'"
    and "read_stake L s me = Inr st" and "state_meta st = Some m"
  shows "withdrawer (sm_authorized m) \<in> get_signers (me # ks)" and "lockup_open L (me # ks) (sm_lockup m) s"
proof -
  from assms(1) obtain to ck hk auth rest c h where ks: "ks = to # ck # hk # auth # rest"
    and c: "from_keyed_account sysvar_clock_id (stk_clock L) s ck = Inr c"
    and run: "withdraw_stake L me n to c h auth (case rest of [] \<Rightarrow> None | k # _ \<Rightarrow> Some k) s = Inr s'"
    by (rule withdraw_dispatch_Inr)
  note wd = withdraw_authority [OF run assms(2,3)]
  show "withdrawer (sm_authorized m) \<in> get_signers (me # ks)"
    using wd(1,2) signer_in_signers [of auth "me # ks"] by (simp add: ks signer_key_def)
  show "lockup_open L (me # ks) (sm_lockup m) s"
  proof (cases "is_in_force (sm_lockup m) c None")
    case True
    with wd(3) obtain k rest' where "rest = k # rest'" "signer_key k = Some (lk_custodian (sm_lockup m))"
      by (auto simp: is_in_force_def split: list.splits if_splits)
    then show ?thesis using signer_in_signers [of k "me # ks"]
      by (auto simp: lockup_open_def ks signer_key_def split: if_splits)
  next
    case False
    then have "sint (lk_unix_timestamp (sm_lockup m)) \<le> sint (unix_timestamp c)" "lk_epoch (sm_lockup m) \<le> clock_epoch c"
      by (simp_all add: is_in_force_def not_less)
    with c show ?thesis unfolding lockup_open_def ks by auto
  qed
qed

lemma stake_dispatch_signed:
  assumes "stake_dispatch L me ks (get_signers (me # ks)) ix s = Inr s'"
    and "read_stake L s me = Inr st" and "state_meta st = Some m"
  shows "\<exists>k\<in>stake_authority ix m. consents L (me # ks) ix k"
proof (cases ix)
  case (StakeAuthorizeWithSeed k w seed own)
  with assms(1) obtain base rest where "ks = base # rest"
    "authorize_stake_with_seed L me base seed own k w s = Inr s'"
    by (auto simp: stake_dispatch_def and_then_Inr_iff)
  moreover from this(2) obtain S where "authorize_stake L me S k w s = Inr s'"
    "\<forall>x\<in>S. signer_key base \<noteq> None \<and> create_with_seed (stk_sha256 L) (key base) seed own = Inr x"
    by (rule authorize_stake_with_seed_Inr)
  ultimately show ?thesis using authorize_stake_authority [OF _ assms(2,3)] signer_in_signers [of base "me # ks"]
    by (fastforce simp: StakeAuthorizeWithSeed stake_authority_def consents_def)
next
  case (StakeWithdraw n)
  then show ?thesis using withdraw_lockup_open(1) [OF _ assms(2,3)] assms(1)
    by (fastforce simp: stake_authority_def consents_def)
next
  case (StakeInitialize a l)
  with assms show ?thesis
    by (auto simp: stake_dispatch_def and_then_Inr_iff state_meta_iff elim!: initialize_stake_Inr)
next
  case (StakeAuthorize k w)
  with assms show ?thesis using authorize_stake_authority [OF _ assms(2,3)]
    by (auto simp: stake_dispatch_def stake_authority_def consents_def)
qed (use assms in \<open>auto simp: stake_dispatch_def clock_and_history_def and_then_Inr_iff stake_authority_def consents_def
  state_meta_iff
  elim!: delegate_stake_Inr deactivate_stake_Inr set_stake_lockup_Inr dest: split_authority merge_authority\<close>)


text \<open>Account 1 is a stake account locked until epoch 9, which its custodian (key 83) may override.\<close>

definition keyed :: "pubkey \<Rightarrow> nat \<Rightarrow> bool \<Rightarrow> keyed_account" where
  "keyed k r sig = \<lparr>is_signer = sig, is_writable = True, key = k, acct = r\<rparr>"

definition demo_meta :: stake_meta where
  "demo_meta = \<lparr>rent_exempt_reserve = 10, sm_authorized = \<lparr>staker = 81, withdrawer = 82\<rparr>,
     sm_lockup = \<lparr>lk_unix_timestamp = 0, lk_epoch = 9, lk_custodian = 83\<rparr>\<rparr>"

definition stake_store :: store where
  "stake_store r = (if r = 1 then stake_account_of 100 (StakeInitialized demo_meta) else default_account)"

definition withdraw_accounts :: "keyed_account list" where
  "withdraw_accounts = [keyed 72 2 False, keyed sysvar_clock_id 3 False, keyed sysvar_stake_history_id 4 False,
     keyed 82 5 True, keyed 83 6 True]"

lemma keyed_sel [simp]:
  "acct (keyed k r sig) = r" "key (keyed k r sig) = k" "is_signer (keyed k r sig) = sig"
  "signer_key (keyed k r sig) = (if sig then Some k else None)"
  by (simp_all add: keyed_def signer_key_def)

lemma stake_withdraw_runs:
  "stake_process_instruction (demo_stake (StakeWithdraw 40)) (keyed 71 1 False # withdraw_accounts) [] stake_store =
     Inr (credit 2 40 (debit 1 40 stake_store))"
  by (simp add: stake_process_instruction_def stake_dispatch_def clock_and_history_def withdraw_accounts_def withdraw_stake_def
    withdraw_limits_def keyed_state_def stake_store_def demo_meta_def next_keyed_account_def authorized_check_def is_in_force_def
    ok_or_def)


theorem stake_accounts_stay_typed_witness:
  "well_typed (demo_stake (StakeWithdraw 40)) (credit 2 40 (debit 1 40 stake_store) 1) \<and>
   owner (credit 2 40 (debit 1 40 stake_store) 1) = stake_program_id"
proof -
  have ok: "serde_ok (stk_state (demo_stake (StakeWithdraw 40)))" using stake_account.codec_axioms by simp
  from stake_accounts_stay_typed [OF ok stake_withdraw_runs, of 1] show ?thesis
    by (simp add: well_typed_def stake_store_def [of 1] del: One_nat_def)
qed

end
