(* ===== verification/LegacyStake.thy ===== *)
theory LegacyStake
  imports StakeSafety
begin

text \<open>
  The stake program a bank registers at genesis (\<open>programs/stake/src/legacy_stake_processor.rs\<close> and
  \<open>legacy_stake_state.rs\<close>). Its handlers are those of the current program, but for splitting, merging
  and withdrawing, which leave the state of a drained account behind.
\<close>

section \<open>Handlers\<close>

definition legacy_split_stake_account ::
  "stake_lib \<Rightarrow> keyed_account \<Rightarrow> u64 \<Rightarrow> keyed_account \<Rightarrow> pubkey set \<Rightarrow> store \<Rightarrow> store program_result" where
  "legacy_split_stake_account L me amount split signers s =
     (if owner (s (acct split)) \<noteq> stake_program_id then Inl (Err IncorrectProgramId)
      else and_then (read_stake L s split) (\<lambda>split_state.
        if split_state \<noteq> StakeUninitialized then Inl (Err InvalidAccountData)
        else if lamports (s (acct me)) < amount then Inl (Err InsufficientFunds)
        else and_then (read_stake L s me) (\<lambda>st.
             and_then
               (case st of
                  Stake m stk \<Rightarrow> split_delegated L me amount split signers m stk s
                | StakeInitialized m \<Rightarrow> split_initialized L me amount split signers m s
                | StakeUninitialized \<Rightarrow>
                    if key me \<notin> signers then Inl (Err MissingRequiredSignature) else Inr s
                | RewardsPool \<Rightarrow> Inl (Err InvalidAccountData)) (\<lambda>s1.
               Inr (debit (acct me) amount (credit (acct split) amount s1))))))"

definition legacy_merge_stake_accounts ::
  "stake_lib \<Rightarrow> keyed_account \<Rightarrow> keyed_account \<Rightarrow> clock \<Rightarrow> stake_history \<Rightarrow> pubkey set \<Rightarrow> store \<Rightarrow> store program_result" where
  "legacy_merge_stake_accounts L me source c history signers s =
     (if owner (s (acct source)) \<noteq> stake_program_id then Inl (Err IncorrectProgramId)
      else if key source = key me then Inl (Err InvalidArgument)
      else and_then (get_if_mergeable L me c history s) (\<lambda>kind.
           and_then (authorized_check (sm_authorized (mk_meta kind)) signers StakeStaker) (\<lambda>_.
           and_then (get_if_mergeable L source c history s) (\<lambda>source_kind.
           and_then (merge_kinds kind source_kind) (\<lambda>merged.
           and_then (case merged of Some st \<Rightarrow> write_stake L me st s | None \<Rightarrow> Inr s) (\<lambda>s1.
             let amount = lamports (s1 (acct source))
             in Inr (credit (acct me) amount (debit (acct source) amount s1))))))))"

definition legacy_withdraw_stake ::
  "stake_lib \<Rightarrow> keyed_account \<Rightarrow> u64 \<Rightarrow> keyed_account \<Rightarrow> clock \<Rightarrow> stake_history \<Rightarrow> keyed_account \<Rightarrow> keyed_account option \<Rightarrow>
     store \<Rightarrow> store program_result" where
  "legacy_withdraw_stake L me amount to c history withdraw_authority custodian s =
     and_then (ok_or (signer_key withdraw_authority) (Err MissingRequiredSignature)) (\<lambda>authority.
     and_then (withdraw_limits L me c history {authority} s) (\<lambda>(lock, reserve, is_staked).
       let balance = lamports (s (acct me))
       in if is_in_force lock c (Option.bind custodian signer_key) then Inl (Err (stake_error_code LockupInForce))
          else if is_staked \<and> balance < amount + reserve then Inl (Err InsufficientFunds)
          else if amount \<noteq> balance \<and> balance < amount + reserve
          then if is_staked then Inl Panic else Inl (Err InsufficientFunds)
          else Inr (credit (acct to) amount (debit (acct me) amount s))))"

section \<open>The instruction processor\<close>

definition legacy_stake_dispatch ::
  "stake_lib \<Rightarrow> keyed_account \<Rightarrow> keyed_account list \<Rightarrow> pubkey set \<Rightarrow> stake_instruction \<Rightarrow> store \<Rightarrow> store program_result" where
  "legacy_stake_dispatch L me ks signers ix s =
     (case ix of
        StakeSplit amount \<Rightarrow>
          and_then (next_keyed_account ks) (\<lambda>(split, _). legacy_split_stake_account L me amount split signers s)
      | StakeMerge \<Rightarrow>
          and_then (next_keyed_account ks) (\<lambda>(source, ks1).
          and_then (clock_and_history L ks1 s) (\<lambda>(c, h, _).
            legacy_merge_stake_accounts L me source c h signers s))
      | StakeWithdraw amount \<Rightarrow>
          and_then (next_keyed_account ks) (\<lambda>(to, ks1).
          and_then (clock_and_history L ks1 s) (\<lambda>(c, h, ks2).
          and_then (next_keyed_account ks2) (\<lambda>(withdraw_authority, ks3).
            legacy_withdraw_stake L me amount to c h withdraw_authority
              (case ks3 of [] \<Rightarrow> None | k # _ \<Rightarrow> Some k) s)))
      | _ \<Rightarrow> stake_dispatch L me ks signers ix s)"

text \<open>Unlike the current processor, this one does not check the owner of the first account.\<close>

definition legacy_stake_process_instruction ::
  "stake_lib \<Rightarrow> keyed_account list \<Rightarrow> bytes \<Rightarrow> store \<Rightarrow> store program_result" where
  "legacy_stake_process_instruction L keyed_accounts bs s =
     (let signers = get_signers keyed_accounts
      in and_then (next_keyed_account keyed_accounts) (\<lambda>(me, ks).
         and_then (limited_deserialize (stk_instruction L) bs) (\<lambda>ix.
           legacy_stake_dispatch L me ks signers ix s)))"

section \<open>What an instruction moves\<close>

lemma legacy_split_Inr:
  "legacy_split_stake_account L me n sp S s = Inr s' \<longleftrightarrow>
     owner (s (acct sp)) = stake_program_id \<and> read_stake L s sp = Inr StakeUninitialized \<and> n \<le> lamports (s (acct me)) \<and>
     (\<exists>st s1. read_stake L s me = Inr st \<and> split_states L me n sp S st s = Inr s1 \<and>
        s' = debit (acct me) n (credit (acct sp) n s1))"
  unfolding legacy_split_stake_account_def split_states_def [symmetric] if_Inl_Inr and_then_Inr_iff not_less sum.inject
  by blast

lemma legacy_merge_Inr:
  "legacy_merge_stake_accounts L me src c h S s = Inr s' \<longleftrightarrow>
     owner (s (acct src)) = stake_program_id \<and> key src \<noteq> key me \<and>
     (\<exists>kind src_kind merged s1. get_if_mergeable L me c h s = Inr kind \<and> staker (sm_authorized (mk_meta kind)) \<in> S \<and>
        get_if_mergeable L src c h s = Inr src_kind \<and> merge_kinds kind src_kind = Inr merged \<and>
        (case merged of Some st \<Rightarrow> write_stake L me st s | None \<Rightarrow> Inr s) = Inr s1 \<and>
        s' = credit (acct me) (lamports (s1 (acct src))) (debit (acct src) (lamports (s1 (acct src))) s1))"
  by (auto simp: legacy_merge_stake_accounts_def and_then_Inr_iff Let_def)

lemma legacy_withdraw_Inr:
  "legacy_withdraw_stake L me n to c h auth cust s = Inr s' \<Longrightarrow> s' = credit (acct to) n (debit (acct me) n s)"
  by (auto simp: legacy_withdraw_stake_def and_then_Inr_iff Let_def split: if_splits)

lemma legacy_dispatch_effect:
  assumes "legacy_stake_dispatch L me ks S ix s = Inr s'"
  shows "stake_effect L (me # ks) s s'"
proof (cases ix)
  case (StakeSplit n)
  with assms obtain sp rest where ks: "ks = sp # rest" and run: "legacy_split_stake_account L me n sp S s = Inr s'"
    by (auto simp: legacy_stake_dispatch_def and_then_Inr_iff)
  from run obtain st s1 where st: "split_states L me n sp S st s = Inr s1"
    and s': "s' = debit (acct me) n (credit (acct sp) n s1)" by (auto simp: legacy_split_Inr)
  have "rewritten L (acct ` set (me # ks)) s s1" using st by (rule split_states_rewritten) (simp_all add: ks)
  then show ?thesis
    by (rule stake_effect_moved [where a = me and b = sp and n = n]) (simp_all add: ks s' debit_credit)
next
  case StakeMerge
  with assms obtain src rest c h where ks: "ks = src # rest" and run: "legacy_merge_stake_accounts L me src c h S s = Inr s'"
    by (auto simp: legacy_stake_dispatch_def clock_and_history_def and_then_Inr_iff)
  from run obtain merged s1 where m: "(case merged of Some st \<Rightarrow> write_stake L me st s | None \<Rightarrow> Inr s) = Inr s1"
    and s': "s' = credit (acct me) (lamports (s1 (acct src))) (debit (acct src) (lamports (s1 (acct src))) s1)"
    by (auto simp: legacy_merge_Inr)
  have "rewritten L (acct ` set (me # ks)) s s1" using m by (auto intro: write_rewritten split: option.splits)
  then show ?thesis by (rule stake_effect_moved [where a = src and b = me]) (simp_all add: ks s')
next
  case (StakeWithdraw n)
  with assms obtain to rest where ks: "ks = to # rest" and s': "s' = credit (acct to) n (debit (acct me) n s)"
    by (auto simp: legacy_stake_dispatch_def clock_and_history_def and_then_Inr_iff dest: legacy_withdraw_Inr)
  show ?thesis by (rule stake_effect_moved [where a = me and b = to and n = n and ?s1.0 = s]) (simp_all add: ks s')
qed (use assms in \<open>auto simp: legacy_stake_dispatch_def intro: stake_dispatch_effect\<close>)

definition legacy_stake_run :: "stake_lib \<Rightarrow> keyed_account list \<times> bytes \<Rightarrow> store \<Rightarrow> store program_result" where
  "legacy_stake_run L = (\<lambda>(ks, bs). legacy_stake_process_instruction L ks bs)"

interpretation legacy_stake: lamport_program "legacy_stake_run L" passed_accounts for L
proof
  fix i s s' r R
  assume run: "legacy_stake_run L i s = Inr s'"
  obtain ks bs where i: "i = (ks, bs)" by fastforce
  have "stake_effect L ks s s'"
    using run by (auto simp: legacy_stake_run_def legacy_stake_process_instruction_def i and_then_Inr_iff
      intro: legacy_dispatch_effect)
  then show "r \<notin> passed_accounts i \<Longrightarrow> s' r = s r"
    "finite R \<Longrightarrow> passed_accounts i \<subseteq> R \<Longrightarrow> wrapped_total R s' = wrapped_total R s"
    by (auto simp: i dest: stake_effect_frame stake_effect_wrapped)
qed

section \<open>The current program replaces it\<close>

text \<open>The stores agree, but for the data of accounts the current program has deinitialised.\<close>

definition stale :: "stake_lib \<Rightarrow> account \<Rightarrow> account \<Rightarrow> bool" where
  "stale L a b \<longleftrightarrow> b = a \<or> get_state (stk_state L) a = Inr StakeUninitialized \<and> b = a\<lparr>data := data b\<rparr>"

definition left_behind :: "stake_lib \<Rightarrow> store \<Rightarrow> store \<Rightarrow> bool" where
  "left_behind L s t \<longleftrightarrow> (\<forall>r. stale L (s r) (t r))"

lemma left_behind_refl [simp]: "left_behind L s s"
  by (simp add: left_behind_def stale_def)

lemma stale_lamports:
  assumes "stale L a b"
  shows "lamports b = lamports a" and "stale L (a\<lparr>lamports := n\<rparr>) (b\<lparr>lamports := n\<rparr>)"
    and "stale L a (b\<lparr>lamports := lamports a\<rparr>)"
  using assms by (cases a; cases b; auto simp: stale_def get_state_def deserialize_data_def)+

lemma left_behind_moved:
  assumes "left_behind L s t"
  shows "left_behind L (credit b n (debit a n s)) (credit b n (debit a n t))"
proof -
  have "lamports (t r) = lamports (s r)" for r using assms stale_lamports(1) by (auto simp: left_behind_def)
  with assms show ?thesis by (auto simp: left_behind_def credit_def debit_def intro!: stale_lamports(2,3))
qed

lemma left_behind_write:
  assumes "serde_ok (stk_state L)" and "write_stake L k StakeUninitialized s = Inr s'"
  shows "left_behind L s' s"
  unfolding left_behind_def stale_def
proof
  fix r
  obtain d where "s' = s(acct k := (s (acct k))\<lparr>data := d\<rparr>)"
    using assms(2) by (auto simp: keyed_set_state_Inr set_state_def serialize_data_def ok_or_def split: if_splits)
  with write_stake_reads [OF assms]
  show "s r = s' r \<or> get_state (stk_state L) (s' r) = Inr StakeUninitialized \<and> s r = (s' r)\<lparr>data := data (s r)\<rparr>"
    by (cases "r = acct k") simp_all
qed

lemma split_legacy:
  assumes "serde_ok (stk_state L)" and "split_stake_account L me n sp S s = Inr s'"
  shows "\<exists>t'. legacy_split_stake_account L me n sp S s = Inr t' \<and> left_behind L s' t'"
  using assms(2)
proof (rule split_stake_Inr)
  fix st s1 s2
  assume run: "owner (s (acct sp)) = stake_program_id" "read_stake L s sp = Inr StakeUninitialized"
      "n \<le> lamports (s (acct me))" "read_stake L s me = Inr st" "split_states L me n sp S st s = Inr s1"
    and s2: "(if n = lamports (s1 (acct me)) then write_stake L me StakeUninitialized s1 else Inr s1) = Inr s2"
    and s': "s' = debit (acct me) n (credit (acct sp) n s2)"
  have "left_behind L s2 s1" using s2 left_behind_write [OF assms(1)] by (auto split: if_splits)
  then have "left_behind L s' (debit (acct me) n (credit (acct sp) n s1))"
    unfolding s' debit_credit by (rule left_behind_moved)
  with run show ?thesis by (auto simp: legacy_split_Inr)
qed

lemma merge_legacy:
  assumes "serde_ok (stk_state L)" and "merge_stake_accounts L me src c h S s = Inr s'"
  shows "\<exists>t'. legacy_merge_stake_accounts L me src c h S s = Inr t' \<and> left_behind L s' t'"
  using assms(2)
proof (rule merge_stake_Inr)
  fix kind src_kind merged s1 s2
  assume run: "owner (s (acct src)) = stake_program_id" "key src \<noteq> key me"
      "get_if_mergeable L me c h s = Inr kind" "staker (sm_authorized (mk_meta kind)) \<in> S"
      "get_if_mergeable L src c h s = Inr src_kind" "merge_kinds kind src_kind = Inr merged"
      "(case merged of Some st \<Rightarrow> write_stake L me st s | None \<Rightarrow> Inr s) = Inr s1"
    and s2: "write_stake L src StakeUninitialized s1 = Inr s2"
    and s': "s' = credit (acct me) (lamports (s2 (acct src))) (debit (acct src) (lamports (s2 (acct src))) s2)"
  have "left_behind L s2 s1" using assms(1) s2 by (rule left_behind_write)
  then have "left_behind L s' (credit (acct me) (lamports (s2 (acct src))) (debit (acct src) (lamports (s2 (acct src))) s1))"
    unfolding s' by (rule left_behind_moved)
  moreover have "lamports (s2 (acct src)) = lamports (s1 (acct src))" using s2 by (simp add: keyed_set_state_keeps)
  ultimately show ?thesis using run by (auto simp: legacy_merge_Inr)
qed

lemma withdraw_legacy:
  assumes "serde_ok (stk_state L)" and "withdraw_stake L me n to c h auth cust s = Inr s'"
  shows "\<exists>t'. legacy_withdraw_stake L me n to c h auth cust s = Inr t' \<and> left_behind L s' t'"
proof -
  have "\<exists>s1. legacy_withdraw_stake L me n to c h auth cust s = Inr (credit (acct to) n (debit (acct me) n s)) \<and>
      (s1 = s \<or> write_stake L me StakeUninitialized s = Inr s1) \<and> s' = credit (acct to) n (debit (acct me) n s1)"
    using assms(2) by (auto simp: withdraw_stake_def legacy_withdraw_stake_def and_then_Inr_iff Let_def split: if_splits)
  then show ?thesis by (auto intro!: left_behind_moved dest: left_behind_write [OF assms(1)])
qed

text \<open>
  (C16) The current stake program replaces the one of genesis without taking anything away: an
  instruction that succeeds with the current program also succeeds with the old one, with the same
  lamports, owners and data in every account, except for the accounts the current program has
  deinitialised, whose old state the old program leaves behind.
\<close>

theorem stake_v3_refines_legacy:
  assumes "serde_ok (stk_state L)" and "stake_process_instruction L kas bs s = Inr s'"
  shows "\<exists>t'. legacy_stake_process_instruction L kas bs s = Inr t' \<and> left_behind L s' t'"
  using assms(2)
proof (rule stake_process_Inr)
  fix me ks ix
  assume kas: "kas = me # ks" and ix: "limited_deserialize (stk_instruction L) bs = Inr ix"
    and run: "stake_dispatch L me ks (get_signers kas) ix s = Inr s'"
  have "\<exists>t'. legacy_stake_dispatch L me ks (get_signers kas) ix s = Inr t' \<and> left_behind L s' t'"
    using run split_legacy [OF assms(1)] merge_legacy [OF assms(1)] withdraw_legacy [OF assms(1)]
    by (cases ix) (fastforce simp: legacy_stake_dispatch_def stake_dispatch_def and_then_Inr_iff)+
  with kas ix show ?thesis by (auto simp: legacy_stake_process_instruction_def next_keyed_account_def)
qed

text \<open>Account 1 is drained: the current program deinitialises it, the old one leaves it initialised.\<close>

lemma drain_runs:
  "\<exists>s'. stake_process_instruction (demo_stake (StakeWithdraw 100)) (keyed 71 1 False # withdraw_accounts) [] stake_store = Inr s' \<and>
     get_state stake_serde (s' 1) = Inr StakeUninitialized"
proof -
  have size: "length (ser stake_serde StakeUninitialized) \<le> length (data (stake_account_of 100 (StakeInitialized demo_meta)))"
    by (simp add: stake_account_of_def stake_serde_def enc_via_def enc_sum_def enc_bool_def STAKE_STATE_SIZE_def)
  then obtain s1 where s1: "write_stake (demo_stake (StakeWithdraw 100)) (keyed 71 1 False) StakeUninitialized stake_store = Inr s1"
    by (simp add: keyed_set_state_def set_state_def serialize_data_def stake_store_def ok_or_def)
  then have "stake_process_instruction (demo_stake (StakeWithdraw 100)) (keyed 71 1 False # withdraw_accounts) [] stake_store =
     Inr (credit 2 100 (debit 1 100 s1))"
    by (simp add: stake_process_instruction_def stake_dispatch_def clock_and_history_def withdraw_accounts_def withdraw_stake_def
      withdraw_limits_def keyed_state_def stake_store_def [of 1] demo_meta_def next_keyed_account_def authorized_check_def
      is_in_force_def ok_or_def del: One_nat_def)
  moreover have "get_state stake_serde (s1 1) = Inr StakeUninitialized"
    using write_stake_reads [OF _ s1] stake_account.codec_axioms by simp
  ultimately show ?thesis by (simp add: credit_def debit_def)
qed

theorem stake_v3_refines_legacy_witness:
  "\<exists>s' t'. stake_process_instruction (demo_stake (StakeWithdraw 100)) (keyed 71 1 False # withdraw_accounts) [] stake_store = Inr s' \<and>
     get_state stake_serde (s' 1) = Inr StakeUninitialized \<and>
     legacy_stake_process_instruction (demo_stake (StakeWithdraw 100)) (keyed 71 1 False # withdraw_accounts) [] stake_store = Inr t' \<and>
     left_behind (demo_stake (StakeWithdraw 100)) s' t'"
proof -
  have ok: "serde_ok (stk_state (demo_stake (StakeWithdraw 100)))" using stake_account.codec_axioms by simp
  from drain_runs obtain s' where
    s': "stake_process_instruction (demo_stake (StakeWithdraw 100)) (keyed 71 1 False # withdraw_accounts) [] stake_store = Inr s'"
      "get_state stake_serde (s' 1) = Inr StakeUninitialized" by blast
  from stake_v3_refines_legacy [OF ok s'(1)] s' show ?thesis by blast
qed

end
