(* ===== verification/Builtins.thy ===== *)
theory Builtins
  imports Invocation SystemSafety VoteSafety LegacyStake ConfigProgram
begin

text \<open>
  The programs a bank registers (\<open>runtime/src/builtins.rs\<close>) as programs of the message processor, and
  what the runtime guarantees of a transaction that runs them.
\<close>

section \<open>The registered programs\<close>

definition genesis_builtins :: "system_lib \<Rightarrow> vote_lib \<Rightarrow> stake_lib \<Rightarrow> (pubkey \<times> process_instruction) list" where
  "genesis_builtins L V T =
     [(system_program_id, builtin (system_process_instruction L)),
      (vote_program_id, builtin (vote_process_instruction V)),
      (stake_program_id, builtin (legacy_stake_process_instruction T)),
      (config_program_id, builtin (config_process_instruction (stk_config_keys T)))]"

text \<open>The version of the stake program that a feature activates.\<close>

definition stake_program_v3 :: "stake_lib \<Rightarrow> pubkey \<times> process_instruction" where
  "stake_program_v3 T = (stake_program_id, builtin (stake_process_instruction T))"

definition bank_processor ::
  "system_lib \<Rightarrow> vote_lib \<Rightarrow> stake_lib \<Rightarrow> bool \<Rightarrow> upgradeable_loader_state serde \<Rightarrow> (hash \<Rightarrow> bool) \<Rightarrow>
     (pubkey list \<Rightarrow> pubkey list) \<Rightarrow> processor" where
  "bank_processor L V T v3 C curve uniq =
     \<lparr>programs = fold (\<lambda>(k, f). add_program k f)
        (genesis_builtins L V T @ (if v3 then [stake_program_v3 T] else [])) [],
      native_loader = (\<lambda>pid ks bs M. Inl (Err UnsupportedProgramId)),
      loader_state = C, sha256_fn = sl_sha256 L, on_curve_fn = curve, uniq_fn = uniq\<rparr>"

lemma framed_system: "framed (builtin (system_process_instruction L))"
  by (rule framed_builtin)
    (use system.run_frame [of L] in \<open>fastforce simp: system_run_def passed_accounts_def\<close>)

lemma framed_vote: "framed (builtin (vote_process_instruction V))"
  by (rule framed_builtin)
    (use vote.run_frame [of V] in \<open>fastforce simp: vote_run_def passed_accounts_def\<close>)

lemma framed_stake:
  "framed (builtin (stake_process_instruction T))" "framed (builtin (legacy_stake_process_instruction T))"
  by (rule framed_builtin,
      use stake.run_frame [of T] legacy_stake.run_frame [of T] in
        \<open>fastforce simp: stake_run_def legacy_stake_run_def passed_accounts_def\<close>)+

lemma framed_config: "framed (builtin (config_process_instruction C))"
  by (rule framed_builtin) (auto simp: config_process_instruction_def and_then_Inr_iff Let_def split: if_splits)

lemma program_ids_distinct:
  "system_program_id \<noteq> native_loader_id" "vote_program_id \<noteq> native_loader_id" "vote_program_id \<noteq> system_program_id"
  "stake_program_id \<noteq> system_program_id" "stake_program_id \<noteq> vote_program_id"
  "config_program_id \<noteq> system_program_id" "config_program_id \<noteq> vote_program_id" "config_program_id \<noteq> stake_program_id"
  by (simp_all add: system_program_id_def native_loader_id_def vote_program_id_def stake_program_id_def config_program_id_def)

lemma bank_programs:
  "programs (bank_processor L V T v3 C curve uniq) =
     [(system_program_id, builtin (system_process_instruction L)),
      (vote_program_id, builtin (vote_process_instruction V)),
      (stake_program_id, builtin (if v3 then stake_process_instruction T else legacy_stake_process_instruction T)),
      (config_program_id, builtin (config_process_instruction (stk_config_keys T)))]"
  by (simp add: bank_processor_def genesis_builtins_def stake_program_v3_def program_ids_distinct)

interpretation bank: framed_programs "bank_processor L V T v3 C curve uniq" for L V T v3 C curve uniq
proof
  show "framed f" if "(k, f) \<in> set (programs (bank_processor L V T v3 C curve uniq))" for k f
    using that by (auto simp: bank_programs framed_system framed_vote framed_stake framed_config split: if_splits)
  show "framed (native_loader (bank_processor L V T v3 C curve uniq))"
    by (simp add: bank_processor_def framed_def)
qed

section \<open>A transfer in a bank\<close>

definition ledger_store :: store where
  "ledger_store = bank_store(4 := default_account\<lparr>owner := native_loader_id, executable := True\<rparr>)"

definition transfer_instruction :: compiled_instruction where
  "transfer_instruction = \<lparr>program_id_index = 2, ci_accounts = [0, 1], ci_data = pay\<rparr>"

definition transfer_message :: message where
  "transfer_message =
     \<lparr>header = \<lparr>num_required_signatures = 2, num_readonly_signed_accounts = 0, num_readonly_unsigned_accounts = 1\<rparr>,
      account_keys = [71, 72, system_program_id], recent_blockhash = 0,
      instructions = [transfer_instruction]\<rparr>"

definition demo_execution :: execution where
  "demo_execution =
     \<lparr>ex_accounts = [1, 2, 3], ex_account_deps = [], ex_rent = default_rent, ex_instructions_sysvar_enabled = True,
      ex_max_invoke_depth = 4, ex_max_units = 200000\<rparr>"

definition demo_bank :: processor where
  "demo_bank = bank_processor demo_system demo_lib (demo_stake StakeDeactivate) True \<lparr>ser = (\<lambda>_. []), de = (\<lambda>_. None)\<rparr> (\<lambda>_. False) remdups"

definition ledger_paid :: store where
  "ledger_paid = credit 2 40 (debit 1 40 ledger_store)"

lemmas ledger_defs = ledger_paid_def ledger_store_def bank_store_def credit_def debit_def default_account_def

lemma ledger_lamports:
  "lamports (ledger_store 1) = 5000000" "lamports (ledger_store 2) = 0"
  "lamports (ledger_paid 1) = 4999960" "lamports (ledger_paid 2) = 40"
  by (simp_all add: ledger_defs)

lemma ledger_program: "owner (ledger_store 4) = native_loader_id"
  by (simp add: ledger_defs)

lemma ledger_obeys:
  "obeys system_program_id default_rent True (ledger_store 1) (ledger_paid 1)"
  "obeys system_program_id default_rent True (ledger_store 2) (ledger_paid 2)"
  by (simp_all add: obeys_def ledger_defs system_program_id_def)

lemma pay_in_ledger:
  "system_process_instruction demo_system [funder, newcomer] pay ledger_store = Inr ledger_paid"
  by (simp add: system_process_instruction_def demo_system_def pay_instruction system_dispatch_def
    next_keyed_account_def transfer_def transfer_verified_def signer_key_def funder_def newcomer_def
    bank_store_def ledger_store_def default_account_def ledger_paid_def)

lemma transfer_keyed:
  "create_keyed_accounts transfer_message transfer_instruction [(system_program_id, 4)] [1, 2, 3] =
     Inr [\<lparr>is_signer = False, is_writable = False, key = system_program_id, acct = 4\<rparr>, funder, newcomer]"
  by (simp add: create_keyed_accounts_def create_keyed_readonly_accounts_def keyed_account_at_def transfer_message_def transfer_instruction_def
    msg_is_signer_def msg_is_writable_def funder_def newcomer_def Let_def)

lemma transfer_process:
  "mp_process_instruction demo_bank system_program_id
     [\<lparr>is_signer = False, is_writable = False, key = system_program_id, acct = 4\<rparr>, funder, newcomer] pay
     \<lparr>m_store = ledger_store, m_next = n, m_ctx = c\<rparr> = Inr \<lparr>m_store = ledger_paid, m_next = n, m_ctx = c\<rparr>"
  by (simp add: mp_process_instruction_def demo_bank_def bank_programs builtin_def
    pay_in_ledger program_ids_distinct ledger_program Let_def)

lemma transfer_pre:
  "create_pre_accounts transfer_message transfer_instruction [1, 2, 3] ledger_store =
     Inr [pre_account_new 71 (ledger_store 1) True True, pre_account_new 72 (ledger_store 2) True True]"
  by (simp add: create_pre_accounts_def visit_each_account_def transfer_message_def transfer_instruction_def msg_is_writable_def)

lemma transfer_verify:
  "mp_verify transfer_message transfer_instruction
     [pre_account_new 71 (ledger_store 1) True True, pre_account_new 72 (ledger_store 2) True True] [1, 2, 3]
     default_rent ledger_paid = Inr ()"
  by (simp add: mp_verify_def visit_each_account_def transfer_message_def transfer_instruction_def ci_program_id_def nth_opt_def
    pre_account_verify_obeys [THEN iffD2] pre_account_new_def ledger_obeys ledger_lamports Let_def del: One_nat_def)

lemma transfer_runs: "process_message demo_bank demo_execution transfer_message [[(system_program_id, 4)]] (ledger_store, 9) = Inr (ledger_paid, 9)"
proof -
  have "instructions transfer_message = [transfer_instruction]" by (simp add: transfer_message_def)
  moreover have "ci_program_id transfer_message transfer_instruction = Inr system_program_id"
    "ci_data transfer_instruction = pay"
    "fixup_instructions_sysvar transfer_message [1, 2, 3] 0 ledger_store = Inr ledger_store"
    by (simp_all add: transfer_message_def transfer_instruction_def ci_program_id_def nth_opt_def fixup_instructions_sysvar_def
      sysvar_instructions_id_def system_program_id_def)
  ultimately show ?thesis
    by (simp add: process_message_def execute_indexed_def nth_opt_def execute_instruction_def demo_execution_def
      transfer_pre transfer_keyed transfer_process transfer_verify invoke_context_new_def Let_def
      del: One_nat_def)
qed

text \<open>
  (C1) The safety of a transaction, whatever its programs do within their contract and however they
  invoke each other: when the message succeeds, the lamports of its accounts add up to exactly what
  they were; a read-only account is unchanged (but for the instructions sysvar the runtime itself
  writes); and an account whose owner is none of the programs around (\<open>Q\<close>) can at most have gained
  lamports. The executable accounts are separate from the accounts of the transaction.
\<close>

theorem process_message_safe:
  assumes contract: "framed_programs P"
    and run: "process_message P X m loaders (s, free) = Inr (s', free')"
    and layout: "distinct (ex_accounts X)" "\<forall>r\<in>set (ex_accounts X). r < free"
      "\<forall>execs\<in>set loaders. snd ` set execs \<inter> set (ex_accounts X) = {}"
    and Q: "Q = set (account_keys m) \<union> (\<Union>execs\<in>set loaders. fst ` set execs) \<union> fst ` set (ex_account_deps X)"
  shows "total_lamports (set (ex_accounts X)) s' = total_lamports (set (ex_accounts X)) s \<and>
    (\<forall>i<length (ex_accounts X). i < length (account_keys m) \<longrightarrow> account_keys m ! i \<noteq> sysvar_instructions_id \<longrightarrow>
      (\<not> msg_is_writable m i \<longrightarrow> s' (ex_accounts X ! i) = s (ex_accounts X ! i)) \<and>
      (owner (s (ex_accounts X ! i)) \<notin> Q \<longrightarrow>
         (\<exists>n\<ge>lamports (s (ex_accounts X ! i)). s' (ex_accounts X ! i) = (s (ex_accounts X ! i))\<lparr>lamports := n\<rparr>)))"
  using framed_programs.process_message_keeps [OF contract run layout, of Q] Q
  by (auto simp: safe_run_def safe_change_def)

theorem process_message_safe_witness:
  "process_message demo_bank demo_execution transfer_message [[(system_program_id, 4)]] (ledger_store, 9) = Inr (ledger_paid, 9) \<and>
   lamports (ledger_paid 2) = 40 \<and> total_lamports {1, 2, 3} ledger_paid = total_lamports {1, 2, 3} ledger_store \<and>
   ledger_paid 3 = ledger_store 3"
proof -
  have contract: "framed_programs demo_bank" unfolding demo_bank_def by (rule bank.framed_programs_axioms)
  have "distinct (ex_accounts demo_execution)" "\<forall>r\<in>set (ex_accounts demo_execution). r < 9"
    "\<forall>execs\<in>set [[(system_program_id, 4)]]. snd ` set execs \<inter> set (ex_accounts demo_execution) = {}"
    by (simp_all add: demo_execution_def)
  note safe = process_message_safe [OF contract transfer_runs this refl]
  from safe have "total_lamports {1, 2, 3} ledger_paid = total_lamports {1, 2, 3} ledger_store"
    by (simp add: demo_execution_def)
  moreover from conjunct2 [OF safe, rule_format, of 2] have "ledger_paid 3 = ledger_store 3"
    by (simp add: demo_execution_def transfer_message_def msg_is_writable_def sysvar_instructions_id_def system_program_id_def)
  ultimately show ?thesis using transfer_runs by (simp add: ledger_lamports)
qed

section \<open>A transfer by invocation\<close>

definition program_key :: keyed_account where
  "program_key = \<lparr>is_signer = False, is_writable = False, key = system_program_id, acct = 4\<rparr>"

definition inner_instruction :: instruction where
  "inner_instruction = \<lparr>program_id = system_program_id, accounts = [account_meta_new 71 True, account_meta_new 72 True], ix_data = pay\<rparr>"

lemma inner_message: "create_message demo_bank inner_instruction [funder, newcomer, program_key] [] = Inr (transfer_message, system_program_id, 2)"
  by (simp add: create_message_def inner_instruction_def program_key_def funder_def newcomer_def check_privileges_def
    account_meta_new_def signer_key_def demo_bank_def bank_processor_def message_new_def get_keys_def
    get_program_ids_def sorted_metas_def unique_metas_def meta_rank_def compile_instructions_def compile_instruction_def position_def
    new_with_compiled_instructions_def transfer_message_def transfer_instruction_def system_program_id_def Let_def)

definition caller_context :: invoke_context where
  "caller_context = invoke_context_new 50 default_rent
     [pre_account_new 71 (ledger_store 1) True True, pre_account_new 72 (ledger_store 2) True True,
      pre_account_new system_program_id (ledger_store 4) False False] [] 4 200000"

definition caller_machine :: machine where
  "caller_machine = \<lparr>m_store = ledger_store, m_next = 9, m_ctx = caller_context\<rparr>"

lemma callee: "callee_accounts demo_bank system_program_id caller_machine = Inr [(system_program_id, ledger_store 4)]"
  by (simp add: callee_accounts_def ctx_get_account_def caller_machine_def caller_context_def invoke_context_new_def pre_account_new_def
    system_program_id_def) (simp add: ledger_defs native_loader_id_def bpf_loader_upgradeable_id_def)

lemma refs: "find_all_keyed [funder, newcomer, program_key] (account_keys transfer_message) = Inr [funder, newcomer, program_key]"
  by (simp add: find_keyed_def transfer_message_def funder_def newcomer_def program_key_def system_program_id_def)

definition inner_store :: store where
  "inner_store = ledger_store(9 := ledger_store 1, 10 := ledger_store 2, 11 := ledger_store 4, 12 := ledger_store 4)"

definition inner_machine :: machine where
  "inner_machine = \<lparr>m_store = inner_store, m_next = 13, m_ctx = caller_context\<rparr>"

lemma alloc:
  "alloc_accounts [ledger_store 1, ledger_store 2, ledger_store 4] caller_machine =
     ([9, 10, 11], \<lparr>m_store = ledger_store(9 := ledger_store 1, 10 := ledger_store 2, 11 := ledger_store 4), m_next = 12, m_ctx = caller_context\<rparr>)"
  "alloc_accounts [ledger_store 4] \<lparr>m_store = ledger_store(9 := ledger_store 1, 10 := ledger_store 2, 11 := ledger_store 4), m_next = 12, m_ctx = caller_context\<rparr> =
     ([12], inner_machine)"
  by (simp_all add: caller_machine_def inner_machine_def inner_store_def Let_def)

lemma obeys_refl: "obeys pid r w a a"
  by (simp add: obeys_def)

lemma verify_unchanged [simp]:
  "pre_account_verify pid r a (pre_account_new k a sg w) = Inr ()"
  "pre_account_update a (pre_account_new k a sg w) = pre_account_new k a sg w"
  "pa_key (pre_account_new k a sg w) = k" "pa_account (pre_account_new k a sg w) = a"
  by (simp_all add: pre_account_verify_obeys pre_account_new_def pre_account_update_def obeys_refl)

lemma keys_of [simp]: "account_keys transfer_message = [71, 72, 0]"
  "ci_accounts transfer_instruction = [0, 1]" "program_id_index transfer_instruction = 2" "ci_data transfer_instruction = pay"
  "instructions transfer_message = [transfer_instruction]"
  by (simp_all add: transfer_message_def transfer_instruction_def system_program_id_def)

lemma before: "ctx_verify_and_update transfer_message transfer_instruction [9, 10, 11] inner_machine = Inr inner_machine"
  by (simp add: ctx_verify_and_update_def mp_verify_and_update_def visit_each_account_def update_work_def inner_machine_def
    inner_store_def caller_context_def invoke_context_new_def system_program_id_def Let_def)

definition callee_context :: invoke_context where
  "callee_context = caller_context\<lparr>ic_program_ids := [50, system_program_id]\<rparr>"

lemma pushed: "ctx_push system_program_id caller_context = Inr callee_context"
  by (simp add: ctx_push_def caller_context_def callee_context_def invoke_context_new_def system_program_id_def)

abbreviation "inner_funder \<equiv> funder\<lparr>acct := 9\<rparr>"
abbreviation "inner_newcomer \<equiv> newcomer\<lparr>acct := 10\<rparr>"

definition inner_paid :: store where
  "inner_paid = inner_store(9 := ledger_paid 1, 10 := ledger_paid 2)"

lemma inner_keyed:
  "create_keyed_accounts transfer_message transfer_instruction [(system_program_id, 12)] [9, 10, 11] =
     Inr [program_key\<lparr>acct := 12\<rparr>, inner_funder, inner_newcomer]"
  by (simp add: create_keyed_accounts_def create_keyed_readonly_accounts_def keyed_account_at_def
    msg_is_signer_def msg_is_writable_def funder_def newcomer_def program_key_def Let_def)
   (simp add: transfer_message_def)

lemma pay_inside:
  "system_process_instruction demo_system [inner_funder, inner_newcomer] pay inner_store = Inr inner_paid"
  by (simp add: system_process_instruction_def demo_system_def pay_instruction system_dispatch_def
    next_keyed_account_def transfer_def transfer_verified_def signer_key_def funder_def newcomer_def
    inner_paid_def inner_store_def ledger_defs fun_upd_twist)

lemma inner_program: "owner (inner_store 12) = native_loader_id"
  by (simp add: inner_store_def ledger_program)

lemma inner_process:
  "mp_process_instruction (demo_bank\<lparr>programs := fold (\<lambda>(k, f). add_program k f) (programs demo_bank) []\<rparr>) system_program_id
     [program_key\<lparr>acct := 12\<rparr>, inner_funder, inner_newcomer] pay
     \<lparr>m_store = inner_store, m_next = n, m_ctx = c\<rparr> = Inr \<lparr>m_store = inner_paid, m_next = n, m_ctx = c\<rparr>"
  by (simp add: mp_process_instruction_def demo_bank_def bank_programs builtin_def program_key_def
    pay_inside program_ids_distinct inner_program Let_def)

definition paid_context :: invoke_context where
  "paid_context = caller_context\<lparr>ic_pre_accounts :=
     [pre_account_new 71 (ledger_paid 1) True True, pre_account_new 72 (ledger_paid 2) True True,
      pre_account_new system_program_id (ledger_store 4) False False]\<rparr>"

lemma ledger_update:
  "pre_account_verify system_program_id default_rent (ledger_paid 1) (pre_account_new 71 (ledger_store 1) True True) = Inr ()"
  "pre_account_verify system_program_id default_rent (ledger_paid 2) (pre_account_new 72 (ledger_store 2) True True) = Inr ()"
  "pre_account_update (ledger_paid 1) (pre_account_new 71 (ledger_store 1) True True) = pre_account_new 71 (ledger_paid 1) True True"
  "pre_account_update (ledger_paid 2) (pre_account_new 72 (ledger_store 2) True True) = pre_account_new 72 (ledger_paid 2) True True"
  using ledger_obeys by (simp_all add: pre_account_verify_obeys pre_account_new_def pre_account_update_def)
    (simp_all add: ledger_defs)

lemma after:
  "ctx_verify_and_update transfer_message transfer_instruction [9, 10, 11]
     \<lparr>m_store = inner_paid, m_next = n, m_ctx = callee_context\<rparr> =
   Inr \<lparr>m_store = inner_paid, m_next = n, m_ctx = paid_context\<lparr>ic_program_ids := [50, system_program_id]\<rparr>\<rparr>"
  using ledger_update
  by (simp add: ctx_verify_and_update_def mp_verify_and_update_def visit_each_account_def update_work_def
    inner_paid_def inner_store_def caller_context_def callee_context_def paid_context_def invoke_context_new_def
    ledger_lamports Let_def system_program_id_def del: One_nat_def)

lemma inner_runs:
  "process_cross_program_instruction demo_bank transfer_message [(system_program_id, 12)] [9, 10, 11] inner_machine =
     Inr \<lparr>m_store = inner_paid, m_next = 13, m_ctx = paid_context\<rparr>"
proof -
  have "ci_program_id transfer_message transfer_instruction = Inr system_program_id"
    by (simp add: ci_program_id_def nth_opt_def system_program_id_def)
  moreover have "m_ctx inner_machine = caller_context"
    "inner_machine\<lparr>m_ctx := c\<rparr> = \<lparr>m_store = inner_store, m_next = 13, m_ctx = c\<rparr>" for c
    by (simp_all add: inner_machine_def)
  moreover have "ctx_pop (paid_context\<lparr>ic_program_ids := [50, system_program_id]\<rparr>) = paid_context"
    by (simp add: ctx_pop_def paid_context_def caller_context_def invoke_context_new_def)
  ultimately show ?thesis
    by (simp add: process_cross_program_instruction_def before inner_keyed pushed inner_process after Let_def)
qed

definition outer_paid :: store where
  "outer_paid = inner_paid(1 := ledger_paid 1, 2 := ledger_paid 2)"

lemma copied: "fold_result (copy_back transfer_message) (enumerate 0 (zip [9, 10, 11] [funder, newcomer, program_key])) inner_paid = Inr outer_paid"
  by (simp add: copy_back_def msg_is_writable_def transfer_message_def funder_def newcomer_def program_key_def
    outer_paid_def inner_paid_def inner_store_def Let_def) (simp add: ledger_defs)

lemma invoke_runs:
  "native_invoke demo_bank inner_instruction [funder, newcomer, program_key] [] caller_machine =
     Inr \<lparr>m_store = outer_paid, m_next = 13, m_ctx = paid_context\<rparr>"
proof -
  have "get_caller (m_ctx caller_machine) = Inr 50"
    by (simp add: get_caller_def caller_machine_def caller_context_def invoke_context_new_def)
  moreover have "map (\<lambda>ka. m_store caller_machine (acct ka)) [funder, newcomer, program_key] = [ledger_store 1, ledger_store 2, ledger_store 4]"
    by (simp add: caller_machine_def funder_def newcomer_def program_key_def)
  moreover have "map fst [(system_program_id, ledger_store 4)] = [system_program_id]"
    "map snd [(system_program_id, ledger_store 4)] = [ledger_store 4]" by simp_all
  ultimately show ?thesis
    using refs copied
    by (simp add: native_invoke_def inner_message callee alloc inner_runs del: One_nat_def keys_of alloc_accounts.simps list.map)
qed

text \<open>
  (C2) A program that invokes another stays within its own contract: the invocation changes no account
  but the caller's, whatever the callee does and invokes in turn; the recorded balances of the
  transaction add up to what they were; and the record of an account that is read-only in the
  transaction is unchanged, one whose owner is not among the programs around has at most gained lamports.
\<close>

theorem native_invoke_contained:
  assumes contract: "framed_programs P"
    and run: "native_invoke P ix ks seeds M = Inr M'"
    and Q: "key ` set ks \<subseteq> Q" "known Q (m_ctx M)"
  shows "(\<forall>r<m_next M. r \<notin> acct ` set ks \<longrightarrow> m_store M' r = m_store M r) \<and>
    pre_total (ic_pre_accounts (m_ctx M')) = pre_total (ic_pre_accounts (m_ctx M)) \<and>
    list_all2 (\<lambda>p p'. pa_key p' = pa_key p \<and> safe_change Q (pa_is_writable p) (pa_account p) (pa_account p'))
      (ic_pre_accounts (m_ctx M)) (ic_pre_accounts (m_ctx M'))"
proof -
  note frame = framed_programs.native_invoke_frame [OF contract run Q]
  then have "ctx_kept Q (m_ctx M) (m_ctx M')" using Q(2) by (auto simp: keeps_frame_def intro: ctx_steps_kept)
  with frame show ?thesis
    by (auto simp: keeps_frame_def ctx_kept_def carried_def elim!: list_all2_mono)
qed

theorem native_invoke_contained_witness:
  "native_invoke demo_bank inner_instruction [funder, newcomer, program_key] [] caller_machine =
     Inr \<lparr>m_store = outer_paid, m_next = 13, m_ctx = paid_context\<rparr> \<and>
   lamports (outer_paid 2) = 40 \<and> outer_paid 3 = ledger_store 3 \<and>
   pre_total (ic_pre_accounts paid_context) = pre_total (ic_pre_accounts caller_context)"
proof -
  have contract: "framed_programs demo_bank" unfolding demo_bank_def by (rule bank.framed_programs_axioms)
  have "key ` set [funder, newcomer, program_key] \<subseteq> {71, 72, system_program_id, 50}"
    "known {71, 72, system_program_id, 50} (m_ctx caller_machine)"
    by (simp_all add: known_def funder_def newcomer_def program_key_def caller_machine_def caller_context_def
      invoke_context_new_def)
  from native_invoke_contained [OF contract invoke_runs this] invoke_runs show ?thesis
    by (simp add: caller_machine_def funder_def newcomer_def program_key_def)
      (simp add: outer_paid_def ledger_lamports)
qed



end
