(* ===== verification/StakeBacked.thy ===== *)
theory StakeBacked
  imports StakeSafety
begin

text \<open>
  The invariant of the stake program, that active stake stays backed by lamports, and the overflow in
  its withdrawals, which the invariant has to exclude.
\<close>

section \<open>Backed accounts\<close>

text \<open>In epoch \<open>e\<close> the account holds its reserve and, until it is deactivated, what it has delegated.\<close>

fun backed_state :: "epoch \<Rightarrow> stake_state \<Rightarrow> u64 \<Rightarrow> bool" where
  "backed_state e (Stake m stk) n \<longleftrightarrow>
     unat (dl_stake (st_delegation stk)) < 2 ^ 62 \<and>
     unat (rent_exempt_reserve m) +
       (if e < deactivation_epoch (st_delegation stk) then unat (dl_stake (st_delegation stk)) else 0) \<le> unat n"
| "backed_state e (StakeInitialized m) n \<longleftrightarrow> rent_exempt_reserve m \<le> n"
| "backed_state e _ n \<longleftrightarrow> True"

definition backed :: "stake_lib \<Rightarrow> epoch \<Rightarrow> account \<Rightarrow> bool" where
  "backed L e a \<longleftrightarrow> owner a = stake_program_id \<longrightarrow>
     (\<forall>st. get_state (stk_state L) a = Inr st \<longrightarrow> backed_state e st (lamports a))"

definition all_backed :: "stake_lib \<Rightarrow> epoch \<Rightarrow> store \<Rightarrow> bool" where
  "all_backed L e s \<longleftrightarrow> (\<forall>r. backed L e (s r))"

lemma backed_state_mono: "backed_state e st n \<Longrightarrow> n \<le> n' \<Longrightarrow> backed_state e st n'"
  by (cases st) (auto simp: word_le_nat_alt split: if_splits)

lemma backed_lamports:
  "backed L e (a\<lparr>lamports := n\<rparr>) \<longleftrightarrow>
     (owner a = stake_program_id \<longrightarrow> (\<forall>st. get_state (stk_state L) a = Inr st \<longrightarrow> backed_state e st n))"
  by (simp add: backed_def)

lemma backed_more: "backed L e a \<Longrightarrow> lamports a \<le> n \<Longrightarrow> backed L e (a\<lparr>lamports := n\<rparr>)"
  by (auto simp: backed_def intro: backed_state_mono)

lemma backed_write:
  assumes "serde_ok (stk_state L)" and "write_stake L k st s = Inr s'" and "backed_state e st (lamports (s (acct k)))"
    and "all_backed L e s"
  shows "all_backed L e s'"
  unfolding all_backed_def
proof
  fix r show "backed L e (s' r)"
    using assms [unfolded all_backed_def] write_stake_reads [OF assms(1,2)]
    by (cases "r = acct k") (simp_all add: backed_def keyed_set_state_keeps keyed_set_state_frame)
qed

lemma backed_move:
  assumes "\<And>r. r \<noteq> a \<Longrightarrow> r \<noteq> b \<Longrightarrow> backed L e (s r)" and "a = b \<Longrightarrow> backed L e (s b)"
    and "a \<noteq> b \<Longrightarrow> backed L e ((s a)\<lparr>lamports := lamports (s a) - n\<rparr>)"
    and "a \<noteq> b \<Longrightarrow> backed L e ((s b)\<lparr>lamports := lamports (s b) + n\<rparr>)"
  shows "all_backed L e (credit b n (debit a n s))"
  using assms by (auto simp: all_backed_def credit_def debit_def)

lemma two_balances:
  assumes "finite R" and "a \<in> R" and "b \<in> R" and "a \<noteq> b" and "total_lamports R s < N"
  shows "unat (lamports (s a)) + unat (lamports (s b)) < N"
proof -
  have "unat (lamports (s a)) + unat (lamports (s b)) = total_lamports {a, b} s"
    using assms(4) by (simp add: total_lamports_def)
  also have "\<dots> \<le> total_lamports R s"
    unfolding total_lamports_def using assms(1-3) by (intro sum_mono2) auto
  finally show ?thesis using assms(5) by simp
qed

lemma word_le_add: "unat (x :: u64) + unat y < 2 ^ 64 \<Longrightarrow> x \<le> x + y"
  by (simp add: word_le_nat_alt unat_word_ariths)

lemma unat_add_u64: "unat (x :: u64) + unat y < 2 ^ 64 \<Longrightarrow> unat (x + y) = unat x + unat y"
  by (simp add: unat_word_ariths)

section \<open>Every operation\<close>

lemma read_backed:
  "all_backed L e s \<Longrightarrow> owner (s (acct k)) = stake_program_id \<Longrightarrow> read_stake L s k = Inr st \<Longrightarrow>
     backed_state e st (lamports (s (acct k)))"
  by (simp add: all_backed_def backed_def keyed_state_def)

lemma backed_state_meta:
  "state_meta st = Some m \<Longrightarrow> rent_exempt_reserve m' = rent_exempt_reserve m \<Longrightarrow>
     backed_state e (case st of Stake _ stk \<Rightarrow> Stake m' stk | _ \<Rightarrow> StakeInitialized m') n = backed_state e st n"
  by (cases st) auto

lemma backed_reserve: "backed_state e st n \<Longrightarrow> state_meta st = Some m \<Longrightarrow> rent_exempt_reserve m \<le> n"
  by (cases st) (auto simp: word_le_nat_alt)

lemma initialize_backed:
  assumes "initialize_stake L me a l r s = Inr s'" and "serde_ok (stk_state L)" and "all_backed L e s"
  shows "all_backed L e s'"
  using assms(1) by (rule initialize_stake_Inr) (erule backed_write [OF assms(2) _ _ assms(3)], simp)

lemma authorize_backed:
  assumes "authorize_stake L me S k w s = Inr s'" and "serde_ok (stk_state L)" and "all_backed L e s"
    and "owner (s (acct me)) = stake_program_id"
  shows "all_backed L e s'"
  using assms(1)
  by (rule authorize_stake_Inr, intro backed_write [OF assms(2) _ _ assms(3)])
    (auto simp: backed_state_meta intro: read_backed [OF assms(3,4)])

lemma set_lockup_backed:
  assumes "set_stake_lockup L me args S s = Inr s'" and "serde_ok (stk_state L)" and "all_backed L e s"
    and "owner (s (acct me)) = stake_program_id"
  shows "all_backed L e s'"
  using assms(1)
  by (rule set_stake_lockup_Inr, intro backed_write [OF assms(2) _ _ assms(3)])
    (auto simp: backed_state_meta intro: read_backed [OF assms(3,4)])

lemma delegate_backed:
  assumes "delegate_stake_account L me v c h cfg S s = Inr s'" and "serde_ok (stk_state L)" and "all_backed L e s"
    and "owner (s (acct me)) = stake_program_id" and "unat (lamports (s (acct me))) < 2 ^ 62"
  shows "all_backed L e s'"
  using assms(1)
proof (rule delegate_stake_Inr)
  fix m stk st
  assume st: "read_stake L s me = Inr st" "state_meta st = Some m"
    and w: "write_stake L me (Stake m stk) s = Inr s'"
    and dl: "dl_stake (st_delegation stk) = saturating_sub (lamports (s (acct me))) (rent_exempt_reserve m)"
  have "rent_exempt_reserve m \<le> lamports (s (acct me))"
    using read_backed [OF assms(3,4) st(1)] st(2) by (rule backed_reserve)
  with dl have "backed_state e (Stake m stk) (lamports (s (acct me)))"
    using assms(5) by (simp add: unat_saturating_sub word_le_nat_alt)
  then show ?thesis by (rule backed_write [OF assms(2) w _ assms(3)])
qed

lemma deactivate_backed:
  assumes "deactivate_stake_account L me c S s = Inr s'" and "serde_ok (stk_state L)" and "all_backed L e s"
    and "owner (s (acct me)) = stake_program_id" and "clock_epoch c = e"
  shows "all_backed L e s'"
  using assms(1)
proof (rule deactivate_stake_Inr)
  fix m stk
  assume st: "read_stake L s me = Inr (Stake m stk)" and
    w: "write_stake L me (Stake m (stk\<lparr>st_delegation := (st_delegation stk)\<lparr>deactivation_epoch := clock_epoch c\<rparr>\<rparr>)) s = Inr s'"
  show ?thesis
    using read_backed [OF assms(3,4) st] assms(5) by (intro backed_write [OF assms(2) w _ assms(3)]) (simp split: if_splits)
qed

subsection \<open>Splitting\<close>

lemma split_amounts_new:
  assumes "split_amounts n bal sb res sr delta amount" and "unat bal + unat sb < 2 ^ 62" and "n \<le> bal"
  shows "unat sr + unat amount \<le> unat (sb + n)" and "unat amount \<le> unat bal"
proof -
  have sum: "unat (sb + n) = unat sb + unat n" using assms(2,3) by (intro unat_add_u64) (simp add: word_le_nat_alt)
  have missing: "unat sr - unat sb \<le> unat n"
    using assms(1) by (simp add: split_amounts_def word_le_nat_alt unat_saturating_sub)
  have "unat amount \<le> unat n - (if n = bal then unat sr else unat sr - unat sb)" "n = bal \<Longrightarrow> unat sr \<le> unat n"
    using assms(1) by (auto simp: split_amounts_def word_le_nat_alt unat_saturating_sub unat_sub_exact min_def)
  with missing sum assms(3) show "unat sr + unat amount \<le> unat (sb + n)" "unat amount \<le> unat bal"
    by (cases "n = bal"; simp add: word_le_nat_alt)+
qed

lemma reserve_left:
  fixes n res bal :: u64
  assumes "n + res < bal" and "unat bal < 2 ^ 62" and "n \<le> bal" and "res \<le> bal"
  shows "unat res + unat n < unat bal"
proof -
  have "unat (n + res) = unat n + unat res" using assms(2-4) by (intro unat_add_u64) (simp add: word_le_nat_alt)
  with assms(1) show ?thesis by (simp add: word_less_nat_alt)
qed

lemma split_states_backed:
  assumes "split_states L me n sp S st s = Inr s'" and "serde_ok (stk_state L)" and "acct me \<noteq> acct sp"
    and "n \<le> lamports (s (acct me))" and "backed_state e st (lamports (s (acct me)))"
    and "read_stake L s me = Inr st" and "read_stake L s sp = Inr StakeUninitialized"
    and "unat (lamports (s (acct me))) + unat (lamports (s (acct sp))) < 2 ^ 62"
  shows "(\<exists>st'. get_state (stk_state L) (s' (acct sp)) = Inr st' \<and> backed_state e st' (lamports (s (acct sp)) + n)) \<and>
    (n \<noteq> lamports (s (acct me)) \<longrightarrow>
      (\<exists>st'. get_state (stk_state L) (s' (acct me)) = Inr st' \<and> backed_state e st' (lamports (s (acct me)) - n)))"
proof (cases st)
  case (Stake m stk)
  let ?bal = "lamports (s (acct me))" and ?sb = "lamports (s (acct sp))"
  from assms(1) obtain s1 sr delta amount where
    w: "write_stake L me (Stake m (with_stake (dl_stake (st_delegation stk) - delta) stk)) s = Inr s1"
      "write_stake L sp (Stake (m\<lparr>rent_exempt_reserve := sr\<rparr>) (with_stake amount stk)) s1 = Inr s'"
    and delta: "delta \<le> dl_stake (st_delegation stk)" and amounts: "split_amounts n ?bal ?sb (rent_exempt_reserve m) sr delta amount"
    by (auto simp: split_states_def Stake elim: split_delegated_Inr)
  have new: "backed_state e (Stake (m\<lparr>rent_exempt_reserve := sr\<rparr>) (with_stake amount stk)) (?sb + n)"
    using split_amounts_new [OF amounts assms(8,4)] assms(8) by simp
  have old: "backed_state e (Stake m (with_stake (dl_stake (st_delegation stk) - delta) stk)) (?bal - n)" if "n \<noteq> ?bal"
  proof -
    have "delta = n" "n + rent_exempt_reserve m < ?bal" using that amounts by (auto simp: split_amounts_def)
    moreover have "rent_exempt_reserve m \<le> ?bal" using assms(5) by (rule backed_reserve) (simp add: Stake)
    ultimately show ?thesis using assms(4,5,8) delta reserve_left [of n "rent_exempt_reserve m" ?bal]
      by (auto simp: Stake unat_sub_exact word_le_nat_alt split: if_splits)
  qed
  have "get_state (stk_state L) (s' (acct me)) = Inr (Stake m (with_stake (dl_stake (st_delegation stk) - delta) stk))"
    using write_stake_reads [OF assms(2) w(1)] keyed_set_state_frame [OF w(2) assms(3)] by simp
  with write_stake_reads [OF assms(2) w(2)] new old show ?thesis by auto
next
  case (StakeInitialized m)
  let ?bal = "lamports (s (acct me))" and ?sb = "lamports (s (acct sp))"
  from assms(1) obtain sr where sr: "sr \<le> n" "n = ?bal \<or> n + rent_exempt_reserve m < ?bal"
    and w: "write_stake L sp (StakeInitialized (m\<lparr>rent_exempt_reserve := sr\<rparr>)) s = Inr s'"
    by (auto simp: split_states_def StakeInitialized split_initialized_Inr)
  have "unat (?sb + n) = unat ?sb + unat n" using assms(4,8) by (intro unat_add_u64) (simp add: word_le_nat_alt)
  with sr(1) have "sr \<le> ?sb + n" by (simp add: word_le_nat_alt)
  moreover have "rent_exempt_reserve m \<le> ?bal - n" if "n \<noteq> ?bal"
    using that sr(2) reserve_left [of n "rent_exempt_reserve m" ?bal] assms(4,5,8)
    by (simp add: StakeInitialized word_le_nat_alt unat_sub_exact)
  moreover have "get_state (stk_state L) (s' (acct me)) = Inr st"
    using keyed_set_state_frame [OF w assms(3)] assms(6) by (simp add: keyed_state_def)
  ultimately show ?thesis using write_stake_reads [OF assms(2) w] by (simp add: StakeInitialized)
qed (use assms in \<open>auto simp: split_states_def keyed_state_def split: if_splits\<close>)

lemma split_backed:
  assumes "split_stake_account L me n sp S s = Inr s'" and "serde_ok (stk_state L)" and "all_backed L e s"
    and "owner (s (acct me)) = stake_program_id"
    and "acct me \<noteq> acct sp \<longrightarrow> unat (lamports (s (acct me))) + unat (lamports (s (acct sp))) < 2 ^ 62"
  shows "all_backed L e s'"
  using assms(1)
proof (rule split_stake_Inr)
  fix st s1 s2
  assume sp: "read_stake L s sp = Inr StakeUninitialized" and n: "n \<le> lamports (s (acct me))"
    and st: "read_stake L s me = Inr st" and s1: "split_states L me n sp S st s = Inr s1"
    and s2: "(if n = lamports (s1 (acct me)) then write_stake L me StakeUninitialized s1 else Inr s1) = Inr s2"
    and s': "s' = debit (acct me) n (credit (acct sp) n s2)"
  have rw1: "rewritten L {acct me, acct sp} s s1" using s1 by (rule split_states_rewritten) simp_all
  moreover have "rewritten L {acct me, acct sp} s1 s2" using s2 by (auto intro: write_rewritten split: if_splits)
  ultimately have rw: "rewritten L {acct me, acct sp} s s2" by (rule rewritten_trans)
  have lam: "\<And>r. lamports (s1 r) = lamports (s r)" "\<And>r. lamports (s2 r) = lamports (s r)"
    using rw1 rw by (simp_all add: rewritten_keeps)
  show ?thesis unfolding s' debit_credit
  proof (rule backed_move)
    show "backed L e (s2 r)" if "r \<noteq> acct me" "r \<noteq> acct sp" for r
      using that rw assms(3) by (simp add: rewritten_keeps all_backed_def)
    assume eq: "acct me = acct sp"
    with st sp s1 have "s1 = s" by (auto simp: keyed_state_def split_states_def split: if_splits)
    then have "get_state (stk_state L) (s2 (acct me)) = Inr StakeUninitialized"
      using s2 sp eq write_stake_reads [OF assms(2), of me _ s s2] by (auto simp: keyed_state_def split: if_splits)
    then show "backed L e (s2 (acct sp))" by (simp add: backed_def eq)
  next
    assume neq: "acct me \<noteq> acct sp"
    note new = split_states_backed [OF s1 assms(2) neq n read_backed [OF assms(3,4) st] st sp assms(5) [rule_format, OF neq]]
    have "s2 (acct sp) = s1 (acct sp)" using s2 neq by (auto simp: keyed_set_state_frame split: if_splits)
    with new show "backed L e ((s2 (acct sp))\<lparr>lamports := lamports (s2 (acct sp)) + n\<rparr>)"
      by (auto simp: backed_lamports lam)
    show "backed L e ((s2 (acct me))\<lparr>lamports := lamports (s2 (acct me)) - n\<rparr>)"
      using new s2 write_stake_reads [OF assms(2)] by (auto simp: backed_lamports lam split: if_splits)
  qed
qed

subsection \<open>Merging\<close>

text \<open>What a merge adds to the stake is at most what the other account holds.\<close>

lemma active_before_deactivation:
  assumes "stake_activating_and_deactivating d e h b = (x, y, z)" and "x = 0 \<and> y \<noteq> 0 \<or> x = 0 \<and> z \<noteq> 0 \<or> x \<noteq> 0 \<and> z = 0"
  shows "e < deactivation_epoch d"
proof (rule ccontr)
  assume "\<not> e < deactivation_epoch d"
  moreover obtain x0 y0 where start: "stake_and_activating d e h b = (x0, y0)" by fastforce
  moreover have "x0 \<le> dl_stake d" using stake_and_activating_le [OF start] by (simp add: word_le_nat_alt)
  ultimately show False using assms
    by (auto simp: stake_activating_and_deactivating_def Let_def min_def split: if_splits option.splits bind_splits)
qed

lemma mergeable_cases:
  assumes "get_if_mergeable L k c h s = Inr kind"
  shows "case kind of Inactive m n \<Rightarrow> n = lamports (s (acct k))
    | ActivationEpoch m stk \<Rightarrow> read_stake L s k = Inr (Stake m stk) \<and> clock_epoch c < deactivation_epoch (st_delegation stk)
    | FullyActive m stk \<Rightarrow> read_stake L s k = Inr (Stake m stk) \<and> clock_epoch c < deactivation_epoch (st_delegation stk)"
proof -
  from assms obtain st where st: "read_stake L s k = Inr st"
    by (auto simp: get_if_mergeable_def and_then_Inr_iff)
  with assms show ?thesis
    by (cases st) (auto simp: get_if_mergeable_def dest: active_before_deactivation split: prod.splits if_splits)
qed

lemma merge_kinds_Some:
  assumes "merge_kinds kind source = Inr (Some st)"
  obtains m stk n where "st = Stake m (add_stake n stk)" "kind = ActivationEpoch m stk \<or> kind = FullyActive m stk"
    "(\<exists>ms. source = Inactive ms n) \<or>
     (\<exists>ms source_stk. (source = ActivationEpoch ms source_stk \<and> n = rent_exempt_reserve ms + dl_stake (st_delegation source_stk) \<or>
        source = FullyActive ms source_stk \<and> n = dl_stake (st_delegation source_stk)))"
  using assms
  by (auto simp: merge_kinds_def and_then_Inr_iff active_stakes_can_merge_def active_delegations_can_merge_def
    split: merge_kind.splits if_splits intro: that)

lemma merge_adds:
  assumes "merge_kinds kind source_kind = Inr (Some st)" and "get_if_mergeable L me c h s = Inr kind"
    and "get_if_mergeable L src c h s = Inr source_kind" and "all_backed L (clock_epoch c) s"
    and "owner (s (acct src)) = stake_program_id"
  obtains m stk n where "st = Stake m (add_stake n stk)" "read_stake L s me = Inr (Stake m stk)"
    "clock_epoch c < deactivation_epoch (st_delegation stk)" "n \<le> lamports (s (acct src))"
  using assms(1)
proof (rule merge_kinds_Some)
  fix m stk n
  assume st: "st = Stake m (add_stake n stk)" and kind: "kind = ActivationEpoch m stk \<or> kind = FullyActive m stk"
    and src: "(\<exists>ms. source_kind = Inactive ms n) \<or>
     (\<exists>ms source_stk. (source_kind = ActivationEpoch ms source_stk \<and> n = rent_exempt_reserve ms + dl_stake (st_delegation source_stk) \<or>
        source_kind = FullyActive ms source_stk \<and> n = dl_stake (st_delegation source_stk)))"
  have me: "read_stake L s me = Inr (Stake m stk)" "clock_epoch c < deactivation_epoch (st_delegation stk)"
    using mergeable_cases [OF assms(2)] kind by auto
  have "n \<le> lamports (s (acct src))"
    using src
  proof (elim disjE exE conjE)
    fix ms source_stk
    assume n: "n = rent_exempt_reserve ms + dl_stake (st_delegation source_stk)"
      and k: "source_kind = ActivationEpoch ms source_stk"
    then have src: "read_stake L s src = Inr (Stake ms source_stk)" "clock_epoch c < deactivation_epoch (st_delegation source_stk)"
      using mergeable_cases [OF assms(3)] by simp_all
    from read_backed [OF assms(4,5) src(1)] src(2) show ?thesis
      using le_less_trans [OF _ unat_lt2p_u64 [of "lamports (s (acct src))"]] by (simp add: n word_le_nat_alt unat_add_u64)
  qed (use mergeable_cases [OF assms(3)] read_backed [OF assms(4,5)] in \<open>fastforce simp: word_le_nat_alt\<close>)+
  with st me show thesis by (rule that)
qed

lemma merge_backed:
  assumes "merge_stake_accounts L me src c h S s = Inr s'" and "serde_ok (stk_state L)" and "all_backed L e s"
    and "owner (s (acct me)) = stake_program_id" and "acct me \<noteq> acct src" and e: "clock_epoch c = e"
    and "unat (lamports (s (acct me))) + unat (lamports (s (acct src))) < 2 ^ 62"
  shows "all_backed L e s'"
  using assms(1)
proof (rule merge_stake_Inr)
  fix kind src_kind merged s1 s2
  assume src: "owner (s (acct src)) = stake_program_id"
    and kinds: "get_if_mergeable L me c h s = Inr kind" "get_if_mergeable L src c h s = Inr src_kind"
      "merge_kinds kind src_kind = Inr merged"
    and s1: "(case merged of Some st \<Rightarrow> write_stake L me st s | None \<Rightarrow> Inr s) = Inr s1"
    and s2: "write_stake L src StakeUninitialized s1 = Inr s2"
    and s': "s' = credit (acct me) (lamports (s2 (acct src))) (debit (acct src) (lamports (s2 (acct src))) s2)"
  have rw1: "rewritten L {acct me} s s1" using s1 by (auto intro: write_rewritten split: option.splits)
  have rw2: "rewritten L {acct src} s1 s2" using s2 by (rule write_rewritten) simp
  have lam: "\<And>r. lamports (s2 r) = lamports (s r)" using rw1 rw2 by (simp add: rewritten_keeps)
  let ?bal = "lamports (s (acct me))" and ?n = "lamports (s (acct src))"
  have sum: "unat (?bal + ?n) = unat ?bal + unat ?n" using assms(7) by (intro unat_add_u64) simp
  have me: "s2 (acct me) = s1 (acct me)" using rw2 assms(5) by (simp add: rewritten_keeps)
  show ?thesis unfolding s'
  proof (rule backed_move)
    show "backed L e (s2 r)" if "r \<noteq> acct src" "r \<noteq> acct me" for r
      using that rw1 rw2 assms(3) by (simp add: rewritten_keeps all_backed_def)
    show "backed L e ((s2 (acct src))\<lparr>lamports := lamports (s2 (acct src)) - lamports (s2 (acct src))\<rparr>)"
      using write_stake_reads [OF assms(2) s2] by (simp add: backed_lamports)
    show "backed L e ((s2 (acct me))\<lparr>lamports := lamports (s2 (acct me)) + lamports (s2 (acct src))\<rparr>)"
    proof (cases merged)
      case None
      then show ?thesis using s1 me assms(3) sum by (auto simp: all_backed_def lam word_le_nat_alt intro: backed_more)
    next
      case (Some st)
      obtain m stk n where st: "st = Stake m (add_stake n stk)" "read_stake L s me = Inr (Stake m stk)"
        "e < deactivation_epoch (st_delegation stk)" "n \<le> ?n"
        using merge_adds [OF kinds(3) [unfolded Some] kinds(1,2) assms(3) [folded e] src, unfolded e] by blast
      have "unat (dl_stake (st_delegation stk) + n) \<le> unat (dl_stake (st_delegation stk)) + unat n"
        by (simp add: unat_word_ariths)
      then have "backed_state e st (?bal + ?n)"
        using read_backed [OF assms(3,4) st(2)] st(3,4) assms(7) by (simp add: st(1) add_stake_def sum word_le_nat_alt)
      then show ?thesis using s1 write_stake_reads [OF assms(2), of me st s s1] 
        by (simp add: Some me lam [of "acct me", unfolded me] lam backed_lamports)
    qed
  qed (use assms(5) in simp)
qed

subsection \<open>Withdrawing\<close>

lemma withdraw_limits_backed:
  assumes "withdraw_limits L me c h S s = Inr (lock, reserve, staked)" and "read_stake L s me = Inr st"
    and "backed_state e st (lamports (s (acct me)))" and e: "clock_epoch c = e" and "unat (lamports (s (acct me))) < 2 ^ 62"
    and "n \<le> lamports (s (acct me))" and "n + reserve \<le> lamports (s (acct me))"
  shows "backed_state e st (lamports (s (acct me)) - n)"
proof (cases st)
  case (Stake m stk)
  let ?d = "st_delegation stk" and ?res = "rent_exempt_reserve m"
  define x where "x = (if deactivation_epoch ?d \<le> e then delegation_stake ?d e (Some h) True else dl_stake ?d)"
  have reserve: "reserve = x + ?res"
    using assms(1,2) by (auto simp: withdraw_limits_def Stake and_then_Inr_iff Let_def e x_def)
  have "x \<le> dl_stake ?d" using delegation_stake_le by (simp add: x_def)
  then have x: "unat x < 2 ^ 62" and res: "unat ?res \<le> unat (lamports (s (acct me)))"
    using assms(3) by (auto simp: Stake word_le_nat_alt split: if_splits)
  then have "unat (x + ?res) = unat x + unat ?res" using assms(5) by (intro unat_add_u64) simp
  moreover have "unat (n + reserve) = unat n + unat reserve"
    using calculation x res assms(5,6) by (intro unat_add_u64) (simp add: reserve word_le_nat_alt)
  ultimately show ?thesis
    using assms(3,6,7) by (auto simp: Stake reserve x_def word_le_nat_alt word_less_nat_alt unat_sub_exact split: if_splits)
next
  case (StakeInitialized m)
  then have "reserve = rent_exempt_reserve m" using assms(1,2) by (auto simp: withdraw_limits_def and_then_Inr_iff)
  moreover from this have "unat (n + reserve) = unat n + unat reserve"
    using assms(3,5,6) by (intro unat_add_u64) (simp add: StakeInitialized word_le_nat_alt)
  ultimately show ?thesis using assms(6,7) by (simp add: StakeInitialized word_le_nat_alt unat_sub_exact)
qed (use assms in simp_all)

lemma withdraw_backed:
  assumes "withdraw_stake L me n to c h auth cust s = Inr s'" and "serde_ok (stk_state L)" and "all_backed L e s"
    and "owner (s (acct me)) = stake_program_id" and e: "clock_epoch c = e" and "n \<le> lamports (s (acct me))"
    and "unat (lamports (s (acct me))) < 2 ^ 62"
    and "acct me \<noteq> acct to \<longrightarrow> unat (lamports (s (acct me))) + unat (lamports (s (acct to))) < 2 ^ 62"
  shows "all_backed L e s'"
  using assms(1)
proof (rule withdraw_stake_Inr)
  fix lock reserve staked s1
  assume lim: "withdraw_limits L me c h {key auth} s = Inr (lock, reserve, staked)"
    and n: "n + reserve \<le> lamports (s (acct me)) \<or> n = lamports (s (acct me)) \<and> \<not> staked"
    and s1: "(if n = lamports (s (acct me)) then write_stake L me StakeUninitialized s else Inr s) = Inr s1"
    and s': "s' = credit (acct to) n (debit (acct me) n s1)"
  have rw: "rewritten L {acct me} s s1" using s1 by (auto intro: write_rewritten split: if_splits)
  then have lam: "\<And>r. lamports (s1 r) = lamports (s r)" by (simp add: rewritten_keeps)
  have uninit: "get_state (stk_state L) (s1 (acct me)) = Inr StakeUninitialized" if "n = lamports (s (acct me))"
    using that s1 write_stake_reads [OF assms(2), of me _ s s1] by simp
  obtain st where st: "read_stake L s me = Inr st" using lim by (auto simp: withdraw_limits_def and_then_Inr_iff)
  show ?thesis unfolding s'
  proof (rule backed_move)
    show "backed L e (s1 r)" if "r \<noteq> acct me" "r \<noteq> acct to" for r
      using that rw assms(3) by (simp add: rewritten_keeps all_backed_def)
    show "backed L e (s1 (acct to))" if "acct me = acct to"
      using that s1 uninit assms(3) by (auto simp: all_backed_def backed_def split: if_splits)
    assume neq: "acct me \<noteq> acct to"
    then have "s1 (acct to) = s (acct to)" using rw by (simp add: rewritten_keeps)
    moreover have "lamports (s (acct to)) \<le> lamports (s (acct to)) + n"
      using assms(6,8) neq by (intro word_le_add) (simp add: word_le_nat_alt)
    ultimately show "backed L e ((s1 (acct to))\<lparr>lamports := lamports (s1 (acct to)) + n\<rparr>)"
      using assms(3) by (auto simp: all_backed_def intro: backed_more)
    show "backed L e ((s1 (acct me))\<lparr>lamports := lamports (s1 (acct me)) - n\<rparr>)"
    proof (cases "n = lamports (s (acct me))")
      case True
      then show ?thesis using uninit by (simp add: backed_lamports)
    next
      case False
      with s1 n withdraw_limits_backed [OF lim st read_backed [OF assms(3,4) st] e assms(7,6)] st show ?thesis
        by (simp add: backed_lamports keyed_state_def)
    qed
  qed
qed

section \<open>The invariant\<close>

text \<open>
  The circumstances of an instruction: the clock sysvar is in epoch \<open>e\<close>, the balances passed to it
  add up to less than \<open>2 ^ 62\<close> lamports (about nine times the supply), the accounts passed under
  different keys are different accounts, and a withdrawal names no more than the balance.
\<close>

definition usual :: "stake_lib \<Rightarrow> epoch \<Rightarrow> keyed_account list \<Rightarrow> stake_instruction \<Rightarrow> store \<Rightarrow> bool" where
  "usual L e kas ix s \<longleftrightarrow>
     (\<forall>k\<in>set kas. \<forall>c. from_keyed_account sysvar_clock_id (stk_clock L) s k = Inr c \<longrightarrow> clock_epoch c = e) \<and>
     total_lamports (acct ` set kas) s < 2 ^ 62 \<and>
     (\<forall>j\<in>set kas. \<forall>k\<in>set kas. acct j = acct k \<longrightarrow> key j = key k) \<and>
     (\<forall>n. ix = StakeWithdraw n \<longrightarrow> n \<le> lamports (s (acct (hd kas))))"

lemma one_balance: "finite R \<Longrightarrow> r \<in> R \<Longrightarrow> total_lamports R s < N \<Longrightarrow> unat (lamports (s r)) < N"
  unfolding total_lamports_def using member_le_sum [of r R "\<lambda>r. unat (lamports (s r))"] by fastforce

lemma stake_dispatch_backed:
  assumes "stake_dispatch L me ks S ix s = Inr s'" and "serde_ok (stk_state L)" and "all_backed L e s"
    and "owner (s (acct me)) = stake_program_id" and u: "usual L e (me # ks) ix s"
  shows "all_backed L e s'"
proof -
  have clock: "clock_epoch c = e" if "from_keyed_account sysvar_clock_id (stk_clock L) s k = Inr c" "k \<in> set ks" for k c
    using u that by (auto simp: usual_def)
  have two: "unat (lamports (s (acct me))) + unat (lamports (s (acct k))) < 2 ^ 62" if "k \<in> set ks" "acct me \<noteq> acct k" for k
    using u that by (intro two_balances [of "acct ` set (me # ks)"]) (auto simp: usual_def)
  have one: "unat (lamports (s (acct me))) < 2 ^ 62"
    using u by (intro one_balance [of "acct ` set (me # ks)"]) (auto simp: usual_def)
  have distinct: "acct me \<noteq> acct k" if "key k \<noteq> key me" "k \<in> set ks" for k
    using u that unfolding usual_def list.set by (metis insertI1 insertI2)
  note rules = assms(2,3,4)
  show ?thesis
  proof (cases ix)
    case (StakeInitialize a l)
    with assms(1) show ?thesis by (auto simp: stake_dispatch_def and_then_Inr_iff intro: initialize_backed rules)
  next
    case (StakeAuthorizeWithSeed k w seed own)
    with assms(1) show ?thesis
      by (auto simp: stake_dispatch_def and_then_Inr_iff elim!: authorize_stake_with_seed_Inr intro: authorize_backed rules)
  next
    case DelegateStake
    with assms(1) show ?thesis by (auto simp: stake_dispatch_def and_then_Inr_iff intro: delegate_backed rules one)
  next
    case (StakeSplit n)
    with assms(1) obtain sp rest where "ks = sp # rest" and run: "split_stake_account L me n sp S s = Inr s'"
      by (auto simp: stake_dispatch_def and_then_Inr_iff)
    then show ?thesis using two [of sp] by (intro split_backed [OF run rules]) simp
  next
    case StakeMerge
    with assms(1) obtain src ck rest c h where "ks = src # ck # rest"
      "from_keyed_account sysvar_clock_id (stk_clock L) s ck = Inr c" and run: "merge_stake_accounts L me src c h S s = Inr s'"
      by (auto simp: stake_dispatch_def clock_and_history_def and_then_Inr_iff)
    moreover have "key src \<noteq> key me" using run by (rule merge_stake_Inr)
    ultimately show ?thesis using clock [of ck c] distinct [of src] two [of src] by (intro merge_backed [OF run rules]) auto
  next
    case (StakeWithdraw n)
    have n: "n \<le> lamports (s (acct me))" using u by (simp add: usual_def StakeWithdraw)
    from assms(1) [unfolded StakeWithdraw] show ?thesis
    proof (rule withdraw_dispatch_Inr)
      fix to ck hk auth rest c h
      assume ks: "ks = to # ck # hk # auth # rest" and c: "from_keyed_account sysvar_clock_id (stk_clock L) s ck = Inr c"
        and run: "withdraw_stake L me n to c h auth (case rest of [] \<Rightarrow> None | k # _ \<Rightarrow> Some k) s = Inr s'"
      have "clock_epoch c = e" using c by (rule clock) (simp add: ks)
      then show ?thesis using n one two [of to] by (intro withdraw_backed [OF run rules]) (simp_all add: ks)
    qed
  next
    case StakeDeactivate
    with assms(1) obtain ck rest c where "ks = ck # rest" "from_keyed_account sysvar_clock_id (stk_clock L) s ck = Inr c"
      and run: "deactivate_stake_account L me c S s = Inr s'"
      by (auto simp: stake_dispatch_def and_then_Inr_iff)
    then show ?thesis using clock [of ck c] by (intro deactivate_backed [OF run rules]) simp
  next
    case (SetLockup args)
    with assms(1) have "set_stake_lockup L me args S s = Inr s'" by (simp add: stake_dispatch_def)
    then show ?thesis using rules by (rule set_lockup_backed)
  next
    case (StakeAuthorize k w)
    with assms(1) have "authorize_stake L me S k w s = Inr s'" by (simp add: stake_dispatch_def)
    then show ?thesis using rules by (rule authorize_backed)
  qed
qed


text \<open>Account 1 has delegated 30 lamports, which are active.\<close>

definition demo_delegated :: stake where
  "demo_delegated = \<lparr>st_delegation = delegation_new 9 30 1 (Fin 0), credits_observed = 0\<rparr>"

definition delegated_store :: store where
  "delegated_store r = (if r = 1 then stake_account_of 100 (Stake demo_meta demo_delegated) else default_account)"

lemma never_deactivated: "\<not> (- 1 :: epoch) \<le> 3" "(3 :: epoch) < - 1"
  by code_simp+

lemma delegated_withdraw_runs:
  "stake_process_instruction (demo_stake (StakeWithdraw 40)) (keyed 71 1 False # withdraw_accounts) [] delegated_store =
     Inr (credit 2 40 (debit 1 40 delegated_store))"
  by (simp add: stake_process_instruction_def stake_dispatch_def clock_and_history_def withdraw_accounts_def withdraw_stake_def
    withdraw_limits_def keyed_state_def delegated_store_def demo_meta_def demo_delegated_def delegation_new_def demo_clock_def
    next_keyed_account_def authorized_check_def is_in_force_def ok_or_def default_delegation_def Let_def never_deactivated)

lemma default_account_not_stake: "owner default_account \<noteq> stake_program_id"
  by (simp add: default_account_def stake_program_id_def)


section \<open>The overflow in withdrawals\<close>

text \<open>
  (C25) The check of a withdrawal from a stake account adds the amount to the reserve without an
  overflow check. The withdrawer of an initialised account can therefore withdraw 2^64 - x lamports for
  every x up to the reserve: the instruction succeeds, and instead of paying the recipient it takes x
  lamports from it. The recipient need not have signed; when it is any other writable stake account,
  the check of the runtime after the instruction accepts the loss, since the stake program owns it.
\<close>

theorem withdraw_stake_takes_from_recipient:
  assumes "read_stake L s me = Inr (StakeInitialized m)"
    and "is_signer auth" and "key auth = withdrawer (sm_authorized m)"
    and "\<not> is_in_force (sm_lockup m) c (Option.bind custodian signer_key)"
    and "acct to \<noteq> acct me" and "owner (s (acct to)) = stake_program_id" and "\<not> executable (s (acct to))"
    and "0 < x" and "x \<le> rent_exempt_reserve m" and "rent_exempt_reserve m \<le> lamports (s (acct me))"
    and "unat (lamports (s (acct me))) + unat x < 2 ^ 64"
  shows "\<exists>s'. withdraw_stake L me (- x) to c h auth custodian s = Inr s' \<and>
    lamports (s' (acct to)) = lamports (s (acct to)) - x \<and>
    lamports (s' (acct me)) = lamports (s (acct me)) + x \<and>
    pre_account_verify stake_program_id r (s' (acct to)) (pre_account_new (key to) (s (acct to)) False True) = Inr ()"
proof -
  let ?s' = "credit (acct to) (- x) (debit (acct me) (- x) s)"
  have "withdraw_stake L me (- x) to c h auth custodian s = Inr ?s'"
    using negative_amount_passes [OF assms(8-11)] assms(1-4)
    by (simp add: withdraw_stake_def withdraw_limits_def signer_key_def ok_or_def authorized_check_def not_less Let_def)
  moreover have "obeys stake_program_id r True (s (acct to)) (?s' (acct to))"
    using assms(5-7) by (simp add: obeys_def credit_def debit_def)
  ultimately show ?thesis
    using assms(5) by (simp add: pre_account_verify_obeys pre_account_new_def) (simp add: credit_def debit_def)
qed

text \<open>Account 2, a victim, loses 7 lamports to account 1.\<close>

definition victim_store :: store where
  "victim_store = stake_store(2 := stake_account_of 50 StakeUninitialized)"

theorem withdraw_stake_takes_from_recipient_witness:
  "\<exists>s'. withdraw_stake (demo_stake StakeDeactivate) (keyed 71 1 False) (- 7) (keyed 72 2 False) demo_clock [] (keyed 82 5 True)
     (Some (keyed 83 6 True)) victim_store = Inr s' \<and> lamports (s' 2) = 43 \<and> lamports (s' 1) = 107"
proof -
  have "read_stake (demo_stake StakeDeactivate) victim_store (keyed 71 1 False) = Inr (StakeInitialized demo_meta)"
    by (simp add: keyed_state_def victim_store_def stake_store_def)
  from withdraw_stake_takes_from_recipient [OF this, of "keyed 82 5 True" demo_clock "Some (keyed 83 6 True)" "keyed 72 2 False" 7
      "[]" default_rent]
  show ?thesis
    by (simp add: demo_meta_def is_in_force_def victim_store_def stake_store_def stake_account_of_def default_account_def
      del: One_nat_def) blast
qed

end
