(* ===== verification/HashMap.thy ===== *)
theory HashMap
  imports Prelude "HOL-Library.AList"
begin

text \<open>
  The standard library's \<open>HashMap\<close>, as the components of the bank use it: an association list with
  one entry per key. The iteration order of a \<open>HashMap\<close> is not specified; here it is the order of
  the list, and no property depends on it. The locale \<open>hash_map\<close> is the contract of the clients.
\<close>

section \<open>Definitions\<close>

type_synonym ('k, 'v) hmap = "('k \<times> 'v) list"

definition hm_get :: "('k, 'v) hmap \<Rightarrow> 'k \<Rightarrow> 'v option" where
  "hm_get m k = map_of m k"

definition hm_insert :: "'k \<Rightarrow> 'v \<Rightarrow> ('k, 'v) hmap \<Rightarrow> ('k, 'v) hmap" where
  "hm_insert k v m = AList.update k v m"

definition hm_remove :: "'k \<Rightarrow> ('k, 'v) hmap \<Rightarrow> ('k, 'v) hmap" where
  "hm_remove k m = AList.delete k m"

definition hm_retain :: "('k \<Rightarrow> 'v \<Rightarrow> bool) \<Rightarrow> ('k, 'v) hmap \<Rightarrow> ('k, 'v) hmap" where
  "hm_retain P m = filter (\<lambda>(k, v). P k v) m"

definition hm_ok :: "('k, 'v) hmap \<Rightarrow> bool" where
  "hm_ok m \<longleftrightarrow> distinct (map fst m)"

section \<open>The contract\<close>

locale hash_map =
  fixes ok :: "'m \<Rightarrow> bool" and empty_map :: 'm and get :: "'m \<Rightarrow> 'k \<Rightarrow> 'v option"
    and ins :: "'k \<Rightarrow> 'v \<Rightarrow> 'm \<Rightarrow> 'm" and del :: "'k \<Rightarrow> 'm \<Rightarrow> 'm"
    and retain :: "('k \<Rightarrow> 'v \<Rightarrow> bool) \<Rightarrow> 'm \<Rightarrow> 'm" and entries :: "'m \<Rightarrow> ('k \<times> 'v) list"
  assumes ok_empty: "ok empty_map" and get_empty: "get empty_map k = None"
    and ok_ins: "ok m \<Longrightarrow> ok (ins k v m)" and ok_del: "ok m \<Longrightarrow> ok (del k m)"
    and ok_retain: "ok m \<Longrightarrow> ok (retain P m)"
    and get_ins: "get (ins k v m) j = (if j = k then Some v else get m j)"
    and get_del: "get (del k m) j = (if j = k then None else get m j)"
    and get_retain: "ok m \<Longrightarrow>
      get (retain P m) j = (case get m j of None \<Rightarrow> None | Some v \<Rightarrow> if P j v then Some v else None)"
    and entries_iff: "ok m \<Longrightarrow> (j, v) \<in> set (entries m) \<longleftrightarrow> get m j = Some v"
    and entries_distinct: "ok m \<Longrightarrow> distinct (map fst (entries m))"
begin

lemma get_retain_Some_iff: "ok m \<Longrightarrow> get (retain P m) j = Some v \<longleftrightarrow> get m j = Some v \<and> P j v"
  by (auto simp: get_retain split: option.splits)

text \<open>A map whose entries carry different labels below \<open>n\<close> has at most \<open>n\<close> entries.\<close>

lemma entries_bounded:
  assumes ok: "ok m" and below: "\<And>k v. get m k = Some v \<Longrightarrow> f v < (n :: nat)"
    and inj: "\<And>k v k' v'. get m k = Some v \<Longrightarrow> get m k' = Some v' \<Longrightarrow> f v = f v' \<Longrightarrow> k = k'"
  shows "length (entries m) \<le> n"
proof -
  let ?g = "\<lambda>(k, v). f v"
  have "inj_on ?g (set (entries m))"
    using inj entries_iff [OF ok] by (fastforce simp: inj_on_def)
  then have "card (set (entries m)) = card (?g ` set (entries m))" by (simp add: card_image)
  also have "?g ` set (entries m) \<subseteq> {..<n}" using below entries_iff [OF ok] by auto
  then have "card (?g ` set (entries m)) \<le> n" by (metis card_lessThan card_mono finite_lessThan)
  finally show ?thesis
    using entries_distinct [OF ok] by (simp add: distinct_card distinct_map)
qed

end

lemma map_of_retain:
  "distinct (map fst m) \<Longrightarrow> map_of (filter (\<lambda>(k, v). P k v) m) j =
     (case map_of m j of None \<Rightarrow> None | Some v \<Rightarrow> if P j v then Some v else None)"
  by (induction m) (auto split: option.splits simp: rev_image_eqI)

lemma hm_ok_Nil [simp]: "hm_ok []"
  by (simp add: hm_ok_def)

interpretation hm: hash_map hm_ok "[]" hm_get hm_insert hm_remove hm_retain "\<lambda>m. m"
  by unfold_locales
    (auto simp: hm_ok_def hm_get_def hm_insert_def hm_remove_def hm_retain_def update_conv' delete_conv'
      distinct_update distinct_delete map_of_retain distinct_map_filter)

end
