(* ===== verification/Transaction.thy ===== *)
theory Transaction
  imports MessageProcessor SystemProgram
begin

text \<open>
  Transactions (\<open>sdk/src/transaction.rs\<close>, \<open>sdk/src/signers.rs\<close>): sanitisation, signing by several
  parties in turn, verification of the signatures, and the recognition of durable-nonce transactions.
  A signature is a list of 64 bytes. The signature scheme, the \<open>Signer\<close> implementations and the
  encoding of a message are not part of these modules: a signer is a record with its key and its
  signing function, and \<open>verify_sig\<close> and \<open>msg_ser\<close> are parameters.
\<close>

section \<open>Data\<close>

type_synonym signature = bytes

definition default_signature :: signature where
  "default_signature = replicate 64 0"

record transaction =
  tx_signatures :: "signature list"
  tx_message :: message

datatype signer_error =
    KeypairPubkeyMismatch
  | NotEnoughSigners
  | SignerTransactionError transaction_error
  | SignerCustom bytes
  | SignerPresigner
  | SignerConnection bytes
  | SignerInvalidInput bytes
  | SignerNoDeviceFound
  | SignerProtocol bytes
  | SignerUserCancel bytes

record signer =
  sr_pubkey :: pubkey
  sr_try_sign :: "bytes \<Rightarrow> (signer_error, signature) outcome"

section \<open>Reading\<close>

definition tx_sanitize :: "transaction \<Rightarrow> (sanitize_error, unit) outcome" where
  "tx_sanitize tx =
     (if length (tx_signatures tx) < unat (num_required_signatures (header (tx_message tx)))
      then Inl (Err IndexOutOfBounds)
      else if length (account_keys (tx_message tx)) < length (tx_signatures tx)
      then Inl (Err IndexOutOfBounds)
      else sanitize (tx_message tx))"

definition new_unsigned :: "message \<Rightarrow> transaction" where
  "new_unsigned m =
     \<lparr>tx_signatures = replicate (unat (num_required_signatures (header m))) default_signature, tx_message = m\<rparr>"

definition key_index :: "transaction \<Rightarrow> nat \<Rightarrow> nat \<Rightarrow> nat option" where
  "key_index tx instruction_index accounts_index =
     (case nth_opt (instructions (tx_message tx)) instruction_index of
        None \<Rightarrow> None
      | Some ix \<Rightarrow> map_option unat (nth_opt (ci_accounts ix) accounts_index))"

definition tx_key :: "transaction \<Rightarrow> nat \<Rightarrow> nat \<Rightarrow> pubkey option" where
  "tx_key tx instruction_index accounts_index =
     Option.bind (key_index tx instruction_index accounts_index) (nth_opt (account_keys (tx_message tx)))"

definition tx_signer_key :: "transaction \<Rightarrow> nat \<Rightarrow> nat \<Rightarrow> pubkey option" where
  "tx_signer_key tx instruction_index accounts_index =
     (case key_index tx instruction_index accounts_index of
        None \<Rightarrow> None
      | Some i \<Rightarrow>
          if length (tx_signatures tx) \<le> i then None else nth_opt (account_keys (tx_message tx)) i)"

definition is_signed :: "transaction \<Rightarrow> bool" where
  "is_signed tx \<longleftrightarrow> list_all (\<lambda>s. s \<noteq> default_signature) (tx_signatures tx)"

definition uses_durable_nonce :: "system_lib \<Rightarrow> transaction \<Rightarrow> compiled_instruction option" where
  "uses_durable_nonce L tx =
     (case instructions (tx_message tx) of
        [] \<Rightarrow> None
      | ix # _ \<Rightarrow>
          if nth_opt (account_keys (tx_message tx)) (unat (program_id_index ix)) = Some system_program_id \<and>
             limited_deserialize (sl_instruction L) (ci_data ix) = Inr AdvanceNonceAccount
          then Some ix else None)"

definition get_nonce_pubkey_from_instruction :: "compiled_instruction \<Rightarrow> transaction \<Rightarrow> pubkey option" where
  "get_nonce_pubkey_from_instruction ix tx =
     (case ci_accounts ix of [] \<Rightarrow> None | i # _ \<Rightarrow> nth_opt (account_keys (tx_message tx)) (unat i))"

section \<open>Signing\<close>

fun try_sign_message :: "signer list \<Rightarrow> bytes \<Rightarrow> (signer_error, signature list) outcome" where
  "try_sign_message [] msg = Inr []"
| "try_sign_message (k # ks) msg =
     and_then (sr_try_sign k msg) (\<lambda>s. and_then (try_sign_message ks msg) (\<lambda>ss. Inr (s # ss)))"

definition get_signing_keypair_positions ::
  "transaction \<Rightarrow> pubkey list \<Rightarrow> (transaction_error, nat option list) outcome" where
  "get_signing_keypair_positions tx pubkeys =
     (let n = unat (num_required_signatures (header (tx_message tx)))
      in if length (account_keys (tx_message tx)) < n then Inl (Err InvalidAccountIndex)
         else Inr (map (index_of (take n (account_keys (tx_message tx)))) pubkeys))"

text \<open>The loop that stores the signatures; \<open>None\<close> is an index out of range.\<close>

fun place_signatures :: "nat list \<Rightarrow> signature list \<Rightarrow> signature list \<Rightarrow> signature list option" where
  "place_signatures [] ss sigs = Some sigs"
| "place_signatures (p # ps) [] sigs = None"
| "place_signatures (p # ps) (s # ss) sigs =
     (if p < length sigs then place_signatures ps ss (sigs[p := s]) else None)"

text \<open>A call that fails may already have changed the transaction, so both are returned.\<close>

definition try_partial_sign_unchecked ::
  "(message \<Rightarrow> bytes) \<Rightarrow> signer list \<Rightarrow> nat list \<Rightarrow> hash \<Rightarrow> transaction \<Rightarrow>
     transaction \<times> (signer_error, unit) outcome" where
  "try_partial_sign_unchecked msg_ser keypairs positions blockhash tx =
     (let tx1 = (if blockhash \<noteq> recent_blockhash (tx_message tx)
                 then \<lparr>tx_signatures = map (\<lambda>_. default_signature) (tx_signatures tx),
                       tx_message = (tx_message tx)\<lparr>recent_blockhash := blockhash\<rparr>\<rparr>
                 else tx)
      in case try_sign_message keypairs (msg_ser (tx_message tx1)) of
           Inl e \<Rightarrow> (tx1, Inl e)
         | Inr signatures \<Rightarrow>
             (case place_signatures positions signatures (tx_signatures tx1) of
                None \<Rightarrow> (tx1, Inl Panic)
              | Some sigs \<Rightarrow> (tx1\<lparr>tx_signatures := sigs\<rparr>, Inr ())))"

definition try_partial_sign ::
  "(message \<Rightarrow> bytes) \<Rightarrow> signer list \<Rightarrow> hash \<Rightarrow> transaction \<Rightarrow> transaction \<times> (signer_error, unit) outcome" where
  "try_partial_sign msg_ser keypairs blockhash tx =
     (case get_signing_keypair_positions tx (map sr_pubkey keypairs) of
        Inl (Err e) \<Rightarrow> (tx, Inl (Err (SignerTransactionError e)))
      | Inl Panic \<Rightarrow> (tx, Inl Panic)
      | Inr positions \<Rightarrow>
          (case those positions of
             None \<Rightarrow> (tx, Inl (Err KeypairPubkeyMismatch))
           | Some ps \<Rightarrow> try_partial_sign_unchecked msg_ser keypairs ps blockhash tx))"

definition try_sign ::
  "(message \<Rightarrow> bytes) \<Rightarrow> signer list \<Rightarrow> hash \<Rightarrow> transaction \<Rightarrow> transaction \<times> (signer_error, unit) outcome" where
  "try_sign msg_ser keypairs blockhash tx =
     (case try_partial_sign msg_ser keypairs blockhash tx of
        (tx1, Inl e) \<Rightarrow> (tx1, Inl e)
      | (tx1, Inr _) \<Rightarrow> (tx1, if is_signed tx1 then Inr () else Inl (Err NotEnoughSigners)))"

text \<open>\<open>partial_sign\<close>, \<open>sign\<close> and \<open>new\<close> panic where the fallible versions fail.\<close>

definition partial_sign :: "(message \<Rightarrow> bytes) \<Rightarrow> signer list \<times> hash \<Rightarrow> transaction \<Rightarrow> (signer_error, transaction) outcome" where
  "partial_sign msg_ser = (\<lambda>(keypairs, blockhash) tx.
     case try_partial_sign msg_ser keypairs blockhash tx of (tx1, Inr _) \<Rightarrow> Inr tx1 | _ \<Rightarrow> Inl Panic)"

definition tx_sign :: "(message \<Rightarrow> bytes) \<Rightarrow> signer list \<Rightarrow> hash \<Rightarrow> transaction \<Rightarrow> (signer_error, transaction) outcome" where
  "tx_sign msg_ser keypairs blockhash tx =
     (case try_sign msg_ser keypairs blockhash tx of (tx1, Inr _) \<Rightarrow> Inr tx1 | _ \<Rightarrow> Inl Panic)"

definition transaction_new :: "(message \<Rightarrow> bytes) \<Rightarrow> signer list \<Rightarrow> message \<Rightarrow> hash \<Rightarrow> (signer_error, transaction) outcome" where
  "transaction_new msg_ser keypairs m blockhash = tx_sign msg_ser keypairs blockhash (new_unsigned m)"

section \<open>Verifying\<close>

definition verify_with_results ::
  "(message \<Rightarrow> bytes) \<Rightarrow> (pubkey \<Rightarrow> bytes \<Rightarrow> signature \<Rightarrow> bool) \<Rightarrow> transaction \<Rightarrow> bool list" where
  "verify_with_results msg_ser verify_sig tx =
     map (\<lambda>(s, k). verify_sig k (msg_ser (tx_message tx)) s) (zip (tx_signatures tx) (account_keys (tx_message tx)))"

definition tx_verify ::
  "(message \<Rightarrow> bytes) \<Rightarrow> (pubkey \<Rightarrow> bytes \<Rightarrow> signature \<Rightarrow> bool) \<Rightarrow> transaction \<Rightarrow> (transaction_error, unit) outcome" where
  "tx_verify msg_ser verify_sig tx =
     ensure (list_all id (verify_with_results msg_ser verify_sig tx)) (Err SignatureFailure)"

definition replace_signatures ::
  "(message \<Rightarrow> bytes) \<Rightarrow> (pubkey \<Rightarrow> bytes \<Rightarrow> signature \<Rightarrow> bool) \<Rightarrow> (pubkey \<times> signature) list \<Rightarrow> transaction \<Rightarrow>
     transaction \<times> (transaction_error, unit) outcome" where
  "replace_signatures msg_ser verify_sig signers tx =
     (let n = unat (num_required_signatures (header (tx_message tx)))
      in if length signers \<noteq> n \<or> length (tx_signatures tx) \<noteq> n \<or> length (account_keys (tx_message tx)) < n
         then (tx, Inl (Err InvalidAccountIndex))
         else
           let tx1 = \<lparr>tx_signatures = map snd signers,
                      tx_message = (tx_message tx)\<lparr>account_keys :=
                        map fst signers @ drop n (account_keys (tx_message tx))\<rparr>\<rparr>
           in (tx1, tx_verify msg_ser verify_sig tx1))"

section \<open>Signing in turns\<close>

text \<open>
  The invariant of a transaction that is being signed: one signature per required signer, and every
  signature that has been filled in verifies under the key at its position.
\<close>

definition honest :: "(pubkey \<Rightarrow> bytes \<Rightarrow> signature \<Rightarrow> bool) \<Rightarrow> signer \<Rightarrow> bool" where
  "honest verify_sig k \<longleftrightarrow> (\<forall>msg s. sr_try_sign k msg = Inr s \<longrightarrow> verify_sig (sr_pubkey k) msg s)"

definition signing_ok ::
  "(message \<Rightarrow> bytes) \<Rightarrow> (pubkey \<Rightarrow> bytes \<Rightarrow> signature \<Rightarrow> bool) \<Rightarrow> transaction \<Rightarrow> bool" where
  "signing_ok msg_ser verify_sig tx \<longleftrightarrow>
     length (tx_signatures tx) = unat (num_required_signatures (header (tx_message tx))) \<and>
     length (tx_signatures tx) \<le> length (account_keys (tx_message tx)) \<and>
     (\<forall>i<length (tx_signatures tx). tx_signatures tx ! i = default_signature \<or>
        verify_sig (account_keys (tx_message tx) ! i) (msg_ser (tx_message tx)) (tx_signatures tx ! i))"

lemma place_signatures_nth:
  "place_signatures ps ss sigs = Some sigs' \<Longrightarrow> length sigs' = length sigs \<and>
     (\<forall>i<length sigs. sigs' ! i = sigs ! i \<or> (\<exists>j<length ps. j < length ss \<and> ps ! j = i \<and> sigs' ! i = ss ! j))"
proof (induction ps ss sigs rule: place_signatures.induct)
  case (3 p ps s ss sigs)
  then have p: "p < length sigs" and rest: "place_signatures ps ss (sigs[p := s]) = Some sigs'" by (auto split: if_splits)
  from "3.IH" [OF p rest] have IH: "length sigs' = length sigs"
    "\<And>i. i < length sigs \<Longrightarrow> sigs' ! i = sigs[p := s] ! i \<or> (\<exists>j<length ps. j < length ss \<and> ps ! j = i \<and> sigs' ! i = ss ! j)"
    by simp_all
  have "sigs' ! i = sigs ! i \<or> (\<exists>j<length (p # ps). j < length (s # ss) \<and> (p # ps) ! j = i \<and> sigs' ! i = (s # ss) ! j)"
    if i: "i < length sigs" for i
    using IH(2) [OF i]
  proof
    assume same: "sigs' ! i = sigs[p := s] ! i"
    show ?thesis
    proof (cases "i = p")
      case True
      with same i have "sigs' ! i = s" by simp
      with True show ?thesis by (intro disjI2 exI [of _ 0]) simp
    qed (use same in simp)
  next
    assume "\<exists>j<length ps. j < length ss \<and> ps ! j = i \<and> sigs' ! i = ss ! j"
    then obtain j where "j < length ps" "j < length ss" "ps ! j = i" "sigs' ! i = ss ! j" by blast
    then show ?thesis by (intro disjI2 exI [of _ "Suc j"]) simp
  qed
  with IH(1) show ?case by blast
qed simp_all

lemma try_sign_message_nth:
  "try_sign_message ks msg = Inr ss \<Longrightarrow> length ss = length ks \<and> (\<forall>j<length ks. sr_try_sign (ks ! j) msg = Inr (ss ! j))"
  by (induction ks arbitrary: ss) (auto simp: and_then_Inr_iff nth_Cons split: nat.splits)

lemma those_Some_iff: "those xs = Some ys \<longleftrightarrow> xs = map Some ys"
  by (induction xs arbitrary: ys) (auto split: option.splits simp: Cons_eq_map_conv)

lemma index_of_Some: "index_of xs x = Some i \<Longrightarrow> i < length xs \<and> xs ! i = x"
  by (induction xs arbitrary: i) (auto split: if_splits)

lemma signing_positions:
  assumes "get_signing_keypair_positions tx (map sr_pubkey ks) = Inr positions" and "those positions = Some ps"
  shows "length ps = length ks \<and> (\<forall>j<length ks. account_keys (tx_message tx) ! (ps ! j) = sr_pubkey (ks ! j))"
proof -
  from assms have eq: "map (index_of (take (unat (num_required_signatures (header (tx_message tx)))) (account_keys (tx_message tx))))
      (map sr_pubkey ks) = map Some ps"
    by (auto simp: get_signing_keypair_positions_def Let_def those_Some_iff split: if_splits)
  then have len: "length ps = length ks" by (metis length_map)
  have "account_keys (tx_message tx) ! (ps ! j) = sr_pubkey (ks ! j)" if "j < length ks" for j
    using arg_cong [OF eq, of "\<lambda>l. l ! j"] that len by (auto dest!: index_of_Some)
  with len show ?thesis by blast
qed

text \<open>Every signature of a round is made over the message with the round's blockhash.\<close>

lemma partial_sign_ok:
  assumes run: "partial_sign msg_ser (ks, h) tx = Inr tx'" and ok: "signing_ok msg_ser verify_sig tx"
    and honest: "\<forall>k\<in>set ks. honest verify_sig k"
  shows "signing_ok msg_ser verify_sig tx' \<and> tx_message tx' = (tx_message tx)\<lparr>recent_blockhash := h\<rparr>"
proof -
  define tx1 where "tx1 = (if h \<noteq> recent_blockhash (tx_message tx)
    then \<lparr>tx_signatures = map (\<lambda>_. default_signature) (tx_signatures tx),
          tx_message = (tx_message tx)\<lparr>recent_blockhash := h\<rparr>\<rparr> else tx)"
  from run obtain positions ps ss sigs where step:
    "get_signing_keypair_positions tx (map sr_pubkey ks) = Inr positions" "those positions = Some ps"
    "try_sign_message ks (msg_ser (tx_message tx1)) = Inr ss" "place_signatures ps ss (tx_signatures tx1) = Some sigs"
    "tx' = tx1\<lparr>tx_signatures := sigs\<rparr>"
    by (auto simp: partial_sign_def try_partial_sign_def try_partial_sign_unchecked_def Let_def tx1_def [symmetric]
      split: sum.splits failure.splits option.splits)
  have msg: "tx_message tx1 = (tx_message tx)\<lparr>recent_blockhash := h\<rparr>" by (simp add: tx1_def)
  have ok1: "signing_ok msg_ser verify_sig tx1" using ok by (auto simp: signing_ok_def tx1_def)
  note ps = signing_positions [OF step(1,2)] and ss = try_sign_message_nth [OF step(3)]
    and sigs = place_signatures_nth [OF step(4)]
  have "sigs ! i = default_signature \<or>
      verify_sig (account_keys (tx_message tx) ! i) (msg_ser (tx_message tx1)) (sigs ! i)" if i: "i < length sigs" for i
  proof (cases "sigs ! i = tx_signatures tx1 ! i")
    case True
    with ok1 sigs i show ?thesis by (auto simp: signing_ok_def msg)
  next
    case False
    with sigs i obtain j where "j < length ks" "ps ! j = i" "sigs ! i = ss ! j" using ps by auto
    with ps ss honest show ?thesis by (metis honest_def nth_mem)
  qed
  with ok1 sigs show ?thesis by (simp add: signing_ok_def step(5) msg)
qed

lemma new_unsigned_ok:
  "unat (num_required_signatures (header m)) \<le> length (account_keys m) \<Longrightarrow> signing_ok msg_ser verify_sig (new_unsigned m)"
  by (simp add: signing_ok_def new_unsigned_def)

lemma signed_verifies:
  assumes "signing_ok msg_ser verify_sig tx" and "is_signed tx"
  shows "tx_verify msg_ser verify_sig tx = Inr ()"
  using assms
  by (auto simp: tx_verify_def verify_with_results_def signing_ok_def is_signed_def list_all_length)

text \<open>
  (C22) Signing and verification fit together over any number of rounds. Parties sign a fresh
  transaction in turns, each round with its own signers and its own recent blockhash. Once no
  signature is missing, every signature verifies over the final message: no signature of a round
  with another blockhash survives. The keys, the header and the instructions are those of the message
  that was given.
\<close>

theorem signed_rounds_verify:
  assumes "fold_result (partial_sign msg_ser) rounds (new_unsigned m) = Inr tx"
    and "\<forall>round\<in>set rounds. \<forall>k\<in>set (fst round). honest verify_sig k"
    and "unat (num_required_signatures (header m)) \<le> length (account_keys m)" and "is_signed tx"
  shows "tx_verify msg_ser verify_sig tx = Inr () \<and>
    length (tx_signatures tx) = unat (num_required_signatures (header m)) \<and>
    tx_message tx = m\<lparr>recent_blockhash := recent_blockhash (tx_message tx)\<rparr>"
proof -
  let ?P = "\<lambda>t. signing_ok msg_ser verify_sig t \<and> (\<exists>x. tx_message t = m\<lparr>recent_blockhash := x\<rparr>)"
  have "?P tx"
  proof (rule fold_result_invariant [OF assms(1), where P = ?P])
    show "?P (new_unsigned m)" using new_unsigned_ok [OF assms(3)] by (auto simp: new_unsigned_def intro: exI [of _ "recent_blockhash m"])
    fix round t t'
    assume r: "round \<in> set rounds" "partial_sign msg_ser round t = Inr t'" "?P t"
    obtain ks h where round: "round = (ks, h)" by (cases round)
    have "signing_ok msg_ser verify_sig t' \<and> tx_message t' = (tx_message t)\<lparr>recent_blockhash := h\<rparr>"
      using r assms(2) unfolding round by (intro partial_sign_ok [of msg_ser ks h t t']) auto
    with r(3) show "?P t'" by auto
  qed
  then show ?thesis using signed_verifies assms(4) by (auto simp: signing_ok_def)
qed

text \<open>A scheme for evaluation: a signature repeats the last byte of the key.\<close>

definition demo_signer :: "pubkey \<Rightarrow> signer" where
  "demo_signer k = \<lparr>sr_pubkey = k, sr_try_sign = \<lambda>_. Inr (replicate 64 (ucast k))\<rparr>"

definition demo_verify :: "pubkey \<Rightarrow> bytes \<Rightarrow> signature \<Rightarrow> bool" where
  "demo_verify k _ s \<longleftrightarrow> s = replicate 64 (ucast k)"

definition demo_two_signers :: message where
  "demo_two_signers =
     \<lparr>header = \<lparr>num_required_signatures = 2, num_readonly_signed_accounts = 0, num_readonly_unsigned_accounts = 0\<rparr>,
      account_keys = [5, 6], recent_blockhash = 0, instructions = []\<rparr>"

lemma demo_signer_honest: "honest demo_verify (demo_signer k)"
  by (simp add: honest_def demo_signer_def demo_verify_def)

lemma demo_rounds:
  "fold_result (partial_sign (\<lambda>_. [])) [([demo_signer 6], 8), ([demo_signer 5], 8)] (new_unsigned demo_two_signers) =
     Inr \<lparr>tx_signatures = [replicate 64 5, replicate 64 6], tx_message = demo_two_signers\<lparr>recent_blockhash := 8\<rparr>\<rparr>"
  by code_simp

theorem signed_rounds_verify_witness:
  "tx_verify (\<lambda>_. []) demo_verify
     \<lparr>tx_signatures = [replicate 64 5, replicate 64 6], tx_message = demo_two_signers\<lparr>recent_blockhash := 8\<rparr>\<rparr> = Inr ()"
  using signed_rounds_verify [OF demo_rounds, of demo_verify] demo_signer_honest
  by (auto simp: demo_two_signers_def is_signed_def default_signature_def)

end
