(* ===== verification/AccountLocks.thy ===== *)
theory AccountLocks
  imports Transaction HashMap
begin

text \<open>
  Account locks (\<open>runtime/src/accounts.rs\<close>, \<open>runtime/src/transaction_utils.rs\<close>): before a batch runs,
  the bank locks the accounts of every transaction, writable ones exclusively and read-only ones with
  a count, and it unlocks them when the batch is dropped. \<open>None\<close> is a panic. A batch is locked and
  unlocked under one mutex, so these are the atomic steps of the interleaving of several batches.
\<close>

section \<open>Definitions\<close>

type_synonym tx_result = "transaction_error + unit"

record account_locks =
  al_locks :: "pubkey set"
  al_readonly :: "(pubkey, u64) hmap option"

definition account_locks_new :: account_locks where
  "account_locks_new = \<lparr>al_locks = {}, al_readonly = Some []\<rparr>"

definition ordered_iterator :: "nat list option \<Rightarrow> 'a list \<Rightarrow> 'a list option" where
  "ordered_iterator element_order xs =
     (case element_order of
        None \<Rightarrow> Some xs
      | Some custom_order \<Rightarrow>
          if length custom_order = length xs then those (map (nth_opt xs) custom_order) else None)"

fun has_duplicates :: "'a list \<Rightarrow> bool" where
  "has_duplicates [] = False"
| "has_duplicates (x # xs) = (x \<in> set xs \<or> has_duplicates xs)"

definition is_locked_readonly :: "account_locks \<Rightarrow> pubkey \<Rightarrow> bool" where
  "is_locked_readonly L k =
     (case al_readonly L of
        None \<Rightarrow> False
      | Some locks \<Rightarrow> (case hm_get locks k of None \<Rightarrow> False | Some lock_count \<Rightarrow> 0 < lock_count))"

definition unlock_readonly :: "pubkey \<Rightarrow> account_locks \<Rightarrow> account_locks" where
  "unlock_readonly k L =
     (case al_readonly L of
        None \<Rightarrow> L
      | Some locks \<Rightarrow>
          (case hm_get locks k of
             None \<Rightarrow> L
           | Some lock_count \<Rightarrow> L\<lparr>al_readonly := Some (hm_insert k (lock_count - 1) locks)\<rparr>))"

definition lock_readonly :: "pubkey \<Rightarrow> account_locks \<Rightarrow> bool \<times> account_locks" where
  "lock_readonly k L =
     (case al_readonly L of
        None \<Rightarrow> (False, L)
      | Some locks \<Rightarrow>
          (case hm_get locks k of
             None \<Rightarrow> (False, L)
           | Some lock_count \<Rightarrow> (True, L\<lparr>al_readonly := Some (hm_insert k (lock_count + 1) locks)\<rparr>)))"

definition insert_readonly :: "pubkey \<Rightarrow> u64 \<Rightarrow> account_locks \<Rightarrow> account_locks option" where
  "insert_readonly k lock_count L =
     (case al_readonly L of
        None \<Rightarrow> Some L
      | Some locks \<Rightarrow>
          if hm_get locks k = None then Some (L\<lparr>al_readonly := Some (hm_insert k lock_count locks)\<rparr>) else None)"

text \<open>The read-only keys that have no counter yet, after the other counters were increased.\<close>

fun readonly_writes :: "pubkey list \<Rightarrow> account_locks \<Rightarrow> pubkey list \<times> account_locks" where
  "readonly_writes [] L = ([], L)"
| "readonly_writes (k # ks) L =
     (let (locked, L1) = lock_readonly k L; (rest, L2) = readonly_writes ks L1
      in (if locked then rest else k # rest, L2))"

fun insert_each :: "pubkey list \<Rightarrow> account_locks \<Rightarrow> account_locks option" where
  "insert_each [] L = Some L"
| "insert_each (k # ks) L = Option.bind (insert_readonly k 1 L) (insert_each ks)"

definition lock_account ::
  "pubkey list \<times> pubkey list \<Rightarrow> account_locks \<Rightarrow> (tx_result \<times> account_locks) option" where
  "lock_account = (\<lambda>(writable_keys, readonly_keys) L.
     if list_ex (\<lambda>k. k \<in> al_locks L \<or> is_locked_readonly L k) writable_keys then Some (Inl AccountInUse, L)
     else if list_ex (\<lambda>k. k \<in> al_locks L) readonly_keys then Some (Inl AccountInUse, L)
     else
       let L1 = L\<lparr>al_locks := al_locks L \<union> set writable_keys\<rparr>;
           (writes, L2) = readonly_writes readonly_keys L1
       in map_option (\<lambda>L3. (Inr (), L3)) (insert_each writes L2))"

definition unlock_account :: "transaction \<Rightarrow> tx_result \<Rightarrow> account_locks \<Rightarrow> account_locks" where
  "unlock_account tx result L =
     (if result \<in> {Inl AccountInUse, Inl SanitizeFailure, Inl AccountLoadedTwice} then L
      else
        let (writable_keys, readonly_keys) = get_account_keys_by_lock_type (tx_message tx)
        in fold unlock_readonly readonly_keys (L\<lparr>al_locks := al_locks L - set writable_keys\<rparr>))"

definition lock_keys :: "transaction \<Rightarrow> transaction_error + (pubkey list \<times> pubkey list)" where
  "lock_keys tx =
     (case tx_sanitize tx of
        Inl _ \<Rightarrow> Inl SanitizeFailure
      | Inr _ \<Rightarrow>
          if has_duplicates (account_keys (tx_message tx)) then Inl AccountLoadedTwice
          else Inr (get_account_keys_by_lock_type (tx_message tx)))"

text \<open>The transactions of a batch, in its iteration order.\<close>

fun lock_each :: "transaction list \<Rightarrow> account_locks \<Rightarrow> (tx_result list \<times> account_locks) option" where
  "lock_each [] L = Some ([], L)"
| "lock_each (tx # txs) L =
     Option.bind
       (case lock_keys tx of Inl e \<Rightarrow> Some (Inl e, L) | Inr ks \<Rightarrow> lock_account ks L) (\<lambda>(r, L1).
     map_option (\<lambda>(rs, L2). (r # rs, L2)) (lock_each txs L1))"

definition lock_accounts ::
  "transaction list \<Rightarrow> nat list option \<Rightarrow> account_locks \<Rightarrow> (tx_result list \<times> account_locks) option" where
  "lock_accounts txs order L = Option.bind (ordered_iterator order txs) (\<lambda>xs. lock_each xs L)"

definition unlock_accounts ::
  "transaction list \<Rightarrow> nat list option \<Rightarrow> tx_result list \<Rightarrow> account_locks \<Rightarrow> account_locks option" where
  "unlock_accounts txs order results L =
     map_option (\<lambda>xs. fold (\<lambda>(tx, r). unlock_account tx r) (zip xs results) L) (ordered_iterator order txs)"

section \<open>Which transactions exclude each other\<close>

definition writable_keys :: "message \<Rightarrow> pubkey set" where
  "writable_keys m = set (fst (get_account_keys_by_lock_type m))"

definition readonly_keys :: "message \<Rightarrow> pubkey set" where
  "readonly_keys m = set (snd (get_account_keys_by_lock_type m))"

definition compatible :: "message \<Rightarrow> message \<Rightarrow> bool" where
  "compatible m m' \<longleftrightarrow> writable_keys m \<inter> set (account_keys m') = {} \<and> writable_keys m' \<inter> set (account_keys m) = {}"

lemma has_duplicates_iff [simp]: "has_duplicates xs \<longleftrightarrow> \<not> distinct xs"
  by (induction xs) auto

lemma lock_keys_cover: "writable_keys m \<union> readonly_keys m = set (account_keys m)"
proof -
  have "set (account_keys m) = snd ` set (enumerate 0 (account_keys m))" by (metis list.set_map map_snd_enumerate)
  then show ?thesis by (auto simp: writable_keys_def readonly_keys_def get_account_keys_by_lock_type_def Let_def)
qed

lemma lock_keys_distinct:
  assumes "distinct (account_keys m)"
  shows "distinct (snd (get_account_keys_by_lock_type m))" and "writable_keys m \<inter> readonly_keys m = {}"
proof -
  have inj: "inj_on snd (set (enumerate 0 (account_keys m)))"
    using assms by (metis distinct_map map_snd_enumerate)
  then show "distinct (snd (get_account_keys_by_lock_type m))"
    by (auto simp: get_account_keys_by_lock_type_def Let_def distinct_map distinct_enumerate intro: inj_on_subset)
  from inj show "writable_keys m \<inter> readonly_keys m = {}"
    by (fastforce simp: writable_keys_def readonly_keys_def get_account_keys_by_lock_type_def Let_def inj_on_def)
qed

section \<open>The lock table against the transactions that hold locks\<close>

text \<open>How many of the messages read a key.\<close>

definition readers :: "pubkey \<Rightarrow> message list \<Rightarrow> nat" where
  "readers k held = length (filter (\<lambda>m. k \<in> readonly_keys m) held)"

definition lock_count :: "account_locks \<Rightarrow> pubkey \<Rightarrow> nat" where
  "lock_count L k =
     (case al_readonly L of None \<Rightarrow> 0 | Some locks \<Rightarrow> (case hm_get locks k of None \<Rightarrow> 0 | Some c \<Rightarrow> unat c))"

definition table_ok :: "account_locks \<Rightarrow> bool" where
  "table_ok L \<longleftrightarrow> (\<exists>locks. al_readonly L = Some locks \<and> hm_ok locks)"

definition locks_held :: "message list \<Rightarrow> account_locks \<Rightarrow> bool" where
  "locks_held held L \<longleftrightarrow> table_ok L \<and>
     al_locks L = (\<Union>m\<in>set held. writable_keys m) \<and> (\<forall>k. lock_count L k = readers k held) \<and>
     sorted_wrt compatible held \<and> (\<forall>m\<in>set held. distinct (account_keys m)) \<and> length held < 2 ^ 64"

lemma compatible_sym: "compatible m m' \<longleftrightarrow> compatible m' m"
  by (auto simp: compatible_def)

lemma readers_le: "readers k held \<le> length held"
  by (simp add: readers_def)

lemma readers_pos_iff: "0 < readers k held \<longleftrightarrow> (\<exists>m\<in>set held. k \<in> readonly_keys m)"
  by (auto simp: readers_def filter_empty_conv)

lemma is_locked_readonly_iff: "is_locked_readonly L k \<longleftrightarrow> 0 < lock_count L k"
  by (auto simp: is_locked_readonly_def lock_count_def unat_gt_0 word_neq_0_conv split: option.splits)

text \<open>Increasing the counters of a list of different keys, in the two passes of the code.\<close>

lemma lock_readonly_count:
  assumes "table_ok L" and "lock_count L k < 2 ^ 64 - 1" and "lock_readonly k L = (locked, L')"
  shows "table_ok L' \<and> al_locks L' = al_locks L \<and>
    (locked \<longleftrightarrow> hm_get (the (al_readonly L)) k \<noteq> None) \<and>
    (\<forall>j. hm_get (the (al_readonly L')) j = None \<longleftrightarrow> hm_get (the (al_readonly L)) j = None) \<and>
    (\<forall>j. lock_count L' j = lock_count L j + (if locked \<and> j = k then 1 else 0))"
proof -
  from assms(1) obtain ro where ro: "al_readonly L = Some ro" "hm_ok ro" by (auto simp: table_ok_def)
  show ?thesis
  proof (cases "hm_get ro k")
    case None
    with assms ro show ?thesis by (auto simp: lock_readonly_def)
  next
    case (Some c)
    with assms(2) ro have "unat c \<noteq> 2 ^ 64 - 1" by (simp add: lock_count_def)
    then have "c \<noteq> - 1" by (auto simp: unsigned_minus_1_eq_mask mask_eq_exp_minus_1)
    then have "unat (c + 1) = unat c + 1" by (rule unat_succ)
    with assms(3) ro Some show ?thesis
      by (auto simp: lock_readonly_def table_ok_def lock_count_def hm.ok_ins hm.get_ins split: if_splits)
  qed
qed

lemma readonly_writes_count:
  assumes "table_ok L" and "distinct ks" and "\<forall>k\<in>set ks. lock_count L k < 2 ^ 64 - 1"
    and "readonly_writes ks L = (writes, L')"
  shows "table_ok L' \<and> al_locks L' = al_locks L \<and> distinct writes \<and>
    set writes = {k \<in> set ks. hm_get (the (al_readonly L)) k = None} \<and>
    (\<forall>j. hm_get (the (al_readonly L')) j = None \<longleftrightarrow> hm_get (the (al_readonly L)) j = None) \<and>
    (\<forall>j. lock_count L' j = lock_count L j + (if j \<in> set ks - set writes then 1 else 0))"
  using assms
proof (induction ks arbitrary: L writes)
  case (Cons k ks)
  obtain locked L1 where one: "lock_readonly k L = (locked, L1)" by fastforce
  obtain rest where two: "readonly_writes ks L1 = (rest, L')" and w: "writes = (if locked then rest else k # rest)"
    using Cons.prems(4) one by (auto split: prod.splits)
  have step: "table_ok L1" "al_locks L1 = al_locks L" "locked \<longleftrightarrow> hm_get (the (al_readonly L)) k \<noteq> None"
    "\<And>j. hm_get (the (al_readonly L1)) j = None \<longleftrightarrow> hm_get (the (al_readonly L)) j = None"
    "\<And>j. lock_count L1 j = lock_count L j + (if locked \<and> j = k then 1 else 0)"
    using lock_readonly_count [OF Cons.prems(1) _ one] Cons.prems(3) by auto
  have "\<forall>j\<in>set ks. lock_count L1 j < 2 ^ 64 - 1" using Cons.prems(2,3) step(5) by auto
  from Cons.IH [OF step(1) _ this two] Cons.prems(2) have IH: "table_ok L'" "al_locks L' = al_locks L1" "distinct rest"
    "set rest = {j \<in> set ks. hm_get (the (al_readonly L1)) j = None}"
    "\<And>j. hm_get (the (al_readonly L')) j = None \<longleftrightarrow> hm_get (the (al_readonly L1)) j = None"
    "\<And>j. lock_count L' j = lock_count L1 j + (if j \<in> set ks - set rest then 1 else 0)" by auto
  have "k \<notin> set ks" using Cons.prems(2) by simp
  with IH step show ?case by (auto simp: w)
qed auto

lemma insert_each_count:
  assumes "table_ok L" and "distinct ks" and "\<forall>k\<in>set ks. hm_get (the (al_readonly L)) k = None"
  shows "\<exists>L'. insert_each ks L = Some L' \<and> table_ok L' \<and> al_locks L' = al_locks L \<and>
    (\<forall>j. lock_count L' j = (if j \<in> set ks then 1 else lock_count L j))"
  using assms
proof (induction ks arbitrary: L)
  case (Cons k ks)
  from Cons.prems obtain ro where ro: "al_readonly L = Some ro" "hm_ok ro" "hm_get ro k = None" by (auto simp: table_ok_def)
  let ?L = "L\<lparr>al_readonly := Some (hm_insert k 1 ro)\<rparr>"
  have "insert_readonly k 1 L = Some ?L" using ro by (simp add: insert_readonly_def)
  moreover have "\<exists>L'. insert_each ks ?L = Some L' \<and> table_ok L' \<and> al_locks L' = al_locks ?L \<and>
    (\<forall>j. lock_count L' j = (if j \<in> set ks then 1 else lock_count ?L j))"
    using Cons.prems ro by (intro Cons.IH) (auto simp: table_ok_def hm.ok_ins hm.get_ins)
  ultimately show ?case using Cons.prems(2) ro by (fastforce simp: lock_count_def hm.get_ins)
qed auto

text \<open>A transaction gets its locks exactly if it is compatible with all that hold locks; otherwise nothing changes.\<close>

lemma lock_account_iff:
  assumes held: "locks_held held L" and m: "distinct (account_keys m)" "length held + 1 < 2 ^ 64"
  shows "if \<forall>m'\<in>set held. compatible m m'
    then \<exists>L'. lock_account (get_account_keys_by_lock_type m) L = Some (Inr (), L') \<and> locks_held (m # held) L'
    else lock_account (get_account_keys_by_lock_type m) L = Some (Inl AccountInUse, L)"
proof -
  obtain w r where wr: "get_account_keys_by_lock_type m = (w, r)" by fastforce
  have w: "set w = writable_keys m" and r: "set r = readonly_keys m" "distinct r"
    using lock_keys_distinct(1) [OF m(1)] by (simp_all add: wr writable_keys_def readonly_keys_def)
  from held have ok: "table_ok L" and al: "al_locks L = (\<Union>m\<in>set held. writable_keys m)"
    and count: "\<And>k. lock_count L k = readers k held" by (auto simp: locks_held_def)
  have free: "(\<forall>m'\<in>set held. compatible m m') \<longleftrightarrow>
      \<not> list_ex (\<lambda>k. k \<in> al_locks L \<or> is_locked_readonly L k) w \<and> \<not> list_ex (\<lambda>k. k \<in> al_locks L) r"
    unfolding compatible_def list_ex_iff w r al is_locked_readonly_iff count readers_pos_iff lock_keys_cover [symmetric]
    by blast
  show ?thesis
  proof (cases "\<forall>m'\<in>set held. compatible m m'")
    case False
    with free show ?thesis by (auto simp: lock_account_def wr)
  next
    case True
    let ?L1 = "L\<lparr>al_locks := al_locks L \<union> set w\<rparr>"
    have L1: "table_ok ?L1" "\<And>k. lock_count ?L1 k = readers k held" using ok count by (simp_all add: table_ok_def lock_count_def)
    have small: "\<forall>k\<in>set r. lock_count ?L1 k < 2 ^ 64 - 1" using m(2) le_less_trans [OF readers_le] by (auto simp: L1(2))
    obtain writes L2 where L2: "readonly_writes r ?L1 = (writes, L2)" by fastforce
    note rw = readonly_writes_count [OF L1(1) r(2) small L2]
    from rw obtain L3 where L3: "insert_each writes L2 = Some L3" "table_ok L3" "al_locks L3 = al_locks L2"
      "\<And>j. lock_count L3 j = (if j \<in> set writes then 1 else lock_count L2 j)"
      using insert_each_count [of L2 writes] by auto
    have zero: "lock_count ?L1 j = 0" if "j \<in> set writes" for j
      using that rw ok by (auto simp: lock_count_def table_ok_def)
    have "lock_count L3 k = readers k (m # held)" for k
      using rw zero [of k] L1(2) [of k] by (auto simp: L3(4) readers_def r(1) [symmetric])
    moreover have "al_locks L3 = (\<Union>m\<in>set (m # held). writable_keys m)" using rw L3(3) by (simp add: al w Un_commute)
    ultimately have "locks_held (m # held) L3" using held True m L3(2) by (simp add: locks_held_def)
    moreover have "lock_account (get_account_keys_by_lock_type m) L = Some (Inr (), L3)"
      using True free L2 L3(1) by (simp add: lock_account_def wr)
    ultimately show ?thesis using True by simp
  qed
qed

text \<open>Giving the locks of one holder back.\<close>

lemma unlock_readonly_count:
  assumes "table_ok L" and "0 < lock_count L k"
  shows "table_ok (unlock_readonly k L) \<and> al_locks (unlock_readonly k L) = al_locks L \<and>
    (\<forall>j. lock_count (unlock_readonly k L) j = lock_count L j - (if j = k then 1 else 0))"
proof -
  from assms obtain ro c where ro: "al_readonly L = Some ro" "hm_ok ro" "hm_get ro k = Some c" "0 < unat c"
    by (auto simp: table_ok_def lock_count_def split: option.splits)
  then have "unat (c - 1) = unat c - 1" by (subst unat_sub_exact) (auto simp: word_le_nat_alt)
  with ro show ?thesis by (auto simp: unlock_readonly_def table_ok_def lock_count_def hm.ok_ins hm.get_ins)
qed

lemma unlock_readonly_counts:
  assumes "table_ok L" and "distinct ks" and "\<forall>k\<in>set ks. 0 < lock_count L k"
  shows "table_ok (fold unlock_readonly ks L) \<and> al_locks (fold unlock_readonly ks L) = al_locks L \<and>
    (\<forall>j. lock_count (fold unlock_readonly ks L) j = lock_count L j - (if j \<in> set ks then 1 else 0))"
  using assms
proof (induction ks arbitrary: L)
  case (Cons k ks)
  from Cons.prems have one: "table_ok (unlock_readonly k L)" "al_locks (unlock_readonly k L) = al_locks L"
    "\<And>j. lock_count (unlock_readonly k L) j = lock_count L j - (if j = k then 1 else 0)"
    using unlock_readonly_count [of L k] by auto
  from Cons.prems have "\<forall>j\<in>set ks. 0 < lock_count (unlock_readonly k L) j" unfolding one(3) by auto
  with Cons.IH [OF one(1)] Cons.prems(2) one show ?case by auto
qed simp

lemma unlock_account_held:
  assumes held: "locks_held (before @ tx_message tx # after) L"
  shows "locks_held (before @ after) (unlock_account tx (Inr ()) L)"
proof -
  let ?m = "tx_message tx" and ?rest = "before @ after"
  obtain w r where wr: "get_account_keys_by_lock_type ?m = (w, r)" by fastforce
  from held have ok: "table_ok L" and al: "al_locks L = (\<Union>m\<in>set ?rest. writable_keys m) \<union> writable_keys ?m"
    and count: "\<And>k. lock_count L k = readers k ?rest + (if k \<in> readonly_keys ?m then 1 else 0)"
    and d: "distinct (account_keys ?m)" and others: "\<forall>m'\<in>set ?rest. compatible m' ?m"
    by (auto simp: locks_held_def readers_def sorted_wrt_append compatible_sym)
  have w: "set w = writable_keys ?m" and r: "set r = readonly_keys ?m" "distinct r"
    using lock_keys_distinct(1) [OF d] by (simp_all add: wr writable_keys_def readonly_keys_def)
  let ?L = "L\<lparr>al_locks := al_locks L - set w\<rparr>"
  have L: "table_ok ?L" "\<And>k. lock_count ?L k = lock_count L k" using ok by (simp_all add: table_ok_def lock_count_def)
  have "\<forall>k\<in>set r. 0 < lock_count ?L k" by (simp add: L(2) count r)
  note un = unlock_readonly_counts [OF L(1) r(2) this]
  have "writable_keys m' \<inter> writable_keys ?m = {}" if "m' \<in> set ?rest" for m'
    using others that lock_keys_cover [of ?m] unfolding compatible_def by blast
  then have "al_locks ?L = (\<Union>m\<in>set ?rest. writable_keys m)" unfolding al w by fastforce
  moreover have "lock_count (fold unlock_readonly r ?L) k = readers k ?rest" for k using un by (simp add: L(2) count r)
  moreover have "unlock_account tx (Inr ()) L = fold unlock_readonly r ?L" by (simp add: unlock_account_def wr)
  ultimately show ?thesis using held un by (auto simp: locks_held_def sorted_wrt_append)
qed

section \<open>Batches\<close>

text \<open>The messages of a batch that got their locks, the last one first.\<close>

fun granted :: "transaction list \<Rightarrow> tx_result list \<Rightarrow> message list" where
  "granted (tx # txs) (r # rs) = granted txs rs @ (if r = Inr () then [tx_message tx] else [])"
| "granted _ _ = []"

definition lock_result :: "tx_result \<Rightarrow> bool" where
  "lock_result r \<longleftrightarrow> r \<in> {Inr (), Inl AccountInUse, Inl SanitizeFailure, Inl AccountLoadedTwice}"

lemma lock_keys_cases:
  obtains e where "lock_keys tx = Inl e" "e \<in> {SanitizeFailure, AccountLoadedTwice}"
  | "lock_keys tx = Inr (get_account_keys_by_lock_type (tx_message tx))" "distinct (account_keys (tx_message tx))"
      "tx_sanitize tx = Inr ()"
  by (cases "tx_sanitize tx"; cases "distinct (account_keys (tx_message tx))") (auto simp: lock_keys_def)

lemma lock_each_held:
  assumes "locks_held held L" and "length held + length txs < 2 ^ 64"
  shows "\<exists>rs L'. lock_each txs L = Some (rs, L') \<and> locks_held (granted txs rs @ held) L' \<and>
    length rs = length txs \<and> list_all lock_result rs \<and>
    (\<forall>i<length txs. rs ! i = Inr () \<longrightarrow> tx_sanitize (txs ! i) = Inr () \<and> distinct (account_keys (tx_message (txs ! i))))"
  using assms
proof (induction txs arbitrary: held L)
  case (Cons tx txs)
  let ?one = "case lock_keys tx of Inl e \<Rightarrow> Some (Inl e, L) | Inr ks \<Rightarrow> lock_account ks L"
  have "\<exists>r L1. ?one = Some (r, L1) \<and> locks_held ((if r = Inr () then [tx_message tx] else []) @ held) L1 \<and> lock_result r \<and>
      (r = Inr () \<longrightarrow> tx_sanitize tx = Inr () \<and> distinct (account_keys (tx_message tx)))"
  proof (cases rule: lock_keys_cases [of tx])
    case (1 e)
    with Cons.prems(1) show ?thesis by (auto simp: lock_result_def)
  next
    case 2
    then show ?thesis
      using lock_account_iff [OF Cons.prems(1) 2(2)] Cons.prems
      by (cases "\<forall>m'\<in>set held. compatible (tx_message tx) m'") (auto simp: lock_result_def)
  qed
  then obtain r L1 where one: "?one = Some (r, L1)" "locks_held ((if r = Inr () then [tx_message tx] else []) @ held) L1"
    "lock_result r" "r = Inr () \<longrightarrow> tx_sanitize tx = Inr () \<and> distinct (account_keys (tx_message tx))" by blast
  have "length ((if r = Inr () then [tx_message tx] else []) @ held) + length txs < 2 ^ 64"
    using Cons.prems(2) by simp
  from Cons.IH [OF one(2) this] obtain rs L2 where "lock_each txs L1 = Some (rs, L2)"
    "locks_held (granted txs rs @ (if r = Inr () then [tx_message tx] else []) @ held) L2"
    "length rs = length txs" "list_all lock_result rs"
    "\<forall>i<length txs. rs ! i = Inr () \<longrightarrow> tx_sanitize (txs ! i) = Inr () \<and> distinct (account_keys (tx_message (txs ! i)))"
    by auto
  with one show ?case by (auto simp: nth_Cons split: nat.splits)
qed simp

lemma unlock_each_held:
  assumes "locks_held (before @ granted txs rs @ after) L" and "list_all lock_result rs" and "length rs = length txs"
  shows "locks_held (before @ after) (fold (\<lambda>(tx, r). unlock_account tx r) (zip txs rs) L)"
  using assms
proof (induction txs rs arbitrary: L rule: granted.induct)
  case (1 tx txs r rs)
  have "locks_held (before @ granted txs rs @ after) (unlock_account tx r L)"
  proof (cases "r = Inr ()")
    case True
    with "1.prems"(1) unlock_account_held [of "before @ granted txs rs" tx after L] show ?thesis by simp
  next
    case False
    with "1.prems" have "unlock_account tx r L = L" by (auto simp: unlock_account_def lock_result_def)
    with False "1.prems"(1) show ?thesis by simp
  qed
  with "1.IH" "1.prems" show ?case by simp
qed auto

text \<open>
  The interleavings of batches: the outstanding batches with their lock results, and the lock table.
  A batch may be dropped at any time, in any order. A count does not wrap as long as fewer than
  \<open>2 ^ 64\<close> transactions are outstanding.
\<close>

inductive lock_history :: "(transaction list \<times> tx_result list) list \<Rightarrow> account_locks \<Rightarrow> bool" where
  start: "lock_history [] account_locks_new"
| lock: "lock_history bs L \<Longrightarrow> ordered_iterator order txs = Some xs \<Longrightarrow>
    length (concat (map fst bs)) + length xs < 2 ^ 64 \<Longrightarrow>
    lock_accounts txs order L = Some (rs, L') \<Longrightarrow> lock_history ((xs, rs) # bs) L'"
| unlock: "lock_history (bs @ (xs, rs) # bs') L \<Longrightarrow> ordered_iterator order txs = Some xs \<Longrightarrow>
    unlock_accounts txs order rs L = Some L' \<Longrightarrow> lock_history (bs @ bs') L'"

definition holders :: "(transaction list \<times> tx_result list) list \<Rightarrow> message list" where
  "holders bs = concat (map (\<lambda>(txs, rs). granted txs rs) bs)"

lemma length_granted: "length (granted txs rs) \<le> length txs"
  by (induction txs rs rule: granted.induct) auto

lemma length_holders: "length (holders bs) \<le> length (concat (map fst bs))"
  by (induction bs) (auto simp: holders_def simp del: length_concat intro!: add_mono [OF length_granted])

lemma locks_held_new: "locks_held [] account_locks_new"
  by (simp add: locks_held_def account_locks_new_def table_ok_def lock_count_def readers_def hm.get_empty)

lemma lock_history_held:
  "lock_history bs L \<Longrightarrow> locks_held (holders bs) L \<and>
     (\<forall>(txs, rs)\<in>set bs. length rs = length txs \<and> list_all lock_result rs)"
proof (induction rule: lock_history.induct)
  case start
  then show ?case by (simp add: holders_def locks_held_new)
next
  case (lock bs L order txs xs rs L')
  have "length (holders bs) + length xs < 2 ^ 64" using lock.hyps(3) length_holders [of bs] by linarith
  with lock_each_held [of "holders bs" L xs] lock show ?case by (auto simp: lock_accounts_def holders_def)
next
  case (unlock bs xs rs bs' L order txs L')
  have "locks_held (holders bs @ granted xs rs @ holders bs') L" using unlock.IH by (simp add: holders_def)
  then have "locks_held (holders bs @ holders bs') L'"
    using unlock unlock_each_held [of "holders bs" xs rs "holders bs'" L] by (auto simp: unlock_accounts_def)
  with unlock.IH show ?case by (auto simp: holders_def)
qed

text \<open>
  (C6) Mutual exclusion. Whatever batches are locked and dropped, in whatever order: two different
  outstanding transactions that hold locks never conflict, i.e. no account one of them may write is an
  account of the other; the next batch can always be locked without a panic, and a transaction with
  valid and distinct keys is refused only for a conflict; and once no transaction is outstanding,
  nothing is locked.
\<close>

theorem account_locks_exclusive:
  assumes "lock_history bs L"
  shows "(\<forall>i<length (holders bs). \<forall>j<i. compatible (holders bs ! j) (holders bs ! i)) \<and>
    (length (concat (map fst bs)) + length txs < 2 ^ 64 \<longrightarrow> lock_accounts txs None L \<noteq> None) \<and>
    (length (concat (map fst bs)) + 1 < 2 ^ 64 \<longrightarrow> distinct (account_keys (tx_message tx)) \<longrightarrow> tx_sanitize tx = Inr () \<longrightarrow>
       (\<exists>L'. lock_accounts [tx] None L = Some ([Inr ()], L')) = (\<forall>m\<in>set (holders bs). compatible (tx_message tx) m)) \<and>
    (bs = [] \<longrightarrow> al_locks L = {} \<and> (\<forall>k. \<not> is_locked_readonly L k))"
proof -
  from lock_history_held [OF assms] have held: "locks_held (holders bs) L" by blast
  have len: "length (holders bs) + n < 2 ^ 64" if "length (concat (map fst bs)) + n < 2 ^ 64" for n
    using that length_holders [of bs] by linarith
  have "sorted_wrt compatible (holders bs)" using held by (simp add: locks_held_def)
  then have "\<forall>i<length (holders bs). \<forall>j<i. compatible (holders bs ! j) (holders bs ! i)" by (simp add: sorted_wrt_iff_nth_less)
  moreover have "lock_accounts txs None L \<noteq> None" if "length (concat (map fst bs)) + length txs < 2 ^ 64"
    using lock_each_held [OF held len [OF that]] by (auto simp: lock_accounts_def ordered_iterator_def)
  moreover have "(\<exists>L'. lock_accounts [tx] None L = Some ([Inr ()], L')) = (\<forall>m\<in>set (holders bs). compatible (tx_message tx) m)"
    if "length (concat (map fst bs)) + 1 < 2 ^ 64" "distinct (account_keys (tx_message tx))" "tx_sanitize tx = Inr ()"
    using lock_account_iff [OF held that(2) len [OF that(1)]] that(2,3)
    by (auto simp: lock_accounts_def ordered_iterator_def lock_keys_def split: if_splits)
  moreover have "al_locks L = {} \<and> (\<forall>k. \<not> is_locked_readonly L k)" if "bs = []"
    using held that by (simp add: locks_held_def holders_def is_locked_readonly_iff readers_def)
  ultimately show ?thesis by blast
qed

text \<open>Two transactions with a common fee payer, and a third one.\<close>

definition demo_tx :: "pubkey list \<Rightarrow> transaction" where
  "demo_tx ks =
     \<lparr>tx_signatures = [replicate 64 1],
      tx_message = \<lparr>header = \<lparr>num_required_signatures = 1, num_readonly_signed_accounts = 0, num_readonly_unsigned_accounts = 1\<rparr>,
        account_keys = ks, recent_blockhash = 0, instructions = []\<rparr>\<rparr>"

definition demo_batch :: "transaction list" where
  "demo_batch = [demo_tx [5, 8], demo_tx [5, 9], demo_tx [6, 8]]"

definition demo_table :: account_locks where
  "demo_table = \<lparr>al_locks = {5, 6}, al_readonly = Some [(8, 2)]\<rparr>"

lemma demo_batch_locked: "lock_accounts demo_batch None account_locks_new = Some ([Inr (), Inl AccountInUse, Inr ()], demo_table)"
  by code_simp

lemma demo_lock_history: "lock_history [(demo_batch, [Inr (), Inl AccountInUse, Inr ()])] demo_table"
  by (rule lock_history.lock [OF lock_history.start _ _ demo_batch_locked])
    (simp_all add: ordered_iterator_def demo_batch_def)

theorem account_locks_exclusive_witness:
  "(\<exists>L'. lock_accounts [demo_tx [7, 5]] None demo_table = Some ([Inr ()], L')) =
   (\<forall>m\<in>set (holders [(demo_batch, [Inr (), Inl AccountInUse, Inr ()])]). compatible (tx_message (demo_tx [7, 5])) m)"
proof -
  have "tx_sanitize (demo_tx [7, 5]) = Inr ()" by code_simp
  then show ?thesis
    using account_locks_exclusive [OF demo_lock_history, of "[]" "demo_tx [7, 5]"]
    by (simp add: demo_batch_def) (simp add: demo_tx_def)
qed

end
