(* ===== verification/BlockhashQueue.thy ===== *)
theory BlockhashQueue
  imports HashMap Fees
begin

text \<open>
  The queue of recent blockhashes (\<open>runtime/src/blockhash_queue.rs\<close>): the hashes the bank accepts in
  transactions, with the fee calculator each of them fixes. The wall clock is an argument.
\<close>

section \<open>Definitions\<close>

record hash_age =
  ha_fee_calculator :: fee_calculator
  ha_hash_height :: u64
  ha_timestamp :: u64

record blockhash_queue =
  bq_hash_height :: u64
  bq_last_hash :: "hash option"
  bq_ages :: "(hash, hash_age) hmap"
  bq_max_age :: nat

definition blockhash_queue_new :: "nat \<Rightarrow> blockhash_queue" where
  "blockhash_queue_new max_age =
     \<lparr>bq_hash_height = 0, bq_last_hash = None, bq_ages = [], bq_max_age = max_age\<rparr>"

text \<open>\<open>None\<close> is the panic of \<open>expect\<close>.\<close>

definition last_hash :: "blockhash_queue \<Rightarrow> hash option" where
  "last_hash q = bq_last_hash q"

definition get_fee_calculator :: "blockhash_queue \<Rightarrow> hash \<Rightarrow> fee_calculator option" where
  "get_fee_calculator q h = map_option ha_fee_calculator (hm_get (bq_ages q) h)"

definition check_hash_age :: "blockhash_queue \<Rightarrow> hash \<Rightarrow> nat \<Rightarrow> bool option" where
  "check_hash_age q h max_age =
     map_option (\<lambda>age. bq_hash_height q - ha_hash_height age \<le> of_nat max_age) (hm_get (bq_ages q) h)"

definition get_hash_age :: "blockhash_queue \<Rightarrow> hash \<Rightarrow> u64 option" where
  "get_hash_age q h = map_option (\<lambda>age. bq_hash_height q - ha_hash_height age) (hm_get (bq_ages q) h)"

definition genesis_hash :: "u64 \<Rightarrow> hash \<Rightarrow> fee_calculator \<Rightarrow> blockhash_queue \<Rightarrow> blockhash_queue" where
  "genesis_hash now h fc q =
     q\<lparr>bq_ages := hm_insert h \<lparr>ha_fee_calculator = fc, ha_hash_height = 0, ha_timestamp = now\<rparr> (bq_ages q),
       bq_last_hash := Some h\<rparr>"

definition check_age :: "u64 \<Rightarrow> nat \<Rightarrow> hash_age \<Rightarrow> bool" where
  "check_age hash_height max_age age \<longleftrightarrow> hash_height - ha_hash_height age \<le> of_nat max_age"

definition register_hash :: "u64 \<Rightarrow> hash \<Rightarrow> fee_calculator \<Rightarrow> blockhash_queue \<Rightarrow> blockhash_queue" where
  "register_hash now h fc q =
     (let height = bq_hash_height q + 1;
          max_age = bq_max_age q;
          ages = (if max_age \<le> length (bq_ages q)
                  then hm_retain (\<lambda>_ age. check_age height max_age age) (bq_ages q) else bq_ages q)
      in q\<lparr>bq_hash_height := height,
           bq_ages := hm_insert h
             \<lparr>ha_fee_calculator = fc, ha_hash_height = height, ha_timestamp = now\<rparr> ages,
           bq_last_hash := Some h\<rparr>)"

definition hash_height_to_timestamp :: "blockhash_queue \<Rightarrow> u64 \<Rightarrow> u64 option" where
  "hash_height_to_timestamp q height =
     map_option ha_timestamp (find (\<lambda>age. ha_hash_height age = height) (map snd (bq_ages q)))"

definition get_recent_blockhashes :: "blockhash_queue \<Rightarrow> (u64 \<times> hash \<times> fee_calculator) list" where
  "get_recent_blockhashes q =
     map (\<lambda>(k, v). (ha_hash_height v, k, ha_fee_calculator v)) (bq_ages q)"

definition queue_len :: "blockhash_queue \<Rightarrow> nat" where
  "queue_len q = bq_max_age q"

section \<open>The queue against the history of registrations\<close>

text \<open>
  \<open>since h log\<close> is the number of registrations after the last one of \<open>h\<close>, with the newest
  registration at the head of the log. A queue \<open>tracks\<close> a log when every entry it holds is the last
  registration of its hash, and every hash registered within the last \<open>max_age\<close> registrations is held.
\<close>

fun since :: "'a \<Rightarrow> ('a \<times> 'b) list \<Rightarrow> nat option" where
  "since h [] = None"
| "since h ((k, _) # log) = (if k = h then Some 0 else map_option Suc (since h log))"

definition entry_tracks :: "blockhash_queue \<Rightarrow> (hash \<times> fee_calculator \<times> u64) list \<Rightarrow> hash \<Rightarrow> hash_age \<Rightarrow> bool" where
  "entry_tracks q log h age \<longleftrightarrow>
     (\<exists>i. since h log = Some i \<and> unat (ha_hash_height age) + i = unat (bq_hash_height q)) \<and>
     map_of log h = Some (ha_fee_calculator age, ha_timestamp age)"

definition tracks :: "blockhash_queue \<Rightarrow> (hash \<times> fee_calculator \<times> u64) list \<Rightarrow> bool" where
  "tracks q log \<longleftrightarrow> hm_ok (bq_ages q) \<and>
     (\<forall>h age. hm_get (bq_ages q) h = Some age \<longrightarrow> entry_tracks q log h age) \<and>
     (\<forall>h i. since h log = Some i \<longrightarrow> i \<le> bq_max_age q \<longrightarrow> hm_get (bq_ages q) h \<noteq> None) \<and>
     bq_last_hash q = map_option fst (case log of [] \<Rightarrow> None | e # _ \<Rightarrow> Some e) \<and>
     length (bq_ages q) \<le> bq_max_age q + 1 \<and> bq_max_age q < 2 ^ 64"

lemma since_inj: "since h log = Some i \<Longrightarrow> since h' log = Some i \<Longrightarrow> h = h'"
  by (induction log arbitrary: i) (auto split: if_splits)

lemma since_None_iff: "since h log = None \<longleftrightarrow> map_of log h = None"
  by (induction log) auto

lemma since_take: "(\<exists>i. since h log = Some i \<and> i \<le> n) \<longleftrightarrow> h \<in> fst ` set (take (Suc n) log)"
proof (induction log arbitrary: n)
  case (Cons e log)
  obtain k v where e: "e = (k, v)" by (cases e)
  show ?case
  proof (cases n)
    case 0
    then show ?thesis by (auto simp: e)
  next
    case (Suc m)
    have "(\<exists>i. since h (e # log) = Some i \<and> i \<le> n) \<longleftrightarrow> k = h \<or> (\<exists>i. since h log = Some i \<and> i \<le> m)"
      by (auto simp: e Suc)
    then show ?thesis unfolding Cons.IH by (auto simp: e Suc)
  qed
qed simp

lemma unat_age:
  "unat (ha_hash_height age) + i = unat (bq_hash_height q) \<Longrightarrow> unat (bq_hash_height q - ha_hash_height age) = i"
  by (subst unat_sub_exact) (auto simp: word_le_nat_alt)

lemma length_hm_insert: "length (hm_insert k v m) \<le> Suc (length m)"
  unfolding hm_insert_def by (induction m) auto

lemma unat_of_usize: "n < 2 ^ 64 \<Longrightarrow> unat (of_nat n :: u64) = n"
  by (simp add: unat_of_nat)

lemma check_age_iff:
  assumes "unat (ha_hash_height age) + i = unat (bq_hash_height q)" and "bq_hash_height q \<noteq> - 1" and "n < 2 ^ 64"
  shows "check_age (bq_hash_height q + 1) n age \<longleftrightarrow> Suc i \<le> n"
proof -
  have "unat (bq_hash_height q + 1 - ha_hash_height age) = Suc i"
    using assms(1,2) by (subst unat_sub_exact) (auto simp: unat_succ word_le_nat_alt)
  then show ?thesis by (simp add: check_age_def word_le_nat_alt unat_of_usize [OF assms(3)])
qed

text \<open>What the eviction keeps: exactly the entries that are still young enough after the registration.\<close>

definition surviving :: "blockhash_queue \<Rightarrow> (hash, hash_age) hmap" where
  "surviving q =
     (if bq_max_age q \<le> length (bq_ages q)
      then hm_retain (\<lambda>_ age. check_age (bq_hash_height q + 1) (bq_max_age q) age) (bq_ages q) else bq_ages q)"

lemma surviving_entry:
  assumes q: "tracks q log" "bq_hash_height q \<noteq> - 1"
  shows "hm_ok (surviving q)"
    and "hm_get (surviving q) h = Some age \<Longrightarrow> hm_get (bq_ages q) h = Some age"
    and "since h log = Some i \<Longrightarrow> Suc i \<le> bq_max_age q \<Longrightarrow> hm_get (surviving q) h \<noteq> None"
    and "length (surviving q) \<le> bq_max_age q"
proof -
  from q have ok: "hm_ok (bq_ages q)" and small: "bq_max_age q < 2 ^ 64"
    and entry: "hm_get (bq_ages q) k = Some a \<Longrightarrow> entry_tracks q log k a"
    and held: "since k log = Some j \<Longrightarrow> j \<le> bq_max_age q \<Longrightarrow> hm_get (bq_ages q) k \<noteq> None" for k a j
    by (auto simp: tracks_def)
  have young: "check_age (bq_hash_height q + 1) (bq_max_age q) a \<longleftrightarrow> Suc j \<le> bq_max_age q"
    if "hm_get (bq_ages q) k = Some a" "since k log = Some j" for k a j
    using entry [OF that(1)] that(2) check_age_iff [OF _ q(2) small] by (auto simp: entry_tracks_def)
  show "hm_ok (surviving q)" using ok by (simp add: surviving_def hm.ok_retain)
  show "hm_get (bq_ages q) h = Some age" if "hm_get (surviving q) h = Some age"
    using that ok by (auto simp: surviving_def hm.get_retain_Some_iff split: if_splits)
  show "hm_get (surviving q) h \<noteq> None" if i: "since h log = Some i" "Suc i \<le> bq_max_age q"
  proof -
    from held [OF i(1)] i(2) obtain a where a: "hm_get (bq_ages q) h = Some a" by auto
    then show ?thesis using young [OF a i(1)] i(2) ok by (auto simp: surviving_def hm.get_retain)
  qed
  show "length (surviving q) \<le> bq_max_age q"
  proof (cases "bq_max_age q \<le> length (bq_ages q)")
    case True
    let ?f = "\<lambda>a. unat (bq_hash_height q - ha_hash_height a)"
    have kept: "\<exists>j. since k log = Some j \<and> ?f a = j \<and> Suc j \<le> bq_max_age q" if "hm_get (surviving q) k = Some a" for k a
    proof -
      from that True ok have a: "hm_get (bq_ages q) k = Some a" "check_age (bq_hash_height q + 1) (bq_max_age q) a"
        by (auto simp: surviving_def hm.get_retain_Some_iff)
      from entry [OF a(1)] obtain j where "since k log = Some j" "?f a = j"
        using unat_age by (auto simp: entry_tracks_def)
      with young [OF a(1)] a(2) show ?thesis by auto
    qed
    show ?thesis
    proof (rule hm.entries_bounded [where f = ?f])
      show "hm_ok (surviving q)" using ok by (simp add: surviving_def hm.ok_retain)
      show "?f a < bq_max_age q" if "hm_get (surviving q) k = Some a" for k a using kept [OF that] by auto
      show "k = k'" if "hm_get (surviving q) k = Some a" "hm_get (surviving q) k' = Some a'" "?f a = ?f a'" for k a k' a'
        using kept [OF that(1)] kept [OF that(2)] that(3) since_inj by metis
    qed
  qed (simp add: surviving_def)
qed

lemma tracks_genesis:
  "n < 2 ^ 64 \<Longrightarrow> tracks (genesis_hash now h fc (blockhash_queue_new n)) [(h, fc, now)]"
  by (auto simp: tracks_def genesis_hash_def blockhash_queue_new_def hm_ok_def hm_get_def
    entry_tracks_def hm_insert_def split: if_splits)

lemma tracks_new: "n < 2 ^ 64 \<Longrightarrow> tracks (blockhash_queue_new n) []"
  by (simp add: tracks_def blockhash_queue_new_def hm.get_empty)

lemma tracks_register:
  assumes q: "tracks q log" "bq_hash_height q \<noteq> - 1"
  shows "tracks (register_hash now h fc q) ((h, fc, now) # log)"
proof -
  note sv = surviving_entry [OF q]
  let ?q = "register_hash now h fc q"
  let ?age = "\<lparr>ha_fee_calculator = fc, ha_hash_height = bq_hash_height q + 1, ha_timestamp = now\<rparr>"
  have eq: "bq_ages ?q = hm_insert h ?age (surviving q)" "bq_hash_height ?q = bq_hash_height q + 1"
    "bq_max_age ?q = bq_max_age q" "bq_last_hash ?q = Some h"
    by (simp_all add: register_hash_def Let_def surviving_def)
  have "entry_tracks ?q ((h, fc, now) # log) k a" if k: "hm_get (bq_ages ?q) k = Some a" for k a
  proof (cases "k = h")
    case True
    with k show ?thesis by (auto simp: eq hm.get_ins entry_tracks_def)
  next
    case False
    with k have "hm_get (surviving q) k = Some a" by (simp add: eq hm.get_ins)
    then have "entry_tracks q log k a" using sv(2) q(1) by (auto simp: tracks_def)
    with False show ?thesis using unat_succ [OF q(2)] by (auto simp: entry_tracks_def eq)
  qed
  moreover have "hm_get (bq_ages ?q) k \<noteq> None" if "since k ((h, fc, now) # log) = Some i" "i \<le> bq_max_age ?q" for k i
    using that sv(3) by (auto simp: eq hm.get_ins split: if_splits)
  moreover have "length (bq_ages ?q) \<le> bq_max_age ?q + 1"
    using le_trans [OF length_hm_insert, of "surviving q"] sv(4) by (simp add: eq)
  ultimately show ?thesis using q(1) sv(1) by (simp add: tracks_def eq hm.ok_ins del: since.simps)
qed

section \<open>A bank's queue\<close>

text \<open>The queue of a bank: the genesis hash, then the registered ones, oldest first.\<close>

definition queue_after :: "nat \<Rightarrow> hash \<times> fee_calculator \<times> u64 \<Rightarrow> (hash \<times> fee_calculator \<times> u64) list \<Rightarrow> blockhash_queue" where
  "queue_after max_age g rs =
     foldl (\<lambda>q (h, fc, now). register_hash now h fc q)
       (genesis_hash (snd (snd g)) (fst g) (fst (snd g)) (blockhash_queue_new max_age)) rs"

lemma queue_after_tracks:
  "max_age < 2 ^ 64 \<Longrightarrow> length rs < 2 ^ 64 \<Longrightarrow>
     tracks (queue_after max_age g rs) (rev (g # rs)) \<and>
     unat (bq_hash_height (queue_after max_age g rs)) = length rs \<and> bq_max_age (queue_after max_age g rs) = max_age"
proof (induction rs rule: rev_induct)
  case Nil
  then show ?case using tracks_genesis [of max_age "snd (snd g)" "fst g" "fst (snd g)"]
    by (simp add: queue_after_def) (simp add: genesis_hash_def blockhash_queue_new_def)
next
  case (snoc r rs)
  let ?q = "queue_after max_age g rs"
  obtain h fc now where r: "r = (h, fc, now)" by (cases r)
  have step: "queue_after max_age g (rs @ [r]) = register_hash now h fc ?q" by (simp add: queue_after_def r)
  have IH: "tracks ?q (rev (g # rs))" "unat (bq_hash_height ?q) = length rs" "bq_max_age ?q = max_age"
    using snoc by simp_all
  have "bq_hash_height ?q \<noteq> - 1"
  proof
    assume "bq_hash_height ?q = - 1"
    then have "unat (bq_hash_height ?q) = 2 ^ 64 - 1" by (simp add: unsigned_minus_1_eq_mask mask_eq_exp_minus_1)
    with IH(2) snoc.prems(2) show False by simp
  qed
  with tracks_register [OF IH(1), of now h fc] unat_succ [of "bq_hash_height ?q"] IH(2,3)
  show ?case unfolding step by (simp add: r) (simp add: register_hash_def Let_def)
qed

lemma tracks_check_hash_age:
  assumes "tracks q log" and "a \<le> bq_max_age q"
  shows "check_hash_age q h a = Some True \<longleftrightarrow> h \<in> fst ` set (take (Suc a) log)"
proof -
  from assms have entry: "hm_get (bq_ages q) h = Some age \<Longrightarrow> entry_tracks q log h age"
    and held: "since h log = Some i \<Longrightarrow> i \<le> bq_max_age q \<Longrightarrow> hm_get (bq_ages q) h \<noteq> None" for age i
    by (auto simp: tracks_def)
  have a: "unat (of_nat a :: u64) = a" using assms by (intro unat_of_usize) (auto simp: tracks_def)
  have "check_hash_age q h a = Some True \<longleftrightarrow> (\<exists>i. since h log = Some i \<and> i \<le> a)"
  proof (cases "hm_get (bq_ages q) h")
    case None
    then show ?thesis using held assms(2) by (force simp: check_hash_age_def)
  next
    case (Some age)
    from entry [OF Some] obtain i where "since h log = Some i" "unat (bq_hash_height q - ha_hash_height age) = i"
      using unat_age by (auto simp: entry_tracks_def)
    then show ?thesis using Some by (auto simp: check_hash_age_def word_le_nat_alt a)
  qed
  then show ?thesis unfolding since_take .
qed

text \<open>
  (C20) A bank's queue against the plain history of its hashes. A hash passes the age check exactly if
  it is among the last \<open>a + 1\<close> registered ones, whatever was evicted in between; the fee calculator of
  such a hash is the one of its last registration; and the queue never holds more than
  \<open>max_age + 1\<close> hashes.
\<close>

theorem blockhash_queue_recent:
  fixes g :: "hash \<times> fee_calculator \<times> u64" and rs :: "(hash \<times> fee_calculator \<times> u64) list"
  assumes "max_age < 2 ^ 64" and "length rs < 2 ^ 64" and "a \<le> max_age"
  defines "q \<equiv> queue_after max_age g rs" and "log \<equiv> rev (g # rs)"
  shows "(check_hash_age q h a = Some True \<longleftrightarrow> h \<in> fst ` set (take (Suc a) log)) \<and>
    (check_hash_age q h a = Some True \<longrightarrow> get_fee_calculator q h = map_option fst (map_of log h)) \<and>
    length (bq_ages q) \<le> max_age + 1 \<and> last_hash q = Some (fst (hd log))"
proof -
  from queue_after_tracks [OF assms(1,2), of g] have q: "tracks q log" "bq_max_age q = max_age"
    unfolding q_def log_def by simp_all
  have "get_fee_calculator q h = map_option fst (map_of log h)" if "check_hash_age q h a = Some True"
  proof -
    from that obtain age where "hm_get (bq_ages q) h = Some age" by (auto simp: check_hash_age_def)
    moreover from this q(1) have "map_of log h = Some (ha_fee_calculator age, ha_timestamp age)"
      by (auto simp: tracks_def entry_tracks_def)
    ultimately show ?thesis by (simp add: get_fee_calculator_def)
  qed
  moreover have "last_hash q = Some (fst (hd log))"
    using q(1) by (cases log) (auto simp: tracks_def last_hash_def log_def)
  moreover have "length (bq_ages q) \<le> max_age + 1" using q by (simp add: tracks_def)
  ultimately show ?thesis using tracks_check_hash_age [OF q(1), of a h] assms(3) q(2) by simp
qed

definition demo_registrations :: "(hash \<times> fee_calculator \<times> u64) list" where
  "demo_registrations = map (\<lambda>i. (of_nat i, \<lparr>fc_lamports_per_signature = of_nat (10 * i)\<rparr>, 0)) [1, 2, 3, 1]"

theorem blockhash_queue_recent_witness:
  "check_hash_age (queue_after 2 (9, \<lparr>fc_lamports_per_signature = 5\<rparr>, 0) demo_registrations) 1 2 = Some True \<and>
   check_hash_age (queue_after 2 (9, \<lparr>fc_lamports_per_signature = 5\<rparr>, 0) demo_registrations) 9 2 \<noteq> Some True"
  using blockhash_queue_recent [of 2 demo_registrations 2 "(9, \<lparr>fc_lamports_per_signature = 5\<rparr>, 0)" 1]
    blockhash_queue_recent [of 2 demo_registrations 2 "(9, \<lparr>fc_lamports_per_signature = 5\<rparr>, 0)" 9]
  by (simp add: demo_registrations_def)

end
