(* ===== verification/RentCollector.thy ===== *)
theory RentCollector
  imports SystemProgram EpochSchedule
begin

text \<open>
  Collecting rent from accounts (\<open>runtime/src/rent_collector.rs\<close>). A collection returns the rent it
  took and the account it leaves.
\<close>

section \<open>Definitions\<close>

record rent_collector =
  rc_epoch :: epoch
  rc_epoch_schedule :: epoch_schedule
  rc_slots_per_year :: f64
  rc_rent :: rent

definition rent_collector_new :: "epoch \<Rightarrow> epoch_schedule \<Rightarrow> f64 \<Rightarrow> rent \<Rightarrow> rent_collector" where
  "rent_collector_new e sched slots_per_year r =
     \<lparr>rc_epoch = e, rc_epoch_schedule = sched, rc_slots_per_year = slots_per_year, rc_rent = r\<rparr>"

definition clone_with_epoch :: "rent_collector \<Rightarrow> epoch \<Rightarrow> rent_collector" where
  "clone_with_epoch c e = c\<lparr>rc_epoch := e\<rparr>"

definition incinerator_id :: pubkey where
  "incinerator_id = 0x003390728d34116079bdc911bfff00dbd44d2ecdccf79ca6e10038e100000000"

text \<open>The slots of the epochs after each epoch of \<open>first..=last\<close>; the sum wraps.\<close>

definition slots_elapsed :: "rent_collector \<Rightarrow> epoch \<Rightarrow> u64" where
  "slots_elapsed c first =
     (\<Sum>e\<leftarrow>[unat first..<Suc (unat (rc_epoch c))]. get_slots_in_epoch (rc_epoch_schedule c) (of_nat e + 1))"

definition collect_from_existing_account ::
  "rent_collector \<Rightarrow> pubkey \<Rightarrow> account \<Rightarrow> bool \<Rightarrow> u64 \<times> account" where
  "collect_from_existing_account c address a rent_fix_enabled =
     (if executable a \<or> rc_epoch c < rent_epoch a \<or> owner a = sysvar_id \<or> address = incinerator_id
      then (0, a)
      else
        let years_elapsed =
              (if rc_slots_per_year c \<noteq> Fin 0
               then f64_div (f64_of_u64 (slots_elapsed c (rent_epoch a))) (rc_slots_per_year c) else Fin 0);
            (rent_due, exempt) = due (rc_rent c) (lamports a) (length (data a)) years_elapsed
        in if exempt \<or> rent_due \<noteq> 0 then
             if rent_due < lamports a then
               (rent_due,
                a\<lparr>rent_epoch := rc_epoch c + (if rent_fix_enabled \<and> exempt then 0 else 1),
                  lamports := lamports a - rent_due\<rparr>)
             else (lamports a, default_account)
           else (0, a))"

definition collect_from_created_account ::
  "rent_collector \<Rightarrow> pubkey \<Rightarrow> account \<Rightarrow> bool \<Rightarrow> u64 \<times> account" where
  "collect_from_created_account c address a enable_new_behavior =
     collect_from_existing_account c address (a\<lparr>rent_epoch := rc_epoch c\<rparr>) enable_new_behavior"

section \<open>What a collection takes and leaves\<close>

text \<open>The outcomes of a collection: nothing, the whole account, or an amount it can pay.\<close>

lemma collect_cases:
  assumes "collect_from_existing_account c k a fix = (r, a')"
  obtains (none) "r = 0" "a' = a"
  | (all) "r = lamports a" "a' = default_account"
  | (part) exempt years where "due (rc_rent c) (lamports a) (length (data a)) years = (r, exempt)"
      "exempt \<or> r \<noteq> 0" "r < lamports a" "rent_epoch a \<le> rc_epoch c"
      "a' = a\<lparr>rent_epoch := rc_epoch c + (if fix \<and> exempt then 0 else 1), lamports := lamports a - r\<rparr>"
proof (cases "executable a \<or> rc_epoch c < rent_epoch a \<or> owner a = sysvar_id \<or> k = incinerator_id")
  case True
  with assms none show ?thesis by (simp add: collect_from_existing_account_def)
next
  case False
  define years where "years = (if rc_slots_per_year c \<noteq> Fin 0
    then f64_div (f64_of_u64 (slots_elapsed c (rent_epoch a))) (rc_slots_per_year c) else Fin 0)"
  obtain v exempt where d: "due (rc_rent c) (lamports a) (length (data a)) years = (v, exempt)" by fastforce
  have eq: "collect_from_existing_account c k a fix =
    (if exempt \<or> v \<noteq> 0 then if v < lamports a then
       (v, a\<lparr>rent_epoch := rc_epoch c + (if fix \<and> exempt then 0 else 1), lamports := lamports a - v\<rparr>)
     else (lamports a, default_account) else (0, a))"
    using False d by (simp only: collect_from_existing_account_def Let_def years_def [symmetric] if_False prod.case)
  from False have e: "rent_epoch a \<le> rc_epoch c" by (simp add: not_less)
  consider "\<not> (exempt \<or> v \<noteq> 0)" | "exempt \<or> v \<noteq> 0" "\<not> v < lamports a" | "exempt \<or> v \<noteq> 0" "v < lamports a" by blast
  then show ?thesis
  proof cases
    case 1
    with assms eq none show ?thesis by simp
  next
    case 2
    with assms eq all show ?thesis by simp
  next
    case 3
    with assms eq have pair: "(v, a\<lparr>rent_epoch := rc_epoch c + (if fix \<and> exempt then 0 else 1), lamports := lamports a - v\<rparr>)
      = (r, a')" by (simp only: if_True)
    show ?thesis
    proof (rule part)
      show "due (rc_rent c) (lamports a) (length (data a)) years = (r, exempt)" using d pair by (simp only: prod.inject)
      show "exempt \<or> r \<noteq> 0" "r < lamports a" using 3 pair by (simp_all only: prod.inject)
      show "rent_epoch a \<le> rc_epoch c" by (rule e)
      show "a' = a\<lparr>rent_epoch := rc_epoch c + (if fix \<and> exempt then 0 else 1), lamports := lamports a - r\<rparr>"
        using pair by (metis prod.inject)
    qed
  qed
qed

lemma collect_conserves:
  assumes "collect_from_existing_account c k a fix = (r, a')"
  shows "unat r + unat (lamports a') = unat (lamports a)"
  using assms
  by (cases rule: collect_cases) (auto simp: default_account_def unat_sub_exact word_less_nat_alt word_le_nat_alt)

lemma collect_keeps_data:
  assumes "collect_from_existing_account c k a fix = (r, a')" and "lamports a' \<noteq> 0"
  shows "data a' = data a \<and> owner a' = owner a \<and> executable a' = executable a"
  using assms(1) by (cases rule: collect_cases) (use assms(2) in \<open>auto simp: default_account_def\<close>)

lemma collect_created_conserves:
  "collect_from_created_account c k a fix = (r, a') \<Longrightarrow> unat r + unat (lamports a') = unat (lamports a)"
  unfolding collect_from_created_account_def by (drule collect_conserves) simp

lemma due_exempt: "due r b n y = (v, True) \<longleftrightarrow> is_exempt r b n \<and> v = 0"
  by (auto simp: due_def)

lemma collect_default: "collect_from_existing_account c k default_account fix = (0, default_account)"
  by (auto simp: collect_from_existing_account_def default_account_def Let_def split: prod.splits)

text \<open>
  (C21) Rent is charged once per epoch and never from nowhere. What a collection takes and what it
  leaves in the account add up to the old balance; a second collection in the same epoch takes
  nothing and leaves the account as it is; and an account that keeps a balance keeps its data, its
  owner and its executable mark.
\<close>

theorem rent_collected_once:
  assumes "collect_from_existing_account c k a fix = (r, a')" and "rc_epoch c \<noteq> - 1"
  shows "collect_from_existing_account c k a' fix = (0, a') \<and>
    unat r + unat (lamports a') = unat (lamports a) \<and>
    (lamports a' = 0 \<or> data a' = data a \<and> owner a' = owner a \<and> executable a' = executable a)"
proof -
  have "collect_from_existing_account c k a' fix = (0, a')"
    using assms(1)
  proof (cases rule: collect_cases)
    case none
    with assms(1) show ?thesis by simp
  next
    case all
    then show ?thesis by (simp add: collect_default)
  next
    case (part exempt years)
    show ?thesis
    proof (cases exempt)
      case True
      with part have ex: "is_exempt (rc_rent c) (lamports a) (length (data a))" "r = 0" by (simp_all add: due_exempt)
      have "collect_from_existing_account c k a' fix = (0, a')" if "fix"
        using ex part(3,5) that True
        by (auto simp: collect_from_existing_account_def Let_def due_def)
      moreover have "collect_from_existing_account c k a' fix = (0, a')" if "\<not> fix"
        using part(5) that assms(2)
        by (simp add: collect_from_existing_account_def word_less_nat_alt unat_succ)
      ultimately show ?thesis by blast
    next
      case False
      with part(5) assms(2) show ?thesis
        by (simp add: collect_from_existing_account_def word_less_nat_alt unat_succ)
    qed
  qed
  with assms(1) collect_conserves collect_keeps_data show ?thesis by metis
qed

definition demo_collector :: rent_collector where
  "demo_collector = rent_collector_new 3
     \<lparr>slots_per_epoch = 64, leader_schedule_slot_offset = 64, warmup = False,
      first_normal_epoch = 0, first_normal_slot = 0\<rparr> (Fin 256) default_rent"

lemma demo_years:
  "f64_div (f64_of_u64 (slots_elapsed demo_collector 0)) (rc_slots_per_year demo_collector) = Fin 1"
proof -
  have "slots_elapsed demo_collector 0 = 256" by code_simp
  moreover have "f64_of_u64 256 = Fin 256" using f64_of_u64_exact [of 256] by simp
  moreover have "rnd 1 = Fin 1" using rnd_of_nat [of 1] by simp
  ultimately show ?thesis by (simp add: demo_collector_def rent_collector_new_def)
qed

lemma demo_collect:
  "collect_from_existing_account demo_collector 7 (default_account\<lparr>lamports := 500000\<rparr>) True =
     (445440, default_account\<lparr>lamports := 54560, rent_epoch := 4\<rparr>)"
proof -
  have "u64_of_f64 (f64_mult (f64_of_u64 (3480 * (0 + 128))) (Fin (of_nat 1))) = of_nat (445440 * 1)"
    by (rule f64_exact_product) simp_all
  then have price: "u64_of_f64 (f64_mult (f64_of_u64 445440) (Fin 1)) = 445440" by simp
  have "u64_of_f64 (f64_mult (f64_of_u64 445440) (Fin (of_nat 2))) = of_nat (445440 * 2)"
    by (rule f64_exact_product) simp_all
  then have "minimum_balance default_rent 0 = 890880"
    by (simp add: minimum_balance_def default_rent_def ACCOUNT_STORAGE_OVERHEAD_def
      DEFAULT_LAMPORTS_PER_BYTE_YEAR_value DEFAULT_EXEMPTION_THRESHOLD_def)
  then have "due (rc_rent demo_collector) 500000 0 (Fin 1) = (445440, False)"
    using price by (simp add: due_def is_exempt_def demo_collector_def rent_collector_new_def)
      (simp add: default_rent_def ACCOUNT_STORAGE_OVERHEAD_def DEFAULT_LAMPORTS_PER_BYTE_YEAR_value)
  moreover have "rc_slots_per_year demo_collector \<noteq> Fin 0" "rc_epoch demo_collector = 3"
    by (simp_all add: demo_collector_def rent_collector_new_def)
  ultimately show ?thesis
    using demo_years
    by (simp add: collect_from_existing_account_def default_account_def sysvar_id_def incinerator_id_def)
qed

theorem rent_collected_once_witness:
  "collect_from_existing_account demo_collector 7 (default_account\<lparr>lamports := 54560, rent_epoch := 4\<rparr>) True =
     (0, default_account\<lparr>lamports := 54560, rent_epoch := 4\<rparr>)"
  using rent_collected_once [OF demo_collect] by (simp add: demo_collector_def rent_collector_new_def)

end
