(* ===== verification/StatusCache.thy ===== *)
theory StatusCache
  imports Transaction HashMap
begin

text \<open>
  The cache of transaction statuses (\<open>runtime/src/status_cache.rs\<close>), by which the banks of all forks
  recognise a transaction they have already processed. A signature is kept as a slice of 20 bytes
  whose offset is drawn at random per blockhash; the drawn offset is the argument \<open>rand\<close>. \<open>None\<close> is
  a panic. A set of ancestors is the set of its slots.
\<close>

section \<open>Definitions\<close>

definition MAX_CACHE_ENTRIES :: nat where
  "MAX_CACHE_ENTRIES = 300"

definition CACHED_SIGNATURE_SIZE :: nat where
  "CACHED_SIGNATURE_SIZE = 20"

type_synonym 'r fork_status = "(slot \<times> 'r) list"
type_synonym 'r signature_map = "(bytes, 'r fork_status) hmap"
type_synonym 'r signature_status = "(hash, nat \<times> (bytes \<times> 'r) list) hmap"

record 'r status_cache =
  sc_cache :: "(hash, slot \<times> nat \<times> 'r signature_map) hmap"
  sc_roots :: "slot set"
  sc_slot_deltas :: "(slot, 'r signature_status) hmap"

definition status_cache_default :: "'r status_cache" where
  "status_cache_default = \<lparr>sc_cache = [], sc_roots = {0}, sc_slot_deltas = []\<rparr>"

definition get_or :: "'v \<Rightarrow> 'v option \<Rightarrow> 'v" where
  "get_or d v = (case v of None \<Rightarrow> d | Some x \<Rightarrow> x)"

definition sig_slice :: "nat \<Rightarrow> signature \<Rightarrow> bytes" where
  "sig_slice index sig = take CACHED_SIGNATURE_SIZE (drop index sig)"

definition get_signature_status ::
  "'r status_cache \<Rightarrow> signature \<Rightarrow> hash \<Rightarrow> slot set \<Rightarrow> (slot \<times> 'r) option" where
  "get_signature_status c sig blockhash ancestors =
     (case hm_get (sc_cache c) blockhash of
        None \<Rightarrow> None
      | Some (_, index, sigmap) \<Rightarrow>
          (case hm_get sigmap (sig_slice index sig) of
             None \<Rightarrow> None
           | Some stored_forks \<Rightarrow> find (\<lambda>(f, _). f \<in> ancestors \<or> f \<in> sc_roots c) stored_forks))"

definition get_signature_slot :: "'r status_cache \<Rightarrow> signature \<Rightarrow> slot set \<Rightarrow> (slot \<times> 'r) option" where
  "get_signature_slot c sig ancestors =
     Option.bind (find (\<lambda>b. get_signature_status c sig b ancestors \<noteq> None) (map fst (sc_cache c)))
       (\<lambda>b. get_signature_status c sig b ancestors)"

definition insert_with_slice ::
  "hash \<Rightarrow> slot \<Rightarrow> nat \<Rightarrow> bytes \<Rightarrow> 'r \<Rightarrow> 'r status_cache \<Rightarrow> 'r status_cache" where
  "insert_with_slice blockhash slot sig_index part res c =
     (let (fork, index, sigmap) = get_or (slot, sig_index, []) (hm_get (sc_cache c) blockhash);
          sig_forks = get_or [] (hm_get sigmap part);
          slot_delta = get_or [] (hm_get (sc_slot_deltas c) slot);
          (delta_index, hash_entry) = get_or (sig_index, []) (hm_get slot_delta blockhash)
      in c\<lparr>sc_cache := hm_insert blockhash
             (max slot fork, index, hm_insert part (sig_forks @ [(slot, res)]) sigmap) (sc_cache c),
           sc_slot_deltas := hm_insert slot
             (hm_insert blockhash (delta_index, hash_entry @ [(part, res)]) slot_delta) (sc_slot_deltas c)\<rparr>)"

definition sc_insert ::
  "nat \<Rightarrow> hash \<Rightarrow> signature \<Rightarrow> slot \<Rightarrow> 'r \<Rightarrow> 'r status_cache \<Rightarrow> 'r status_cache" where
  "sc_insert rand blockhash sig slot res c =
     (let sig_index = (case hm_get (sc_cache c) blockhash of Some (_, i, _) \<Rightarrow> i | None \<Rightarrow> rand);
          (fork, index, sigmap) = get_or (slot, sig_index, []) (hm_get (sc_cache c) blockhash);
          c1 = c\<lparr>sc_cache := hm_insert blockhash (max slot fork, index, sigmap) (sc_cache c)\<rparr>
      in insert_with_slice blockhash slot sig_index (sig_slice index sig) res c1)"

definition purge_roots :: "'r status_cache \<Rightarrow> 'r status_cache" where
  "purge_roots c =
     (if MAX_CACHE_ENTRIES < card (sc_roots c) then
        let least = Min (sc_roots c)
        in c\<lparr>sc_roots := sc_roots c - {least},
             sc_cache := hm_retain (\<lambda>_ (fork, _, _). least < fork) (sc_cache c),
             sc_slot_deltas := hm_retain (\<lambda>slot _. least < slot) (sc_slot_deltas c)\<rparr>
      else c)"

definition sc_add_root :: "slot \<Rightarrow> 'r status_cache \<Rightarrow> 'r status_cache" where
  "sc_add_root fork c = purge_roots (c\<lparr>sc_roots := insert fork (sc_roots c)\<rparr>)"

text \<open>The inner loop of \<open>clear_slot_signatures\<close>, over the slices recorded for one blockhash.\<close>

definition clear_slice :: "slot \<Rightarrow> 'r signature_map \<Rightarrow> bytes \<times> 'r \<Rightarrow> 'r signature_map option" where
  "clear_slice slot sigmap = (\<lambda>(part, _).
     case hm_get sigmap part of
       None \<Rightarrow> None
     | Some sig_list \<Rightarrow>
         let kept = filter (\<lambda>(updated_slot, _). updated_slot \<noteq> slot) sig_list
         in Some (if kept = [] then hm_remove part sigmap else hm_insert part kept sigmap))"

definition clear_blockhash ::
  "slot \<Rightarrow> (hash, slot \<times> nat \<times> 'r signature_map) hmap \<Rightarrow> hash \<times> nat \<times> (bytes \<times> 'r) list \<Rightarrow>
     (hash, slot \<times> nat \<times> 'r signature_map) hmap option" where
  "clear_blockhash slot cache = (\<lambda>(blockhash, _, signature_list).
     case hm_get cache blockhash of
       None \<Rightarrow> None
     | Some (fork, index, all_sig_maps) \<Rightarrow>
         map_option (\<lambda>sigmap. if sigmap = [] then hm_remove blockhash cache
                               else hm_insert blockhash (fork, index, sigmap) cache)
           (fold_option (clear_slice slot) all_sig_maps signature_list))"

definition clear_slot_signatures :: "slot \<Rightarrow> 'r status_cache \<Rightarrow> 'r status_cache option" where
  "clear_slot_signatures slot c =
     (case hm_get (sc_slot_deltas c) slot of
        None \<Rightarrow> Some (c\<lparr>sc_slot_deltas := hm_remove slot (sc_slot_deltas c)\<rparr>)
      | Some slot_deltas \<Rightarrow>
          map_option (\<lambda>cache. c\<lparr>sc_cache := cache, sc_slot_deltas := hm_remove slot (sc_slot_deltas c)\<rparr>)
            (fold_option (clear_blockhash slot) (sc_cache c) slot_deltas))"

definition clear_signatures :: "'r status_cache \<Rightarrow> 'r status_cache" where
  "clear_signatures c =
     c\<lparr>sc_cache := map (\<lambda>(b, fork, index, _). (b, fork, index, [])) (sc_cache c),
       sc_slot_deltas := map (\<lambda>(s, _). (s, [])) (sc_slot_deltas c)\<rparr>"

definition slot_deltas :: "'r status_cache \<Rightarrow> slot list \<Rightarrow> (slot \<times> bool \<times> 'r signature_status) list" where
  "slot_deltas c slots =
     map (\<lambda>slot. (slot, slot \<in> sc_roots c, get_or [] (hm_get (sc_slot_deltas c) slot))) slots"

definition append_delta :: "slot \<times> bool \<times> 'r signature_status \<Rightarrow> 'r status_cache \<Rightarrow> 'r status_cache" where
  "append_delta = (\<lambda>(slot, is_root, statuses) c.
     let c1 = fold (\<lambda>(tx_hash, sig_index, entries).
                fold (\<lambda>(part, res). insert_with_slice tx_hash slot sig_index part res) entries) statuses c
     in if is_root then sc_add_root slot c1 else c1)"

definition sc_append :: "(slot \<times> bool \<times> 'r signature_status) list \<Rightarrow> 'r status_cache \<Rightarrow> 'r status_cache" where
  "sc_append deltas c = fold append_delta deltas c"

definition from_slot_deltas :: "(slot \<times> bool \<times> 'r signature_status) list \<Rightarrow> 'r status_cache" where
  "from_slot_deltas deltas = sc_append deltas status_cache_default"

section \<open>The cache and the slot deltas agree\<close>

text \<open>The recorded forks of a slice, and the statuses recorded in a slot.\<close>

definition forks :: "'r status_cache \<Rightarrow> hash \<Rightarrow> bytes \<Rightarrow> 'r fork_status" where
  "forks c b x = (case hm_get (sc_cache c) b of None \<Rightarrow> [] | Some (_, _, m) \<Rightarrow> get_or [] (hm_get m x))"

definition entry_ok :: "slot \<times> nat \<times> 'r signature_map \<Rightarrow> bool" where
  "entry_ok e \<longleftrightarrow> hm_ok (snd (snd e)) \<and> (\<forall>x l s r. hm_get (snd (snd e)) x = Some l \<longrightarrow> (s, r) \<in> set l \<longrightarrow> s \<le> fst e)"

definition delta_ok :: "'r status_cache \<Rightarrow> slot \<Rightarrow> hash \<Rightarrow> nat \<times> (bytes \<times> 'r) list \<Rightarrow> bool" where
  "delta_ok c s b d \<longleftrightarrow> snd d \<noteq> [] \<and>
     (\<exists>fork m. hm_get (sc_cache c) b = Some (fork, fst d, m) \<and> s \<le> fork \<and>
        (\<forall>(x, r)\<in>set (snd d). (s, r) \<in> set (get_or [] (hm_get m x))))"

definition sc_ok :: "'r status_cache \<Rightarrow> bool" where
  "sc_ok c \<longleftrightarrow> hm_ok (sc_cache c) \<and> hm_ok (sc_slot_deltas c) \<and> finite (sc_roots c) \<and> sc_roots c \<noteq> {} \<and>
     (\<forall>b e. hm_get (sc_cache c) b = Some e \<longrightarrow> entry_ok e) \<and>
     (\<forall>s d. hm_get (sc_slot_deltas c) s = Some d \<longrightarrow> hm_ok d \<and>
        (\<forall>b e. hm_get d b = Some e \<longrightarrow> delta_ok c s b e))"

lemma get_or_simps [simp]: "get_or d None = d" "get_or d (Some v) = v"
  by (simp_all add: get_or_def)

lemma sc_ok_entry: "sc_ok c \<Longrightarrow> hm_get (sc_cache c) b = Some e \<Longrightarrow> entry_ok e"
  unfolding sc_ok_def by blast

lemma sc_ok_default: "sc_ok status_cache_default"
  by (simp add: sc_ok_def status_cache_default_def hm.get_empty)

lemma insert_with_slice_entry:
  assumes ok: "sc_ok c" and index: "\<And>fork i m. hm_get (sc_cache c) b = Some (fork, i, m) \<Longrightarrow> i = sig_index"
  obtains fork m where
    "sc_cache (insert_with_slice b s sig_index x r c) = hm_insert b (max s fork, sig_index,
       hm_insert x (get_or [] (hm_get m x) @ [(s, r)]) m) (sc_cache c)"
    "hm_get (sc_cache c) b = Some (fork, sig_index, m) \<or> hm_get (sc_cache c) b = None \<and> fork = s \<and> m = []"
    "hm_ok m" "entry_ok (fork, sig_index, m)"
proof (cases "hm_get (sc_cache c) b")
  case None
  then show ?thesis by (intro that [of s "[]"]) (simp_all add: insert_with_slice_def entry_ok_def hm.get_empty Let_def split: prod.splits)
next
  case (Some e)
  obtain fork i m where e: "e = (fork, i, m)" by (cases e)
  with Some ok have "entry_ok (fork, i, m)" by (auto simp: sc_ok_def)
  moreover have "i = sig_index" using index Some e by simp
  ultimately show ?thesis using Some e
    by (intro that [of fork m]) (simp_all add: insert_with_slice_def entry_ok_def Let_def split: prod.splits)
qed

lemma insert_with_slice_delta:
  "sc_slot_deltas (insert_with_slice b s sig_index x r c) =
     hm_insert s (hm_insert b
       (let d = get_or (sig_index, []) (hm_get (get_or [] (hm_get (sc_slot_deltas c) s)) b) in (fst d, snd d @ [(x, r)]))
       (get_or [] (hm_get (sc_slot_deltas c) s))) (sc_slot_deltas c)"
  "sc_roots (insert_with_slice b s sig_index x r c) = sc_roots c"
  by (simp_all add: insert_with_slice_def Let_def split: prod.splits)

lemma sc_ok_insert_with_slice:
  assumes ok: "sc_ok c" and index: "\<And>fork i m. hm_get (sc_cache c) b = Some (fork, i, m) \<Longrightarrow> i = sig_index"
  shows "sc_ok (insert_with_slice b s sig_index x r c)"
proof -
  let ?c = "insert_with_slice b s sig_index x r c"
  obtain fork m where cache: "sc_cache ?c = hm_insert b (max s fork, sig_index,
       hm_insert x (get_or [] (hm_get m x) @ [(s, r)]) m) (sc_cache c)"
    and old: "hm_get (sc_cache c) b = Some (fork, sig_index, m) \<or> hm_get (sc_cache c) b = None \<and> fork = s \<and> m = []"
    and m: "hm_ok m" "entry_ok (fork, sig_index, m)" by (rule insert_with_slice_entry [OF ok index])
  let ?m = "hm_insert x (get_or [] (hm_get m x) @ [(s, r)]) m"
  have "entry_ok (max s fork, sig_index, ?m)"
    using m by (cases "hm_get m x") (fastforce simp: entry_ok_def hm.ok_ins hm.get_ins le_max_iff_disj split: if_splits)+
  then have entries: "\<forall>b' e. hm_get (sc_cache ?c) b' = Some e \<longrightarrow> entry_ok e"
    using ok by (auto simp: cache hm.get_ins sc_ok_def)
  have keep: "delta_ok ?c s' b' d" if "delta_ok c s' b' d" for s' b' d
  proof (cases "b' = b")
    case True
    with that old have "hm_get (sc_cache c) b = Some (fork, sig_index, m)" by (auto simp: delta_ok_def)
    with that True have d: "snd d \<noteq> []" "fst d = sig_index" "s' \<le> fork"
      "\<forall>(y, r)\<in>set (snd d). (s', r) \<in> set (get_or [] (hm_get m y))" by (auto simp: delta_ok_def)
    have "set (get_or [] (hm_get m y)) \<subseteq> set (get_or [] (hm_get ?m y))" for y by (auto simp: hm.get_ins)
    with d show ?thesis unfolding delta_ok_def True
      by (intro conjI exI [of _ "max s fork"] exI [of _ ?m]) (auto simp: cache hm.get_ins le_max_iff_disj)
  next
    case False
    with that show ?thesis by (simp add: delta_ok_def cache hm.get_ins)
  qed
  let ?d0 = "get_or [] (hm_get (sc_slot_deltas c) s)"
  let ?e = "get_or (sig_index, []) (hm_get ?d0 b)"
  have d0: "hm_ok ?d0" "\<And>b' e. hm_get ?d0 b' = Some e \<Longrightarrow> delta_ok c s b' e"
    using ok by (auto simp: sc_ok_def get_or_def hm.get_empty split: option.splits)
  have "delta_ok ?c s b (fst ?e, snd ?e @ [(x, r)])"
  proof (cases "hm_get ?d0 b")
    case None
    then show ?thesis by (simp add: delta_ok_def cache hm.get_ins)
  next
    case (Some e)
    from keep [OF d0(2) [OF Some]] have e: "fst e = sig_index"
      "\<forall>(y, r)\<in>set (snd e). (s, r) \<in> set (get_or [] (hm_get ?m y))" by (auto simp: delta_ok_def cache hm.get_ins)
    have "(s, r) \<in> set (get_or [] (hm_get ?m x))" by (simp add: hm.get_ins)
    with e Some show ?thesis unfolding delta_ok_def
      by (intro conjI exI [of _ "max s fork"] exI [of _ ?m]) (simp_all add: cache hm.get_ins)
  qed
  then have "hm_ok d \<and> (\<forall>b' e. hm_get d b' = Some e \<longrightarrow> delta_ok ?c s' b' e)"
    if "hm_get (sc_slot_deltas ?c) s' = Some d" for s' d
    using that ok d0 keep
    by (auto simp: insert_with_slice_delta hm.get_ins hm.ok_ins Let_def sc_ok_def split: if_splits)
  with entries ok show ?thesis by (simp add: sc_ok_def cache hm.ok_ins insert_with_slice_delta)
qed

lemma sc_insert_eq:
  assumes "sc_ok c"
  obtains index where "sc_insert rand b sig s r c = insert_with_slice b s index (sig_slice index sig) r c"
    "\<forall>fork i m. hm_get (sc_cache c) b = Some (fork, i, m) \<longrightarrow> i = index"
proof -
  have twice: "hm_insert b v (hm_insert b u m) = hm_insert b v m" for u v :: "slot \<times> nat \<times> 'a signature_map" and m
    by (simp add: hm_insert_def)
  show ?thesis
  proof (cases "hm_get (sc_cache c) b")
    case None
    then show ?thesis
      by (intro that [of rand]) (simp_all add: sc_insert_def insert_with_slice_def Let_def hm.get_ins twice)
  next
    case (Some e)
    obtain fork i m where "e = (fork, i, m)" by (cases e)
    with Some show ?thesis
      by (intro that [of i]) (simp_all add: sc_insert_def insert_with_slice_def Let_def hm.get_ins twice)
  qed
qed

lemma sc_ok_insert: "sc_ok c \<Longrightarrow> sc_ok (sc_insert rand b sig s r c)"
  by (metis sc_insert_eq sc_ok_insert_with_slice)

lemma sc_ok_purge: "sc_ok c \<Longrightarrow> sc_ok (purge_roots c)"
proof (cases "MAX_CACHE_ENTRIES < card (sc_roots c)")
  case True
  assume ok: "sc_ok c"
  let ?least = "Min (sc_roots c)"
  have c: "hm_ok (sc_cache c)" "hm_ok (sc_slot_deltas c)" using ok by (simp_all add: sc_ok_def)
  have cache: "hm_get (sc_cache (purge_roots c)) b = Some e \<longleftrightarrow> hm_get (sc_cache c) b = Some e \<and> ?least < fst e" for b e
    using True c by (auto simp: purge_roots_def Let_def hm.get_retain_Some_iff split: prod.splits)
  have deltas: "hm_get (sc_slot_deltas (purge_roots c)) s = Some d \<longleftrightarrow> hm_get (sc_slot_deltas c) s = Some d \<and> ?least < s" for s d
    using True c by (auto simp: purge_roots_def Let_def hm.get_retain_Some_iff)
  have "delta_ok (purge_roots c) s b d" if "delta_ok c s b d" "?least < s" for s b d
    using that cache by (fastforce simp: delta_ok_def)
  moreover have "sc_roots c - {?least} \<noteq> {}"
  proof
    assume "sc_roots c - {?least} = {}"
    then have "sc_roots c \<subseteq> {?least}" by blast
    then have "card (sc_roots c) \<le> 1" by (metis card.empty card_insert_le_m1 card_mono empty_not_insert finite.emptyI finite.insertI is_singletonI is_singleton_altdef le_refl)
    with True show False by (simp add: MAX_CACHE_ENTRIES_def)
  qed
  ultimately show ?thesis
    using ok cache deltas True
    by (auto simp: sc_ok_def) (auto simp: purge_roots_def Let_def hm.ok_retain)
qed (simp add: purge_roots_def)

lemma sc_ok_add_root: "sc_ok c \<Longrightarrow> sc_ok (sc_add_root s c)"
  unfolding sc_add_root_def by (rule sc_ok_purge) (auto simp: sc_ok_def delta_ok_def)

section \<open>Forgetting a slot\<close>

definition surviving_forks :: "slot \<Rightarrow> 'r fork_status option \<Rightarrow> 'r fork_status option" where
  "surviving_forks s v = (case v of
     None \<Rightarrow> None
   | Some l \<Rightarrow> let kept = filter (\<lambda>(t, _). t \<noteq> s) l in if kept = [] then None else Some kept)"

lemma clear_slices_ok:
  assumes "hm_ok m" and "distinct (map fst es)" and "\<forall>x\<in>fst ` set es. hm_get m x \<noteq> None"
  shows "\<exists>m'. fold_option (clear_slice s) m es = Some m' \<and> hm_ok m' \<and>
    (\<forall>y. hm_get m' y = (if y \<in> fst ` set es then surviving_forks s (hm_get m y) else hm_get m y))"
  using assms
proof (induction es arbitrary: m)
  case (Cons e es)
  obtain x r where e: "e = (x, r)" by (cases e)
  from Cons.prems(3) obtain l where l: "hm_get m x = Some l" by (auto simp: e)
  let ?kept = "filter (\<lambda>(t, _). t \<noteq> s) l"
  define m1 where "m1 = (if ?kept = [] then hm_remove x m else hm_insert x ?kept m)"
  have m1: "clear_slice s m e = Some m1" "hm_ok m1"
    "\<And>y. hm_get m1 y = (if y = x then surviving_forks s (hm_get m y) else hm_get m y)"
    using Cons.prems(1) l
    by (auto simp: clear_slice_def e m1_def Let_def hm.ok_ins hm.ok_del hm.get_ins hm.get_del surviving_forks_def)
  have "\<forall>y\<in>fst ` set es. hm_get m1 y \<noteq> None" using Cons.prems(2,3) by (auto simp: m1(3) e image_iff)
  with Cons.IH [OF m1(2)] Cons.prems(2) obtain m' where "fold_option (clear_slice s) m1 es = Some m'" "hm_ok m'"
    "\<And>y. hm_get m' y = (if y \<in> fst ` set es then surviving_forks s (hm_get m1 y) else hm_get m1 y)" by auto
  with Cons.prems(2) show ?case by (intro exI [of _ m']) (auto simp: m1(1) [unfolded e] m1(3) e)
qed simp

text \<open>What clearing leaves of the cache entry of one blockhash.\<close>

definition cleared_entry ::
  "slot \<Rightarrow> bytes set \<Rightarrow> (slot \<times> nat \<times> 'r signature_map) option \<Rightarrow> (slot \<times> nat \<times> 'r signature_map) option \<Rightarrow> bool" where
  "cleared_entry s xs v v' \<longleftrightarrow> (case v of
     None \<Rightarrow> v' = None
   | Some (fork, i, m) \<Rightarrow>
       (\<exists>m'. v' = (if m' = [] then None else Some (fork, i, m')) \<and> hm_ok m' \<and>
          (\<forall>y. hm_get m' y = (if y \<in> xs then surviving_forks s (hm_get m y) else hm_get m y))))"

lemma clear_blockhash_ok:
  assumes "hm_ok cache" and "hm_get cache b = Some (fork, i, m)" and "hm_ok m" and "distinct (map fst es)"
    and "\<forall>x\<in>fst ` set es. hm_get m x \<noteq> None"
  shows "\<exists>cache'. clear_blockhash s cache (b, j, es) = Some cache' \<and> hm_ok cache' \<and>
    cleared_entry s (fst ` set es) (hm_get cache b) (hm_get cache' b) \<and> (\<forall>b'. b' \<noteq> b \<longrightarrow> hm_get cache' b' = hm_get cache b')"
proof -
  from clear_slices_ok [OF assms(3-5)] obtain m' where m': "fold_option (clear_slice s) m es = Some m'" "hm_ok m'"
    "\<And>y. hm_get m' y = (if y \<in> fst ` set es then surviving_forks s (hm_get m y) else hm_get m y)" by blast
  have "cleared_entry s (fst ` set es) (Some (fork, i, m)) (if m' = [] then None else Some (fork, i, m'))"
    unfolding cleared_entry_def option.case prod.case using m'(2,3) by blast
  then show ?thesis using assms(1,2) m'(1)
    by (cases "m' = []") (simp_all add: clear_blockhash_def hm.ok_ins hm.ok_del hm.get_ins hm.get_del)
qed

lemma clear_blockhashes_ok:
  assumes "hm_ok cache" and "distinct (map fst d)"
    and "\<forall>(b, i, es)\<in>set d. distinct (map fst es) \<and> (\<exists>fork m. hm_get cache b = Some (fork, i, m) \<and> hm_ok m \<and>
      (\<forall>x\<in>fst ` set es. hm_get m x \<noteq> None))"
  shows "\<exists>cache'. fold_option (clear_blockhash s) cache d = Some cache' \<and> hm_ok cache' \<and>
    (\<forall>b. case map_of d b of None \<Rightarrow> hm_get cache' b = hm_get cache b
      | Some (i, es) \<Rightarrow> cleared_entry s (fst ` set es) (hm_get cache b) (hm_get cache' b))"
  using assms
proof (induction d arbitrary: cache)
  case (Cons e d)
  obtain b i es where e: "e = (b, i, es)" by (cases e)
  from Cons.prems(3) obtain fork m where "hm_get cache b = Some (fork, i, m)" "hm_ok m" "distinct (map fst es)"
    "\<forall>x\<in>fst ` set es. hm_get m x \<noteq> None" by (auto simp: e)
  from clear_blockhash_ok [OF Cons.prems(1) this, of s i] obtain c1 where c1: "clear_blockhash s cache (b, i, es) = Some c1"
    "hm_ok c1" "cleared_entry s (fst ` set es) (hm_get cache b) (hm_get c1 b)" "\<And>b'. b' \<noteq> b \<Longrightarrow> hm_get c1 b' = hm_get cache b'"
    by blast
  have b: "b \<notin> fst ` set d" "distinct (map fst d)" using Cons.prems(2) by (auto simp: e)
  have "\<forall>(b', i, es)\<in>set d. distinct (map fst es) \<and> (\<exists>fork m. hm_get c1 b' = Some (fork, i, m) \<and> hm_ok m \<and>
      (\<forall>x\<in>fst ` set es. hm_get m x \<noteq> None))"
  proof clarify
    fix b' i' es' assume d: "(b', i', es') \<in> set d"
    with b(1) have "b' \<noteq> b" by force
    with Cons.prems(3) d c1(4) show "distinct (map fst es') \<and> (\<exists>fork m. hm_get c1 b' = Some (fork, i', m) \<and> hm_ok m \<and>
      (\<forall>x\<in>fst ` set es'. hm_get m x \<noteq> None))" by fastforce
  qed
  from Cons.IH [OF c1(2) b(2) this] obtain c2 where c2: "fold_option (clear_blockhash s) c1 d = Some c2" "hm_ok c2"
    "\<And>b. case map_of d b of None \<Rightarrow> hm_get c2 b = hm_get c1 b
      | Some (i, es) \<Rightarrow> cleared_entry s (fst ` set es) (hm_get c1 b) (hm_get c2 b)" by blast
  have "case map_of (e # d) b' of None \<Rightarrow> hm_get c2 b' = hm_get cache b'
      | Some (i, es) \<Rightarrow> cleared_entry s (fst ` set es) (hm_get cache b') (hm_get c2 b')" for b'
  proof (cases "b' = b")
    case True
    moreover have "map_of d b = None" using b(1) by (simp add: map_of_eq_None_iff)
    ultimately show ?thesis using c2(3) [of b] c1(3) by (simp add: e)
  next
    case False
    then show ?thesis using c2(3) [of b'] unfolding c1(4) [OF False] by (simp add: e)
  qed
  with c1(1) c2 show ?case by (auto simp: e)
qed simp

lemma cleared_forks:
  assumes "cleared_entry s xs (hm_get (sc_cache c) b) (hm_get (sc_cache c') b)"
  shows "forks c' b x = (if x \<in> xs then filter (\<lambda>(t, _). t \<noteq> s) (forks c b x) else forks c b x)"
proof (cases "hm_get (sc_cache c) b")
  case None
  with assms show ?thesis by (simp add: cleared_entry_def forks_def)
next
  case (Some e)
  obtain fork i m where e: "e = (fork, i, m)" by (cases e)
  with assms Some obtain m' where m': "hm_get (sc_cache c') b = (if m' = [] then None else Some (fork, i, m'))"
    "\<And>y. hm_get m' y = (if y \<in> xs then surviving_forks s (hm_get m y) else hm_get m y)"
    by (auto simp: cleared_entry_def)
  have "forks c' b x = get_or [] (hm_get m' x)" by (simp add: forks_def m'(1) hm.get_empty)
  also have "\<dots> = (if x \<in> xs then filter (\<lambda>(t, _). t \<noteq> s) (get_or [] (hm_get m x)) else get_or [] (hm_get m x))"
    by (cases "hm_get m x") (simp_all add: m'(2) surviving_forks_def Let_def)
  finally show ?thesis using Some e by (simp add: forks_def)
qed

lemma delta_ok_iff:
  "delta_ok c s b d \<longleftrightarrow> snd d \<noteq> [] \<and> (\<exists>fork m. hm_get (sc_cache c) b = Some (fork, fst d, m) \<and> s \<le> fork) \<and>
     (\<forall>(x, r)\<in>set (snd d). (s, r) \<in> set (forks c b x))"
  by (auto simp: delta_ok_def forks_def)

text \<open>No two signatures of the slot share blockhash and slice.\<close>

definition no_collision :: "slot \<Rightarrow> 'r status_cache \<Rightarrow> bool" where
  "no_collision s c \<longleftrightarrow> (\<forall>(b, i, es)\<in>set (get_or [] (hm_get (sc_slot_deltas c) s)). distinct (map fst es))"

definition recorded :: "slot \<Rightarrow> 'r status_cache \<Rightarrow> hash \<Rightarrow> bytes set" where
  "recorded s c b = fst ` set (snd (get_or (0, []) (hm_get (get_or [] (hm_get (sc_slot_deltas c) s)) b)))"

lemma clear_slot_cache:
  assumes ok: "sc_ok c" and d: "hm_get (sc_slot_deltas c) s = Some d" and nc: "no_collision s c"
  obtains cache where "clear_slot_signatures s c =
      Some (c\<lparr>sc_cache := cache, sc_slot_deltas := hm_remove s (sc_slot_deltas c)\<rparr>)" "hm_ok cache"
    "\<And>b. hm_get d b = None \<Longrightarrow> hm_get cache b = hm_get (sc_cache c) b"
    "\<And>b. hm_get d b \<noteq> None \<Longrightarrow> cleared_entry s (recorded s c b) (hm_get (sc_cache c) b) (hm_get cache b)"
proof -
  have dok: "hm_ok d" "\<And>b e. hm_get d b = Some e \<Longrightarrow> delta_ok c s b e" using ok d by (auto simp: sc_ok_def)
  have "\<forall>(b, i, es)\<in>set d. distinct (map fst es) \<and> (\<exists>fork m. hm_get (sc_cache c) b = Some (fork, i, m) \<and> hm_ok m \<and>
      (\<forall>x\<in>fst ` set es. hm_get m x \<noteq> None))"
  proof clarify
    fix b i es assume e: "(b, i, es) \<in> set d"
    then have "hm_get d b = Some (i, es)" using hm.entries_iff [OF dok(1)] by blast
    from dok(2) [OF this] obtain fork m where m: "hm_get (sc_cache c) b = Some (fork, i, m)"
      "\<forall>(x, r)\<in>set es. (s, r) \<in> set (get_or [] (hm_get m x))" by (auto simp: delta_ok_def)
    have "hm_get m x \<noteq> None" if "(x, r) \<in> set es" for x r using m(2) that by (cases "hm_get m x") auto
    then have "\<forall>x\<in>fst ` set es. hm_get m x \<noteq> None" by auto
    moreover have "hm_ok m" using ok m(1) by (fastforce simp: sc_ok_def entry_ok_def)
    moreover have "distinct (map fst es)" using nc e d by (auto simp: no_collision_def)
    ultimately show "distinct (map fst es) \<and> (\<exists>fork m. hm_get (sc_cache c) b = Some (fork, i, m) \<and> hm_ok m \<and>
      (\<forall>x\<in>fst ` set es. hm_get m x \<noteq> None))" using m(1) by blast
  qed
  moreover have "hm_ok (sc_cache c)" "distinct (map fst d)" using ok dok(1) by (simp_all add: sc_ok_def hm_ok_def)
  ultimately obtain cache where cache: "fold_option (clear_blockhash s) (sc_cache c) d = Some cache" "hm_ok cache"
    "\<And>b. case map_of d b of None \<Rightarrow> hm_get cache b = hm_get (sc_cache c) b
      | Some (i, es) \<Rightarrow> cleared_entry s (fst ` set es) (hm_get (sc_cache c) b) (hm_get cache b)"
    using clear_blockhashes_ok [of "sc_cache c" d s] by blast
  have "hm_get cache b = hm_get (sc_cache c) b" if "hm_get d b = None" for b
    using cache(3) [of b] that by (simp add: hm_get_def)
  moreover have "cleared_entry s (recorded s c b) (hm_get (sc_cache c) b) (hm_get cache b)" if "hm_get d b \<noteq> None" for b
    using cache(3) [of b] that d by (auto simp: hm_get_def recorded_def)
  ultimately show ?thesis using cache(1,2) d by (intro that [of cache]) (simp_all add: clear_slot_signatures_def)
qed

lemma clear_slot_spec:
  assumes ok: "sc_ok c" and nc: "no_collision s c"
  shows "\<exists>c'. clear_slot_signatures s c = Some c' \<and> sc_ok c' \<and> sc_roots c' = sc_roots c \<and>
    sc_slot_deltas c' = hm_remove s (sc_slot_deltas c) \<and>
    (\<forall>b x. forks c' b x = (if x \<in> recorded s c b then filter (\<lambda>(t, _). t \<noteq> s) (forks c b x) else forks c b x))"
proof (cases "hm_get (sc_slot_deltas c) s")
  case None
  then have "recorded s c b = {}" for b by (simp add: recorded_def hm.get_empty)
  with ok None show ?thesis
    by (auto simp: clear_slot_signatures_def forks_def sc_ok_def delta_ok_def hm.ok_del hm.get_del split: if_splits)
next
  case (Some d)
  from clear_slot_cache [OF ok Some nc] obtain cache where cache: "clear_slot_signatures s c =
      Some (c\<lparr>sc_cache := cache, sc_slot_deltas := hm_remove s (sc_slot_deltas c)\<rparr>)" "hm_ok cache"
    "\<And>b. hm_get d b = None \<Longrightarrow> hm_get cache b = hm_get (sc_cache c) b"
    "\<And>b. hm_get d b \<noteq> None \<Longrightarrow> cleared_entry s (recorded s c b) (hm_get (sc_cache c) b) (hm_get cache b)" by blast
  let ?c = "c\<lparr>sc_cache := cache, sc_slot_deltas := hm_remove s (sc_slot_deltas c)\<rparr>"
  have forks: "forks ?c b x = (if x \<in> recorded s c b then filter (\<lambda>(t, _). t \<noteq> s) (forks c b x) else forks c b x)" for b x
  proof (cases "hm_get d b = None")
    case True
    then have "recorded s c b = {}" using Some by (simp add: recorded_def)
    then show ?thesis using cache(3) [OF True] by (simp add: forks_def)
  next
    case False
    with cache(4) [OF False] cleared_forks [of s "recorded s c b" c b ?c x] show ?thesis by simp
  qed
  have entry: "entry_ok e" if e: "hm_get cache b = Some e" for b e
  proof (cases "hm_get d b = None")
    case True
    with e cache(3) [OF True] show ?thesis by (intro sc_ok_entry [OF ok]) simp
  next
    case False
    from cache(4) [OF False] e have "hm_get (sc_cache c) b \<noteq> None" by (auto simp: cleared_entry_def split: option.splits)
    then obtain fork i m where m: "hm_get (sc_cache c) b = Some (fork, i, m)" by (cases "hm_get (sc_cache c) b") auto
    from cache(4) [OF False] obtain m' where m': "hm_get cache b = (if m' = [] then None else Some (fork, i, m'))" "hm_ok m'"
      "\<forall>y. hm_get m' y = (if y \<in> recorded s c b then surviving_forks s (hm_get m y) else hm_get m y)"
      unfolding m cleared_entry_def option.case prod.case by blast
    from m'(1) e have "e = (fork, i, m')" by (simp split: if_splits)
    moreover have "entry_ok (fork, i, m)" by (rule sc_ok_entry [OF ok m])
    ultimately show ?thesis using m'(2,3)
      by (auto simp: entry_ok_def surviving_forks_def Let_def split: if_splits option.splits)
  qed
  have delta: "delta_ok ?c s' b e" if "delta_ok c s' b e" "s' \<noteq> s" for s' b e
  proof -
    have kept: "\<forall>(x, r)\<in>set (snd e). (s', r) \<in> set (forks ?c b x)" using that unfolding delta_ok_iff forks by auto
    from that(1) obtain fork m where m: "hm_get (sc_cache c) b = Some (fork, fst e, m)" "s' \<le> fork" and ne: "snd e \<noteq> []"
      by (auto simp: delta_ok_def)
    from ne obtain x r where "(x, r) \<in> set (snd e)" by (cases "snd e") auto
    with kept have "forks ?c b x \<noteq> []" by force
    then have "hm_get cache b \<noteq> None" by (cases "hm_get cache b") (simp_all add: forks_def)
    then have "\<exists>m'. hm_get cache b = Some (fork, fst e, m')"
      using cache(3,4) [of b] m(1) by (cases "hm_get d b = None") (auto simp: cleared_entry_def split: if_splits)
    with kept ne m(2) show ?thesis unfolding delta_ok_iff by auto
  qed
  have "sc_ok ?c" using ok cache(2) entry delta by (auto simp: sc_ok_def hm.ok_del hm.get_del split: if_splits)
  with cache(1) forks show ?thesis by auto
qed

section \<open>What the cache remembers\<close>

text \<open>
  The steps of the banks that share the cache, as far as they keep the statuses of slot \<open>s\<close>: other
  statuses are inserted, roots are added that push out only roots older than \<open>s\<close>, and other slots are
  cleared.
\<close>

inductive keeps_slot :: "slot \<Rightarrow> 'r status_cache \<Rightarrow> 'r status_cache \<Rightarrow> bool" for s where
  refl: "keeps_slot s c c"
| insert: "keeps_slot s c c' \<Longrightarrow> keeps_slot s c (sc_insert rand b sig t r c')"
| root: "keeps_slot s c c' \<Longrightarrow>
    (MAX_CACHE_ENTRIES < card (insert f (sc_roots c')) \<longrightarrow> Min (insert f (sc_roots c')) < s) \<Longrightarrow>
    keeps_slot s c (sc_add_root f c')"
| clear: "keeps_slot s c c' \<Longrightarrow> t \<noteq> s \<Longrightarrow> no_collision t c' \<Longrightarrow> clear_slot_signatures t c' = Some c'' \<Longrightarrow>
    keeps_slot s c c''"

definition holds_status :: "'r status_cache \<Rightarrow> slot \<Rightarrow> hash \<Rightarrow> signature \<Rightarrow> bool" where
  "holds_status c s b sig \<longleftrightarrow> (\<exists>d i es r. hm_get (sc_slot_deltas c) s = Some d \<and> hm_get d b = Some (i, es) \<and>
     (sig_slice i sig, r) \<in> set es)"

lemma holds_status_found:
  assumes ok: "sc_ok c" and "holds_status c s b sig" and "s \<in> ancestors \<or> s \<in> sc_roots c"
  shows "get_signature_status c sig b ancestors \<noteq> None"
proof -
  from assms(2) obtain d i es r where "hm_get (sc_slot_deltas c) s = Some d" "hm_get d b = Some (i, es)" and x: "(sig_slice i sig, r) \<in> set es"
    by (auto simp: holds_status_def)
  with ok have "delta_ok c s b (i, es)" by (auto simp: sc_ok_def)
  with x obtain fork m where m: "hm_get (sc_cache c) b = Some (fork, i, m)" "(s, r) \<in> set (get_or [] (hm_get m (sig_slice i sig)))"
    by (auto simp: delta_ok_def)
  then obtain l where l: "hm_get m (sig_slice i sig) = Some l" "(s, r) \<in> set l"
    by (cases "hm_get m (sig_slice i sig)") auto
  with m assms(3) show ?thesis by (auto simp: get_signature_status_def find_None_iff)
qed

lemma holds_status_insert_with_slice:
  assumes "holds_status c s b sig"
  shows "holds_status (insert_with_slice b' t i' x r c) s b sig"
  using assms
  by (auto simp: holds_status_def insert_with_slice_delta hm.get_ins Let_def)

lemma holds_status_insert:
  assumes ok: "sc_ok c"
  shows "holds_status (sc_insert rand b sig s r c) s b sig"
    and "holds_status c s' b' sig' \<Longrightarrow> holds_status (sc_insert rand b sig s r c) s' b' sig'"
proof -
  obtain index where eq: "sc_insert rand b sig s r c = insert_with_slice b s index (sig_slice index sig) r c"
    and index: "\<forall>fork i m. hm_get (sc_cache c) b = Some (fork, i, m) \<longrightarrow> i = index"
    by (rule sc_insert_eq [OF ok, of rand b sig s r])
  let ?d = "get_or [] (hm_get (sc_slot_deltas c) s)"
  have "fst (get_or (index, []) (hm_get ?d b)) = index"
  proof (cases "hm_get ?d b")
    case (Some e)
    then have "\<exists>d. hm_get (sc_slot_deltas c) s = Some d \<and> hm_get d b = Some e"
      by (cases "hm_get (sc_slot_deltas c) s") (auto simp: hm.get_empty)
    then have "delta_ok c s b e" using ok unfolding sc_ok_def by blast
    with index Some show ?thesis by (auto simp: delta_ok_def)
  qed simp
  then show "holds_status (sc_insert rand b sig s r c) s b sig"
    unfolding eq by (auto simp: holds_status_def insert_with_slice_delta hm.get_ins Let_def)
  show "holds_status c s' b' sig' \<Longrightarrow> holds_status (sc_insert rand b sig s r c) s' b' sig'"
    unfolding eq by (rule holds_status_insert_with_slice)
qed

lemma holds_status_root:
  assumes "sc_ok c" and "holds_status c s b sig"
    and "MAX_CACHE_ENTRIES < card (insert f (sc_roots c)) \<longrightarrow> Min (insert f (sc_roots c)) < s"
  shows "holds_status (sc_add_root f c) s b sig"
  using assms by (auto simp: sc_add_root_def purge_roots_def holds_status_def Let_def sc_ok_def hm.get_retain_Some_iff)

lemma keeps_slot_ok:
  "keeps_slot s c c' \<Longrightarrow> sc_ok c \<Longrightarrow> holds_status c s b sig \<Longrightarrow> sc_ok c' \<and> holds_status c' s b sig"
proof (induction rule: keeps_slot.induct)
  case (clear c c' t c'')
  then show ?case using clear_slot_spec [of c' t] by (auto simp: holds_status_def hm.get_del)
qed (auto intro: sc_ok_insert sc_ok_add_root holds_status_insert(2) holds_status_root)

text \<open>
  (C7) A processed transaction stays known. Once its status was inserted for slot \<open>s\<close>, every bank that
  descends from \<open>s\<close>, or runs after \<open>s\<close> became a root, finds it under its blockhash, whatever other
  statuses were inserted, other slots cleared and roots added in between, as long as only roots older
  than \<open>s\<close> were dropped.
\<close>

theorem status_cache_remembers:
  assumes "sc_ok c" and "keeps_slot s (sc_insert rand b sig s r c) c'" and "s \<in> ancestors \<or> s \<in> sc_roots c'"
  shows "get_signature_status c' sig b ancestors \<noteq> None"
proof -
  have "sc_ok c' \<and> holds_status c' s b sig"
    using assms(1) by (intro keeps_slot_ok [OF assms(2)] sc_ok_insert holds_status_insert(1))
  with assms(3) holds_status_found [of c' s b sig ancestors] show ?thesis by blast
qed

definition demo_signature :: "u8 \<Rightarrow> signature" where
  "demo_signature v = replicate 32 1 @ replicate 32 v"

theorem status_cache_remembers_witness:
  "get_signature_status
     (sc_add_root 7 (sc_insert 9 5 (demo_signature 3) 8 True (sc_insert 4 5 (demo_signature 2) 7 True status_cache_default)))
     (demo_signature 2) 5 {} \<noteq> None"
proof (rule status_cache_remembers [OF sc_ok_default])
  let ?c = "sc_insert 4 5 (demo_signature 2) 7 True status_cache_default"
  have "\<not> MAX_CACHE_ENTRIES < card (insert 7 (sc_roots (sc_insert 9 5 (demo_signature 3) 8 True ?c)))" by code_simp
  then show "keeps_slot 7 ?c (sc_add_root 7 (sc_insert 9 5 (demo_signature 3) 8 True ?c))"
    by (intro keeps_slot.root keeps_slot.insert keeps_slot.refl) simp
  show "(7 :: slot) \<in> {} \<or> 7 \<in> sc_roots (sc_add_root 7 (sc_insert 9 5 (demo_signature 3) 8 True ?c))" by code_simp
qed

text \<open>
  Forgetting a slot removes the slot's statuses, and nothing else, provided no two signatures of
  the slot share blockhash and slice.
\<close>

theorem clear_slot_forgets:
  assumes "sc_ok c" and "no_collision s c"
  shows "\<exists>c'. clear_slot_signatures s c = Some c' \<and> sc_ok c' \<and>
    (\<forall>b x. forks c' b x = (if x \<in> recorded s c b then filter (\<lambda>(t, _). t \<noteq> s) (forks c b x) else forks c b x)) \<and>
    (\<forall>t. hm_get (sc_slot_deltas c') t = (if t = s then None else hm_get (sc_slot_deltas c) t))"
  using clear_slot_spec [OF assms] by (auto simp: hm.get_del)

theorem clear_slot_forgets_witness:
  "\<exists>c'. clear_slot_signatures 7 (sc_insert 4 5 (demo_signature 2) 7 True status_cache_default) = Some c' \<and> sc_ok c'"
proof -
  have "no_collision 7 (sc_insert 4 5 (demo_signature 2) 7 True status_cache_default)" by code_simp
  from clear_slot_forgets [OF sc_ok_insert [OF sc_ok_default] this] show ?thesis by blast
qed



end
