(* ===== verification/Spec2Isabelle.thy ===== *)
theory Spec2Isabelle
  imports Prelude Codec ShortVec EpochSchedule F64 Rent Accounts Message InstructionsSysvar Fees
    SlotHashes SlotHistory OrderedMap AuthorizedVoters VoteState VoteTower VoteAuthority VoteProgram
    VoteLib VoteSafety PubkeyDerive Nonce SystemProgram SystemSafety
    PreAccount MessageProcessor Invocation Builtins RecentMap StakeHistory ConfigProgram StakeState StakeAccount
    StakeProgram StakeRewards StakeLib StakeSafety StakeBacked LegacyStake HashMap Transaction AccountLocks
    BlockhashQueue RentCollector StatusCache
begin

text \<open>
  \<^bold>\<open>A verification of the on-chain core of the Panoptes validator.\<close>

  \<^bold>\<open>The program.\<close> A transaction names accounts and carries a message: a list of instructions, each for
  one program. The runtime loads the accounts, runs the program of each instruction on the accounts it
  names, and checks after every instruction that the program has kept to the access rules. Programs may
  invoke other programs. The native programs are part of the repository: the system program creates
  accounts and moves lamports, the vote program records the votes of validators, the stake program
  delegates lamports to them, the config program stores signed configuration. Sysvars are accounts
  through which programs read the clock, the rent, recent slot hashes and the like.

  \<^bold>\<open>Theories and sources.\<close>

    \<^item> Prelude, Codec, F64, Accounts: what all components share. Machine integers are words, so that
      arithmetic wraps as it does in the release profile; \<open>usize\<close> is \<open>nat\<close>; doubles are rationals
      rounded to 53 bits (\<open>F64\<close>), as far as the code uses them. A result is a sum: \<open>Inl (Err e)\<close> is an
      error, \<open>Inl Panic\<close> a panic. Accounts live in a store that maps references to accounts, and a
      keyed account holds a reference, so that two keyed accounts may share one account as in the code
      (\<open>sdk/src/account.rs\<close>, \<open>keyed_account.rs\<close>, \<open>account_utils.rs\<close>). Bincode is a parameter (\<open>serde\<close>),
      assumed to decode what it has encoded (\<open>codec\<close>); concrete codecs show that this can hold.
    \<^item> ShortVec (\<open>short_vec.rs\<close>), Message (\<open>message.rs\<close>, \<open>instruction.rs\<close>), InstructionsSysvar
      (\<open>sysvar/instructions.rs\<close>): the wire format of lengths, the compilation of instructions to a message
      with its header, and the serialisation of instructions for introspection.
    \<^item> EpochSchedule, Rent, Fees, SlotHistory, RecentMap with SlotHashes and StakeHistory: the data behind
      the sysvars (files of the same names under \<open>sdk/program/src\<close>).
    \<^item> OrderedMap, AuthorizedVoters, VoteState, VoteTower, VoteAuthority, VoteProgram, VoteLib,
      VoteSafety: the vote program (\<open>programs/vote/src\<close>), from its maps of authorized voters over the
      lockout tower to the instruction processor.
    \<^item> PubkeyDerive, Nonce, SystemProgram, SystemSafety: derived addresses (\<open>pubkey.rs\<close>), durable nonces
      (\<open>nonce_keyed_account.rs\<close>) and the system program (\<open>runtime/src/system_instruction_processor.rs\<close>).
    \<^item> ConfigProgram (\<open>programs/config/src\<close>).
    \<^item> StakeState, StakeAccount, StakeProgram, StakeLib, StakeRewards, StakeSafety, StakeBacked, LegacyStake:
      the stake program (\<open>programs/stake/src\<close>) and the older version a bank starts with.
    \<^item> PreAccount, MessageProcessor, Invocation, Builtins: the message processor
      (\<open>runtime/src/message_processor.rs\<close>): the check of accounts after an instruction, cross-program
      invocation, and the registered programs (\<open>runtime/src/builtins.rs\<close>).
    \<^item> Transaction (\<open>sdk/src/transaction.rs\<close>), and four parts of the bank under \<open>runtime/src\<close>: AccountLocks
      (\<open>accounts.rs\<close>), BlockhashQueue (\<open>blockhash_queue.rs\<close>), RentCollector (\<open>rent_collector.rs\<close>) and
      StatusCache (\<open>status_cache.rs\<close>). HashMap is the standard library's hash map.

  \<^bold>\<open>State and operations.\<close> Every handler of a program is a function from the store to an error or a
  new store; guards come in the order of the code, and every early return is a branch. The invoke
  context of the message processor is a record (\<open>invoke_context\<close>) that a machine carries along with the
  store and the next fresh reference, since an invocation copies accounts. The library that serialises
  values, the hash function, the curve check and the order in which a hash set is listed are arguments.

  \<^bold>\<open>What is shown.\<close>

    \<^item> Transactions: a successful message conserves the exact sum of lamports, leaves read-only accounts
      alone and lets foreign accounts at most gain (\<open>process_message_safe\<close>), for all programs that keep to
      the contract \<open>framed_programs\<close>; the registered programs are an instance. An invocation is contained,
      escalates no privilege, and the stack of programs is bounded.
    \<^item> Vote program: lockouts are kept, the stored state stays well formed, votes need signatures, valid
      votes are accepted, lamports are conserved; the cases in which the handler panics.
    \<^item> System program: conservation, consent of the payer, exact conditions for creating an account, one
      use of a nonce per blockhash; the overflow in nonce withdrawals.
    \<^item> Stake program: active stake stays backed by lamports, instructions need the consent of the named
      authority, accounts stay well typed, rewards stay in their budget and are paid once, warm-up and
      cool-down never create stake; the current version refines the old one; the overflow in withdrawals.
    \<^item> Config program: one signer named twice counts as two.
    \<^item> Parts of the bank: locks exclude conflicting transactions over all interleavings and do not leak, a
      processed transaction stays known, the queue of blockhashes is the window of the last registrations,
      rent is taken once per epoch, transactions signed in turns verify; the panic on colliding signatures.
    \<^item> Data: round trips of the wire formats, the epoch schedule, the histories as bounded maps, the fee
      governor and rent within their bounds.

  \<^bold>\<open>Interfaces.\<close> Locales state what a component relies on, and each is interpreted on the model's own
  definitions: \<open>codec\<close> and \<open>account_state\<close> (typed accounts), \<open>ordered_map\<close> (the B-tree maps of the vote
  program), \<open>recent_map\<close> (slot hashes and stake history), \<open>hash_map\<close> (the maps of the bank), \<open>lamport_program\<close> and \<open>exact_program\<close> (programs
  that conserve lamports: system, vote, stake and legacy stake), \<open>framed_programs\<close> (the programs of a
  bank, for the message processor).

  \<^bold>\<open>Bounds and fuel.\<close> No function uses fuel for a loop of the code: the loops over epochs, bump seeds and
  history entries are shown to terminate by a measure. The decoder of lists in Codec takes the length of
  the input as fuel, which is enough since every element takes a byte. Claims on exact sums ask that the
  balances fit 64 bits (or 62 bits where the code adds three of them), as the supply does.

  \<^bold>\<open>Not modelled.\<close> The pipeline of the bank that loads accounts, charges fees, commits and distributes rent
  around a message, and the tree of forks: the parts it calls are modelled one by one, their composition
  is not. The accounts database, the ledger store, gossip, turbine, RPC and the other services are
  concurrent or I/O bound and appear here only through their results. Loaders and the BPF virtual machine are third
  party or foreign code; a loaded program is any program that keeps to the contract. The secp256k1
  program, the budget, exchange, ownable and vest programs, clients and command line tools are left out.
\<close>

end
